(* ===== verification/Prelude.thy ===== *)
theory Prelude
  imports Main "HOL-Library.Sublist" "HOL-Library.Product_Lexorder" "HOL-Library.Multiset"
    "HOL-Library.Code_Target_Nat"
begin

text \<open>
  The part of Go's standard library that the modelled packages use on strings and numbers, and the
  generic lemmas the component theories share.

  A Go string is a sequence of bytes, and so is an Isabelle \<open>string\<close> (a \<open>char\<close> is eight
  bits), so every function below works on the bytes Go works on. White space
  (\<^verbatim>\<open>strings.TrimSpace\<close>, \<^verbatim>\<open>strings.Fields\<close>) is Unicode's, recognised by its UTF-8 byte
  sequences. Case mapping (\<^verbatim>\<open>strings.ToLower\<close>, \<^verbatim>\<open>strings.EqualFold\<close>) is modelled on ASCII
  letters; a byte of 128 or more is left as it is. Integers parsed by \<^verbatim>\<open>strconv\<close> are mathematical
  integers with the width check written out.
\<close>

section \<open>Bytes\<close>

abbreviation byte :: "char \<Rightarrow> nat" where
  "byte c \<equiv> of_char c"

definition is_digit :: "char \<Rightarrow> bool" where
  "is_digit c \<longleftrightarrow> 48 \<le> byte c \<and> byte c \<le> 57"

definition is_lower :: "char \<Rightarrow> bool" where
  "is_lower c \<longleftrightarrow> 97 \<le> byte c \<and> byte c \<le> 122"

definition is_upper :: "char \<Rightarrow> bool" where
  "is_upper c \<longleftrightarrow> 65 \<le> byte c \<and> byte c \<le> 90"

definition is_hex :: "char \<Rightarrow> bool" where
  "is_hex c \<longleftrightarrow> is_digit c \<or> (97 \<le> byte c \<and> byte c \<le> 102) \<or> (65 \<le> byte c \<and> byte c \<le> 70)"

definition hex_val :: "char \<Rightarrow> nat" where
  "hex_val c = (if is_digit c then byte c - 48
                else if 97 \<le> byte c then byte c - 87 else byte c - 55)"

definition lower_char :: "char \<Rightarrow> char" where
  "lower_char c = (if is_upper c then char_of (byte c + 32) else c)"

lemma byte_char_of [simp]: "n < 256 \<Longrightarrow> byte (char_of n) = n"
  by (simp add: of_char_of)

lemma byte_inj: "byte c = byte d \<Longrightarrow> c = d"
  by (metis char_of_char)

lemma lower_char_not_upper: "\<not> is_upper (lower_char c)"
  by (auto simp: lower_char_def is_upper_def)

lemma lower_char_idem [simp]: "lower_char (lower_char c) = lower_char c"
  using lower_char_not_upper [of c] by (simp add: lower_char_def [of "lower_char c"])

section \<open>Strings\<close>

subsection \<open>Prefixes, suffixes and positions\<close>

definition HasPrefix :: "string \<Rightarrow> string \<Rightarrow> bool" where
  "HasPrefix s p \<longleftrightarrow> take (length p) s = p"

definition TrimPrefix :: "string \<Rightarrow> string \<Rightarrow> string" where
  "TrimPrefix s p = (if HasPrefix s p then drop (length p) s else s)"

definition HasSuffix :: "string \<Rightarrow> string \<Rightarrow> bool" where
  "HasSuffix s p \<longleftrightarrow> length p \<le> length s \<and> drop (length s - length p) s = p"

definition TrimSuffix :: "string \<Rightarrow> string \<Rightarrow> string" where
  "TrimSuffix s p = (if HasSuffix s p then take (length s - length p) s else s)"

text \<open>\<^verbatim>\<open>strings.IndexByte\<close> and \<^verbatim>\<open>strings.Index\<close>: \<open>None\<close> stands for \<^verbatim>\<open>-1\<close>.\<close>

fun IndexByte :: "string \<Rightarrow> char \<Rightarrow> nat option" where
  "IndexByte [] c = None"
| "IndexByte (x # xs) c = (if x = c then Some 0 else map_option Suc (IndexByte xs c))"

fun Index :: "string \<Rightarrow> string \<Rightarrow> nat option" where
  "Index [] p = (if p = [] then Some 0 else None)"
| "Index (x # xs) p = (if HasPrefix (x # xs) p then Some 0 else map_option Suc (Index xs p))"

definition LastIndexByte :: "string \<Rightarrow> char \<Rightarrow> nat option" where
  "LastIndexByte s c = map_option (\<lambda>i. length s - 1 - i) (IndexByte (rev s) c)"

definition Contains :: "string \<Rightarrow> string \<Rightarrow> bool" where
  "Contains s p \<longleftrightarrow> Index s p \<noteq> None"

text \<open>\<^verbatim>\<open>strings.Cut\<close> with a one-byte separator: the text before it, after it, and whether it was found.\<close>

definition Cut :: "string \<Rightarrow> char \<Rightarrow> string \<times> string \<times> bool" where
  "Cut s c = (case IndexByte s c of
     None \<Rightarrow> (s, [], False)
   | Some i \<Rightarrow> (take i s, drop (Suc i) s, True))"

text \<open>\<^verbatim>\<open>strings.Split\<close> and \<^verbatim>\<open>strings.Join\<close> with a one-byte separator.\<close>

fun Split :: "string \<Rightarrow> char \<Rightarrow> string list" where
  "Split [] c = [[]]"
| "Split (x # xs) c =
     (if x = c then [] # Split xs c
      else (case Split xs c of [] \<Rightarrow> [[x]] | y # ys \<Rightarrow> (x # y) # ys))"

fun Join :: "string list \<Rightarrow> string \<Rightarrow> string" where
  "Join [] sep = []"
| "Join [s] sep = s"
| "Join (s # t # r) sep = s @ sep @ Join (t # r) sep"

text \<open>\<^verbatim>\<open>strings.Trim\<close> with a cutset of ASCII bytes.\<close>

definition Trim :: "string \<Rightarrow> string \<Rightarrow> string" where
  "Trim s cutset = rev (dropWhile (\<lambda>c. c \<in> set cutset) (rev (dropWhile (\<lambda>c. c \<in> set cutset) s)))"

definition ReplaceByte :: "string \<Rightarrow> char \<Rightarrow> string \<Rightarrow> string" where
  "ReplaceByte s c r = concat (map (\<lambda>x. if x = c then r else [x]) s)"

definition ToLower :: "string \<Rightarrow> string" where
  "ToLower s = map lower_char s"

definition EqualFold :: "string \<Rightarrow> string \<Rightarrow> bool" where
  "EqualFold s t \<longleftrightarrow> ToLower s = ToLower t"

lemma HasPrefix_iff: "HasPrefix s p \<longleftrightarrow> (\<exists>r. s = p @ r)"
  by (metis HasPrefix_def append_eq_conv_conj append_take_drop_id)

lemma HasPrefix_append [simp]: "HasPrefix (p @ r) p"
  by (auto simp: HasPrefix_iff)

lemma HasPrefix_refl [simp]: "HasPrefix p p"
  by (simp add: HasPrefix_def)

lemma TrimPrefix_append [simp]: "TrimPrefix (p @ r) p = r"
  by (simp add: TrimPrefix_def)

lemma IndexByte_None: "IndexByte s c = None \<longleftrightarrow> c \<notin> set s"
  by (induction s) auto

lemma IndexByte_Some:
  "IndexByte s c = Some i \<longleftrightarrow> i < length s \<and> s ! i = c \<and> c \<notin> set (take i s)"
proof (induction s arbitrary: i)
  case Nil
  then show ?case by simp
next
  case (Cons x xs)
  show ?case
    by (cases i) (auto simp: Cons)
qed

lemma IndexByte_append [simp]: "c \<notin> set s \<Longrightarrow> IndexByte (s @ c # t) c = Some (length s)"
  by (induction s) auto

lemma Cut_found: "c \<notin> set s \<Longrightarrow> Cut (s @ c # t) c = (s, t, True)"
  by (simp add: Cut_def)

lemma Cut_not_found: "c \<notin> set s \<Longrightarrow> Cut s c = (s, [], False)"
  by (simp add: Cut_def IndexByte_None [THEN iffD2])

lemma Split_not_Nil [simp]: "Split s c \<noteq> []"
  by (induction s) (auto split: list.splits)

lemma Join_Split [simp]: "Join (Split s c) [c] = s"
proof (induction s)
  case Nil
  then show ?case by simp
next
  case (Cons x xs)
  obtain y ys where s: "Split xs c = y # ys"
    by (cases "Split xs c") auto
  show ?case
    using Cons by (cases ys) (auto simp: s)
qed

lemma Split_no_sep: "p \<in> set (Split s c) \<Longrightarrow> c \<notin> set p"
proof (induction s arbitrary: p)
  case Nil
  then show ?case by simp
next
  case (Cons x xs)
  obtain y ys where s: "Split xs c = y # ys"
    by (cases "Split xs c") auto
  show ?case
    using Cons.prems Cons.IH by (auto simp: s split: if_splits)
qed

lemma Split_subset: "p \<in> set (Split s c) \<Longrightarrow> set p \<subseteq> set s"
proof (induction s arbitrary: p)
  case Nil
  then show ?case by simp
next
  case (Cons x xs)
  obtain y ys where s: "Split xs c = y # ys"
    by (cases "Split xs c") auto
  show ?case
    using Cons.prems Cons.IH by (fastforce simp: s split: if_splits)
qed

lemma Split_single: "c \<notin> set s \<Longrightarrow> Split s c = [s]"
  by (induction s) auto

lemma Split_append: "c \<notin> set s \<Longrightarrow> Split (s @ c # t) c = s # Split t c"
  by (induction s) auto

lemma Trim_set: "set (Trim s cs) \<subseteq> set s"
  by (auto simp: Trim_def dest!: set_dropWhileD)

lemma Trim_hd_last:
  assumes "Trim s cs \<noteq> []"
  shows "hd (Trim s cs) \<notin> set cs \<and> last (Trim s cs) \<notin> set cs"
proof -
  define a where "a = dropWhile (\<lambda>c. c \<in> set cs) s"
  define b where "b = dropWhile (\<lambda>c. c \<in> set cs) (rev a)"
  have T: "Trim s cs = rev b"
    by (simp add: Trim_def a_def b_def)
  with assms have b: "b \<noteq> []" by simp
  have split: "rev a = takeWhile (\<lambda>c. c \<in> set cs) (rev a) @ b"
    by (simp add: b_def)
  have "a \<noteq> []"
    using b by (auto simp: b_def)
  have "hd b \<notin> set cs"
    using b hd_dropWhile [of "\<lambda>c. c \<in> set cs" "rev a"] by (simp add: b_def)
  moreover have "hd a \<notin> set cs"
    using \<open>a \<noteq> []\<close> hd_dropWhile [of "\<lambda>c. c \<in> set cs" s] by (simp add: a_def)
  moreover have "last (rev a) = last b"
    using b by (subst split) simp
  ultimately show ?thesis
    using b \<open>a \<noteq> []\<close> by (simp add: T hd_rev last_rev)
qed

lemma ToLower_idem [simp]: "ToLower (ToLower s) = ToLower s"
  by (simp add: ToLower_def)

lemma length_ToLower [simp]: "length (ToLower s) = length s"
  by (simp add: ToLower_def)

subsection \<open>White space\<close>

text \<open>
  \<^verbatim>\<open>unicode.IsSpace\<close> on UTF-8 text. \<open>space_len s\<close> is the size in bytes of the white-space rune at the
  front of \<open>s\<close>, 0 when there is none; \<open>rspace_len\<close> reads a reversed string, so it is the size of the
  white-space rune at the end. The runes are U+0009 to U+000D, U+0020, U+0085, U+00A0, U+1680, U+2000 to
  U+200A, U+2028, U+2029, U+202F, U+205F and U+3000.
\<close>

definition is_space1 :: "char \<Rightarrow> bool" where
  "is_space1 a \<longleftrightarrow> byte a = 32 \<or> (9 \<le> byte a \<and> byte a \<le> 13)"

definition is_space2 :: "char \<Rightarrow> char \<Rightarrow> bool" where
  "is_space2 a b \<longleftrightarrow> byte a = 194 \<and> (byte b = 133 \<or> byte b = 160)"

definition is_space3 :: "char \<Rightarrow> char \<Rightarrow> char \<Rightarrow> bool" where
  "is_space3 a b c \<longleftrightarrow>
     byte a = 225 \<and> byte b = 154 \<and> byte c = 128
   \<or> byte a = 226 \<and> byte b = 128 \<and> (128 \<le> byte c \<and> byte c \<le> 138 \<or> byte c \<in> {168, 169, 175})
   \<or> byte a = 226 \<and> byte b = 129 \<and> byte c = 159
   \<or> byte a = 227 \<and> byte b = 128 \<and> byte c = 128"

fun space_len :: "string \<Rightarrow> nat" where
  "space_len [] = 0"
| "space_len [a] = (if is_space1 a then 1 else 0)"
| "space_len [a, b] = (if is_space1 a then 1 else if is_space2 a b then 2 else 0)"
| "space_len (a # b # c # _) =
     (if is_space1 a then 1 else if is_space2 a b then 2 else if is_space3 a b c then 3 else 0)"

fun rspace_len :: "string \<Rightarrow> nat" where
  "rspace_len [] = 0"
| "rspace_len [a] = (if is_space1 a then 1 else 0)"
| "rspace_len [b, a] = (if is_space1 b then 1 else if is_space2 a b then 2 else 0)"
| "rspace_len (c # b # a # _) =
     (if is_space1 c then 1 else if is_space2 b c then 2 else if is_space3 a b c then 3 else 0)"

lemma drop_space_len: "0 < space_len s \<Longrightarrow> length s - space_len s < length s"
  by (cases s) auto

lemma drop_rspace_len: "0 < rspace_len s \<Longrightarrow> length s - rspace_len s < length s"
  by (cases s) auto

function trim_left :: "string \<Rightarrow> string" where
  "trim_left s = (if space_len s = 0 then s else trim_left (drop (space_len s) s))"
  by pat_completeness auto
termination
  by (relation "measure length") (auto dest: drop_space_len)

function rtrim_left :: "string \<Rightarrow> string" where
  "rtrim_left s = (if rspace_len s = 0 then s else rtrim_left (drop (rspace_len s) s))"
  by pat_completeness auto
termination
  by (relation "measure length") (auto dest: drop_rspace_len)

declare trim_left.simps [simp del] rtrim_left.simps [simp del]

definition TrimSpace :: "string \<Rightarrow> string" where
  "TrimSpace s = rev (rtrim_left (rev (trim_left s)))"

text \<open>\<^verbatim>\<open>strings.Fields\<close>: the maximal runs without white space.\<close>

function fields_from :: "string \<Rightarrow> string \<Rightarrow> string list" where
  "fields_from acc s =
     (if s = [] then (if acc = [] then [] else [rev acc])
      else if space_len s \<noteq> 0
        then (if acc = [] then [] else [rev acc]) @ fields_from [] (drop (space_len s) s)
      else fields_from (hd s # acc) (tl s))"
  by pat_completeness auto
termination
  by (relation "measure (\<lambda>(acc, s). length s)") auto

declare fields_from.simps [simp del]

definition Fields :: "string \<Rightarrow> string list" where
  "Fields s = fields_from [] s"

text \<open>\<^verbatim>\<open>strings.FieldsFunc\<close> with a predicate on ASCII bytes.\<close>

definition FieldsFunc :: "string \<Rightarrow> (char \<Rightarrow> bool) \<Rightarrow> string list" where
  "FieldsFunc s f =
     filter (\<lambda>p. p \<noteq> []) (Split (map (\<lambda>c. if f c then CHR '','' else c) s) CHR '','')"

definition trimmed_string :: "string \<Rightarrow> bool" where
  "trimmed_string s \<longleftrightarrow> space_len s = 0 \<and> rspace_len (rev s) = 0"

lemma trim_left_id: "space_len s = 0 \<Longrightarrow> trim_left s = s"
  by (subst trim_left.simps) simp

lemma rtrim_left_id: "rspace_len s = 0 \<Longrightarrow> rtrim_left s = s"
  by (subst rtrim_left.simps) simp

lemma TrimSpace_id: "trimmed_string s \<Longrightarrow> TrimSpace s = s"
  by (simp add: TrimSpace_def trimmed_string_def trim_left_id rtrim_left_id)

lemma space_len_trim_left: "space_len (trim_left s) = 0"
proof (induction s rule: trim_left.induct)
  case (1 s)
  then show ?case
    by (cases "space_len s = 0") (auto simp: trim_left.simps [of s])
qed

lemma rspace_len_rtrim_left: "rspace_len (rtrim_left s) = 0"
proof (induction s rule: rtrim_left.induct)
  case (1 s)
  then show ?case
    by (cases "rspace_len s = 0") (auto simp: rtrim_left.simps [of s])
qed

lemma trim_left_suffix: "\<exists>p. s = p @ trim_left s"
proof (induction s rule: trim_left.induct)
  case (1 s)
  show ?case
  proof (cases "space_len s = 0")
    case True
    then show ?thesis by (simp add: trim_left_id)
  next
    case False
    with "1.IH" obtain p where "drop (space_len s) s = p @ trim_left (drop (space_len s) s)"
      by blast
    then have "s = (take (space_len s) s @ p) @ trim_left (drop (space_len s) s)"
      by (metis append.assoc append_take_drop_id)
    with False show ?thesis by (metis trim_left.simps)
  qed
qed

lemma rtrim_left_suffix: "\<exists>p. s = p @ rtrim_left s"
proof (induction s rule: rtrim_left.induct)
  case (1 s)
  show ?case
  proof (cases "rspace_len s = 0")
    case True
    then show ?thesis by (simp add: rtrim_left_id)
  next
    case False
    with "1.IH" obtain p where "drop (rspace_len s) s = p @ rtrim_left (drop (rspace_len s) s)"
      by blast
    then have "s = (take (rspace_len s) s @ p) @ rtrim_left (drop (rspace_len s) s)"
      by (metis append.assoc append_take_drop_id)
    with False show ?thesis by (metis rtrim_left.simps)
  qed
qed

lemma space_len_append: "space_len s \<noteq> 0 \<Longrightarrow> space_len (s @ t) = space_len s"
  by (induction s rule: space_len.induct; cases t rule: space_len.cases) (auto split: if_splits)

text \<open>\<^verbatim>\<open>TrimSpace\<close> gives a middle part of its input that no white space begins or ends.\<close>

lemma TrimSpace_infix: "\<exists>p q. s = p @ TrimSpace s @ q"
proof -
  obtain p where p: "s = p @ trim_left s"
    using trim_left_suffix by blast
  obtain q where "rev (trim_left s) = q @ rtrim_left (rev (trim_left s))"
    using rtrim_left_suffix by blast
  then have "trim_left s = TrimSpace s @ rev q"
    by (metis TrimSpace_def rev_append rev_rev_ident)
  with p show ?thesis by metis
qed

lemma trimmed_TrimSpace [simp]: "trimmed_string (TrimSpace s)"
proof -
  obtain q where "rev (trim_left s) = q @ rtrim_left (rev (trim_left s))"
    using rtrim_left_suffix by blast
  then have "trim_left s = TrimSpace s @ rev q"
    by (metis TrimSpace_def rev_append rev_rev_ident)
  then have "space_len (TrimSpace s) = 0"
    by (metis space_len_append space_len_trim_left)
  moreover have "rspace_len (rev (TrimSpace s)) = 0"
    by (simp add: TrimSpace_def rspace_len_rtrim_left)
  ultimately show ?thesis
    by (simp add: trimmed_string_def)
qed

lemma TrimSpace_idem [simp]: "TrimSpace (TrimSpace s) = TrimSpace s"
  by (rule TrimSpace_id) simp

lemma set_TrimSpace: "set (TrimSpace s) \<subseteq> set s"
  using TrimSpace_infix [of s] by (metis Un_subset_iff set_append subset_refl)

lemma length_TrimSpace: "length (TrimSpace s) \<le> length s"
  using TrimSpace_infix [of s] by (metis add_leD1 le_add2 length_append)

lemma TrimSpace_Nil [simp]: "TrimSpace [] = []"
  by (rule TrimSpace_id) (simp add: trimmed_string_def)

text \<open>How \<^verbatim>\<open>TrimSpace\<close> reads a string framed by ASCII bytes.\<close>

lemma space_len_ascii: "byte c < 128 \<Longrightarrow> \<not> is_space1 c \<Longrightarrow> space_len (c # s) = 0"
  by (cases s rule: space_len.cases) (auto simp: is_space2_def is_space3_def)

lemma rspace_len_ascii: "byte c < 128 \<Longrightarrow> \<not> is_space1 c \<Longrightarrow> rspace_len (c # s) = 0"
  by (cases s rule: rspace_len.cases) (auto simp: is_space2_def is_space3_def)

lemma rspace_len_append_ascii:
  assumes "rspace_len a = 0" "a \<noteq> []" "\<forall>c \<in> set (take 2 b). byte c < 128"
  shows "rspace_len (a @ b) = 0"
proof (cases a rule: rspace_len.cases)
  case (2 c)
  with assms show ?thesis
    by (cases b rule: rspace_len.cases) (auto simp: is_space2_def is_space3_def split: if_splits)
next
  case (3 c d)
  with assms show ?thesis
    by (cases b rule: rspace_len.cases) (auto simp: is_space2_def is_space3_def split: if_splits)
qed (use assms in \<open>auto split: if_splits\<close>)

lemma TrimSpace_space1: "is_space1 c \<Longrightarrow> TrimSpace (c # s) = TrimSpace s"
proof -
  assume c: "is_space1 c"
  have "space_len (c # s) = 1" using c by (cases s rule: space_len.cases) auto
  then have "trim_left (c # s) = trim_left s" by (subst trim_left.simps) simp
  then show ?thesis by (simp add: TrimSpace_def)
qed

lemma TrimSpace_blank [simp]: "TrimSpace (CHR '' '' # s) = TrimSpace s"
  by (rule TrimSpace_space1) (simp add: is_space1_def)

text \<open>A line that begins with a visible ASCII byte and ends in two ASCII bytes and a trimmed, non-empty text.\<close>

lemma TrimSpace_framed:
  assumes "byte c < 128" "\<not> is_space1 c" "byte a < 128" "byte b < 128" "trimmed_string t" "t \<noteq> []"
  shows "TrimSpace (c # s @ a # b # t) = c # s @ a # b # t"
proof (rule TrimSpace_id)
  have "rspace_len (rev t @ [b, a] @ rev s @ [c]) = 0"
    using assms(3-6) by (intro rspace_len_append_ascii) (auto simp: trimmed_string_def)
  then show "trimmed_string (c # s @ a # b # t)"
    using space_len_ascii [OF assms(1,2), of "s @ a # b # t"] by (simp add: trimmed_string_def)
qed

lemma rtrim_left_keeps:
  assumes "byte c < 128" "\<not> is_space1 c"
  shows "\<exists>ys. rtrim_left (xs @ [c]) = ys @ [c]"
proof (induction "length xs" arbitrary: xs rule: less_induct)
  case less
  show ?case
  proof (cases "rspace_len (xs @ [c]) = 0")
    case True
    then show ?thesis by (simp add: rtrim_left_id)
  next
    case False
    let ?k = "rspace_len (xs @ [c])"
    have "?k \<le> length xs"
      using assms False by (cases xs rule: rspace_len.cases) (auto simp: is_space2_def is_space3_def split: if_splits)
    then have "drop ?k (xs @ [c]) = drop ?k xs @ [c]" "length (drop ?k xs) < length xs"
      using False by auto
    with less [of "drop ?k xs"] False show ?thesis by (metis rtrim_left.simps)
  qed
qed

lemma TrimSpace_Cons:
  assumes "byte c < 128" "\<not> is_space1 c"
  shows "\<exists>r. TrimSpace (c # s) = c # r"
proof -
  obtain ys where "rtrim_left (rev s @ [c]) = ys @ [c]" using rtrim_left_keeps [OF assms] by blast
  then show ?thesis
    by (simp add: TrimSpace_def trim_left_id [OF space_len_ascii [OF assms]])
qed

section \<open>Numbers\<close>

text \<open>
  \<^verbatim>\<open>strconv.ParseUint\<close> in base 10 with a bit size, \<^verbatim>\<open>strconv.ParseInt\<close> in base 10 with 64 bits and
  \<^verbatim>\<open>strconv.Atoi\<close> (an \<^verbatim>\<open>int\<close> is 64 bits on every target): \<open>None\<close> is any error. \<^verbatim>\<open>strconv.Itoa\<close> and
  \<^verbatim>\<open>fmt\<close>'s \<^verbatim>\<open>%d\<close> are \<open>itoa\<close>.
\<close>

definition digits_val :: "string \<Rightarrow> nat" where
  "digits_val s = foldl (\<lambda>n c. 10 * n + (byte c - 48)) 0 s"

definition ParseUint :: "string \<Rightarrow> nat \<Rightarrow> nat option" where
  "ParseUint s bits =
     (if s \<noteq> [] \<and> list_all is_digit s \<and> digits_val s < 2 ^ bits then Some (digits_val s) else None)"

definition ParseInt64 :: "string \<Rightarrow> int option" where
  "ParseInt64 s =
     (let neg = (s \<noteq> [] \<and> hd s = CHR ''-'');
          ds = (if s \<noteq> [] \<and> (hd s = CHR ''-'' \<or> hd s = CHR ''+'') then tl s else s)
      in if ds = [] \<or> \<not> list_all is_digit ds then None
         else if neg then (if digits_val ds \<le> 2 ^ 63 then Some (- int (digits_val ds)) else None)
         else (if digits_val ds < 2 ^ 63 then Some (int (digits_val ds)) else None))"

definition Atoi :: "string \<Rightarrow> int option" where
  "Atoi s = ParseInt64 s"

fun nat_digits :: "nat \<Rightarrow> string" where
  "nat_digits n =
     (if n < 10 then [char_of (48 + n)] else nat_digits (n div 10) @ [char_of (48 + n mod 10)])"

declare nat_digits.simps [simp del]

definition itoa :: "int \<Rightarrow> string" where
  "itoa n = (if n < 0 then CHR ''-'' # nat_digits (nat (- n)) else nat_digits (nat n))"

lemma digits_val_snoc [simp]: "digits_val (s @ [c]) = 10 * digits_val s + (byte c - 48)"
  by (simp add: digits_val_def)

lemma digits_val_single [simp]: "digits_val [c] = byte c - 48"
  by (simp add: digits_val_def)

lemma is_digit_char_of: "n < 10 \<Longrightarrow> is_digit (char_of (48 + n))" for n :: nat
  by (simp add: is_digit_def)

lemma nat_digits_val [simp]: "digits_val (nat_digits n) = n"
proof (induction n rule: nat_digits.induct)
  case (1 n)
  show ?case
  proof (cases "n < 10")
    case True
    then show ?thesis by (subst nat_digits.simps) simp
  next
    case False
    with "1.IH" have "digits_val (nat_digits (n div 10)) = n div 10" by simp
    with False show ?thesis
      by (subst nat_digits.simps) (simp del: of_char_of)
  qed
qed

lemma nat_digits_digits: "list_all is_digit (nat_digits n)"
proof (induction n rule: nat_digits.induct)
  case (1 n)
  then show ?case
    by (cases "n < 10") (simp_all add: nat_digits.simps [of n] is_digit_char_of)
qed

lemma nat_digits_not_Nil [simp]: "nat_digits n \<noteq> []"
  by (subst nat_digits.simps) simp

lemma nat_digits_inj: "nat_digits m = nat_digits n \<Longrightarrow> m = n"
  by (metis nat_digits_val)

lemma ParseUint_nat_digits: "n < 2 ^ bits \<Longrightarrow> ParseUint (nat_digits n) bits = Some n"
  by (simp add: ParseUint_def nat_digits_digits)

lemma ParseUint_bound: "ParseUint s bits = Some n \<Longrightarrow> n < 2 ^ bits"
  by (auto simp: ParseUint_def split: if_splits)

lemma hd_nat_digits: "is_digit (hd (nat_digits n))"
  using nat_digits_digits [of n] by (cases "nat_digits n") auto

lemma Atoi_nat_digits: "n < 2 ^ 63 \<Longrightarrow> Atoi (nat_digits n) = Some (int n)"
  using hd_nat_digits [of n] nat_digits_digits [of n]
  by (auto simp: Atoi_def ParseInt64_def Let_def is_digit_def)

lemma Atoi_range: "Atoi s = Some n \<Longrightarrow> - (2 ^ 63) \<le> n \<and> n < 2 ^ 63"
  by (auto simp: Atoi_def ParseInt64_def Let_def split: if_splits)

section \<open>First match\<close>

text \<open>
  A rule list is read in order and the first rule that matches decides. \<open>first_match p f rs\<close> is the
  outcome \<open>f r\<close> of the first rule \<open>r\<close> of \<open>rs\<close> that satisfies \<open>p\<close>.
\<close>

fun first_match :: "('r \<Rightarrow> bool) \<Rightarrow> ('r \<Rightarrow> 'o) \<Rightarrow> 'r list \<Rightarrow> 'o option" where
  "first_match p f [] = None"
| "first_match p f (r # rs) = (if p r then Some (f r) else first_match p f rs)"

text \<open>Alternatives in order: the first one that decides.\<close>

fun or_else :: "'o option \<Rightarrow> 'o option \<Rightarrow> 'o option" where
  "or_else (Some x) y = Some x"
| "or_else None y = y"

fun the_default :: "'o \<Rightarrow> 'o option \<Rightarrow> 'o" where
  "the_default d None = d"
| "the_default d (Some x) = x"

lemma or_else_None_right [simp]: "or_else x None = x"
  by (cases x) auto

lemma or_else_assoc [simp]: "or_else (or_else x y) z = or_else x (or_else y z)"
  by (cases x) auto

lemma first_match_append [simp]:
  "first_match p f (xs @ ys) = or_else (first_match p f xs) (first_match p f ys)"
  by (induction xs) auto

lemma first_match_None [simp]: "first_match p f xs = None \<longleftrightarrow> (\<forall>x \<in> set xs. \<not> p x)"
  by (induction xs) auto

lemma first_match_find: "first_match p f xs = map_option f (find p xs)"
  by (induction xs) auto

lemma first_match_map: "first_match p f (map g xs) = first_match (\<lambda>x. p (g x)) (\<lambda>x. f (g x)) xs"
  by (induction xs) auto

lemma first_match_comp: "first_match p (\<lambda>x. g (f x)) xs = map_option g (first_match p f xs)"
  by (induction xs) simp_all

lemma first_match_const:
  "first_match p (\<lambda>_. c) xs = (if \<exists>x \<in> set xs. p x then Some c else None)"
  by (induction xs) simp_all

lemma first_match_cong:
  "(\<And>x. x \<in> set xs \<Longrightarrow> p x = q x) \<Longrightarrow> (\<And>x. x \<in> set xs \<Longrightarrow> q x \<Longrightarrow> f x = g x) \<Longrightarrow>
     first_match p f xs = first_match q g xs"
  by (induction xs) auto

lemma find_append: "find p (xs @ ys) = (case find p xs of None \<Rightarrow> find p ys | Some x \<Rightarrow> Some x)"
  by (induction xs) auto

lemma find_filter: "find p (filter q xs) = find (\<lambda>x. p x \<and> q x) xs"
  by (induction xs) auto

lemma find_SomeD: "find p xs = Some x \<Longrightarrow> x \<in> set xs \<and> p x"
  by (induction xs) (auto split: if_splits)

text \<open>In a list sorted by a key, the first element that satisfies a predicate has the least key of them.\<close>

lemma find_sorted_least:
  "sorted (map k xs) \<Longrightarrow> find p xs = Some x \<Longrightarrow> y \<in> set xs \<Longrightarrow> p y \<Longrightarrow> k x \<le> k y"
  by (induction xs) (auto split: if_splits)

end
