(* ===== verification/Go_Net.thy ===== *)
theory Go_Net
  imports Prelude
begin

text \<open>
  The parts of Go's \<^verbatim>\<open>net\<close> and \<^verbatim>\<open>net/netip\<close> packages the configuration code relies on: address and
  prefix parsing, host and port splitting. An address is its list of bytes, four or sixteen of them.
  An error is \<open>None\<close>; no caller looks further into it.
\<close>

section \<open>Addresses\<close>

datatype ip = IP4 (ip_bytes: "nat list") | IP6 (ip_bytes: "nat list") (ip_zone: string)

definition v4_octet :: "string \<Rightarrow> nat option" where
  "v4_octet p =
     (if p \<noteq> [] \<and> list_all is_digit p \<and> (1 < length p \<longrightarrow> hd p \<noteq> CHR ''0'') \<and> digits_val p \<le> 255
      then Some (digits_val p) else None)"

definition parseIPv4Fields :: "string \<Rightarrow> nat list option" where
  "parseIPv4Fields s =
     (case map v4_octet (Split s CHR ''.'') of
        [Some a, Some b, Some c, Some d] \<Rightarrow> Some [a, b, c, d]
      | _ \<Rightarrow> None)"

definition hex_group :: "string \<Rightarrow> nat" where
  "hex_group g = foldl (\<lambda>n c. 16 * n + hex_val c) 0 g"

text \<open>
  The loop of \<^verbatim>\<open>netip.parseIPv6\<close>: the bytes so far, the position of the ellipsis, the rest of the
  text. It gives the same triple when it leaves the loop.
\<close>

function parse6_loop :: "nat list \<Rightarrow> nat option \<Rightarrow> string \<Rightarrow> (nat list \<times> nat option \<times> string) option" where
  "parse6_loop bs ell s =
     (if 16 \<le> length bs then Some (bs, ell, s)
      else
        let g = takeWhile is_hex s; r = dropWhile is_hex s;
            bs' = bs @ [hex_group g div 256, hex_group g mod 256]
        in if g = [] \<or> 4 < length g then None
           else if r = [] then Some (bs', ell, [])
           else if hd r = CHR ''.'' then
             (if ell = None \<and> length bs \<noteq> 12 then None
              else if 16 < length bs + 4 then None
              else (case parseIPv4Fields s of None \<Rightarrow> None | Some q \<Rightarrow> Some (bs @ q, ell, [])))
           else if hd r \<noteq> CHR '':'' \<or> tl r = [] then None
           else if hd (tl r) = CHR '':'' then
             (if ell \<noteq> None then None
              else if tl (tl r) = [] then Some (bs', Some (length bs'), [])
              else parse6_loop bs' (Some (length bs')) (tl (tl r)))
           else parse6_loop bs' ell (tl r))"
  by pat_completeness auto
termination
  by (relation "measure (\<lambda>(bs, ell, s). 16 - length bs)") auto

declare parse6_loop.simps [simp del]

definition parse6_finish :: "nat list \<times> nat option \<times> string \<Rightarrow> nat list option" where
  "parse6_finish = (\<lambda>(bs, ell, s).
     if s \<noteq> [] then None
     else if length bs < 16 then
       (case ell of None \<Rightarrow> None
        | Some e \<Rightarrow> Some (take e bs @ replicate (16 - length bs) 0 @ drop e bs))
     else if ell \<noteq> None then None else Some bs)"

definition parseIPv6 :: "string \<Rightarrow> ip option" where
  "parseIPv6 s =
     (case Cut s CHR ''%'' of (a, zone, found) \<Rightarrow>
        if found \<and> zone = [] then None
        else if HasPrefix a ''::'' then
          (if length a = 2 then Some (IP6 (replicate 16 0) zone)
           else map_option (\<lambda>b. IP6 b zone)
                  (Option.bind (parse6_loop [] (Some 0) (drop 2 a)) parse6_finish))
        else map_option (\<lambda>b. IP6 b zone) (Option.bind (parse6_loop [] None a) parse6_finish))"

definition ParseAddr :: "string \<Rightarrow> ip option" where
  "ParseAddr s =
     (case find (\<lambda>c. c = CHR ''.'' \<or> c = CHR '':'' \<or> c = CHR ''%'') s of
        None \<Rightarrow> None
      | Some c \<Rightarrow> if c = CHR ''.'' then map_option IP4 (parseIPv4Fields s)
                  else if c = CHR '':'' then parseIPv6 s
                  else None)"

definition zoned :: "ip \<Rightarrow> bool" where
  "zoned a = (case a of IP4 _ \<Rightarrow> False | IP6 _ z \<Rightarrow> z \<noteq> [])"

definition BitLen :: "ip \<Rightarrow> nat" where
  "BitLen a = (case a of IP4 _ \<Rightarrow> 32 | IP6 _ _ \<Rightarrow> 128)"

definition v4_mapped_prefix :: "nat list" where
  "v4_mapped_prefix = replicate 10 0 @ [255, 255]"

definition As16 :: "ip \<Rightarrow> nat list" where
  "As16 a = (case a of IP4 b \<Rightarrow> v4_mapped_prefix @ b | IP6 b _ \<Rightarrow> b)"

text \<open>\<^verbatim>\<open>net.ParseIP\<close> (\<open>None\<close> is \<^verbatim>\<open>nil\<close>), \<^verbatim>\<open>IP.To4\<close> and \<^verbatim>\<open>net.ParseCIDR\<close> with the mask's \<^verbatim>\<open>Size\<close>.\<close>

definition ParseIP :: "string \<Rightarrow> nat list option" where
  "ParseIP s = (case ParseAddr s of
     None \<Rightarrow> None
   | Some a \<Rightarrow> if zoned a then None else Some (As16 a))"

definition is_v4 :: "nat list \<Rightarrow> bool" where
  "is_v4 b \<longleftrightarrow> take 12 b = v4_mapped_prefix"

definition ParseCIDR :: "string \<Rightarrow> (nat list \<times> nat \<times> nat) option" where
  "ParseCIDR s =
     (case Cut s CHR ''/'' of (a, m, found) \<Rightarrow>
        if \<not> found then None
        else (case ParseAddr a of
                None \<Rightarrow> None
              | Some ad \<Rightarrow>
                  if zoned ad \<or> m = [] \<or> \<not> list_all is_digit m \<or> BitLen ad < digits_val m then None
                  else Some (As16 ad, digits_val m, BitLen ad)))"

text \<open>\<^verbatim>\<open>netip.ParsePrefix\<close>.\<close>

definition ParsePrefix :: "string \<Rightarrow> (ip \<times> nat) option" where
  "ParsePrefix s =
     (case LastIndexByte s CHR ''/'' of
        None \<Rightarrow> None
      | Some i \<Rightarrow>
          (case ParseAddr (take i s) of
             None \<Rightarrow> None
           | Some ad \<Rightarrow>
               let m = drop (Suc i) s
               in if zoned ad \<or> (1 < length m \<and> \<not> (CHR ''0'' \<noteq> hd m \<and> is_digit (hd m))) then None
                  else (case Atoi m of
                          None \<Rightarrow> None
                        | Some n \<Rightarrow> if n < 0 \<or> int (BitLen ad) < n then None else Some (ad, nat n))))"

section \<open>Host and port\<close>

definition SplitHostPort :: "string \<Rightarrow> (string \<times> string) option" where
  "SplitHostPort hp =
     (case LastIndexByte hp CHR '':'' of
        None \<Rightarrow> None
      | Some i \<Rightarrow>
          let port = drop (Suc i) hp
          in if hd hp = CHR ''['' then
               (case IndexByte hp CHR '']'' of
                  None \<Rightarrow> None
                | Some e \<Rightarrow>
                    if Suc e = length hp \<or> Suc e \<noteq> i then None
                    else if CHR ''['' \<in> set (drop 1 hp) \<or> CHR '']'' \<in> set (drop (Suc e) hp) then None
                    else Some (drop 1 (take e hp), port))
             else if CHR '':'' \<in> set (take i hp) \<or> CHR ''['' \<in> set hp \<or> CHR '']'' \<in> set hp then None
             else Some (take i hp, port))"

definition JoinHostPort :: "string \<Rightarrow> string \<Rightarrow> string" where
  "JoinHostPort host port =
     (if CHR '':'' \<in> set host then ''['' @ host @ '']:'' @ port else host @ '':'' @ port)"

section \<open>Lemmas\<close>

lemma v4_octet_range: "v4_octet p = Some n \<Longrightarrow> n < 256"
  by (auto simp: v4_octet_def split: if_splits)

lemma parseIPv4Fields_range:
  assumes "parseIPv4Fields s = Some b"
  shows "length b = 4 \<and> (\<forall>x \<in> set b. x < 256)"
proof -
  obtain p q r t where m: "map v4_octet (Split s CHR ''.'') = [Some p, Some q, Some r, Some t]"
    and b: "b = [p, q, r, t]"
    using assms by (auto simp: parseIPv4Fields_def split: list.splits option.splits)
  from m have "\<forall>x \<in> {p, q, r, t}. Some x \<in> set (map v4_octet (Split s CHR ''.''))"
    by auto
  then have "\<forall>x \<in> {p, q, r, t}. x < 256"
    by (fastforce dest!: v4_octet_range [OF sym])
  with b show ?thesis by auto
qed

lemma LastIndexByte_append:
  "c \<notin> set t \<Longrightarrow> LastIndexByte (s @ c # t) c = Some (length s)"
  by (simp add: LastIndexByte_def)

text \<open>
  Joining a host and a port and splitting the result gives them back, for a port without a colon or a
  bracket and a host without brackets.
\<close>

lemma SplitHostPort_JoinHostPort:
  assumes "set port \<inter> {CHR '':'', CHR ''['', CHR '']''} = {}"
    and "set host \<inter> {CHR ''['', CHR '']''} = {}"
  shows "SplitHostPort (JoinHostPort host port) = Some (host, port)"
proof (cases "CHR '':'' \<in> set host")
  case True
  let ?hp = "''['' @ host @ '']:'' @ port"
  have l: "LastIndexByte ?hp CHR '':'' = Some (length host + 2)"
    using LastIndexByte_append [of "CHR '':''" port "''['' @ host @ '']''"] assms by simp
  have e: "IndexByte ?hp CHR '']'' = Some (Suc (length host))"
    using assms(2) by simp
  show ?thesis
    using True assms l e unfolding JoinHostPort_def SplitHostPort_def
    by (simp del: IndexByte.simps)
next
  case False
  have l: "LastIndexByte (host @ '':'' @ port) CHR '':'' = Some (length host)"
    using LastIndexByte_append [of "CHR '':''" port host] assms by simp
  have h: "hd (host @ '':'' @ port) \<noteq> CHR ''[''"
    using assms(2) by (cases host) auto
  show ?thesis
    using False assms h l unfolding JoinHostPort_def SplitHostPort_def by simp
qed

end
