(* ===== verification/Go_Netip.thy ===== *)
theory Go_Netip
  imports Go_Net
begin

text \<open>
  Prefixes of \<^verbatim>\<open>net/netip\<close>: masking, membership, overlap, and the text of an address. A prefix is an address
  and a number of bits; bit \<open>i\<close> of an address counts from the most significant one.
\<close>

unbundle bit_operations_syntax

definition bit_at :: "nat list \<Rightarrow> nat \<Rightarrow> bool" where
  "bit_at b i = bit (b ! (i div 8)) (7 - i mod 8)"

definition mask_byte :: "nat \<Rightarrow> nat \<Rightarrow> nat" where
  "mask_byte keep n = (if 8 \<le> keep then n else push_bit (8 - keep) (drop_bit (8 - keep) n))"

definition masked :: "nat list \<Rightarrow> nat \<Rightarrow> nat list" where
  "masked b bits = map (\<lambda>i. mask_byte (bits - 8 * i) (b ! i)) [0..<length b]"

definition in_prefix :: "nat list \<Rightarrow> nat \<Rightarrow> nat list \<Rightarrow> bool" where
  "in_prefix p bits a \<longleftrightarrow> length a = length p \<and> (\<forall>i < bits. bit_at a i = bit_at p i)"

definition Overlaps :: "nat list \<times> nat \<Rightarrow> nat list \<times> nat \<Rightarrow> bool" where
  "Overlaps p q \<longleftrightarrow> length (fst p) = length (fst q) \<and>
     masked (fst p) (min (snd p) (snd q)) = masked (fst q) (min (snd p) (snd q))"

fun hex_digit :: "nat \<Rightarrow> char" where
  "hex_digit n = (if n < 10 then char_of (48 + n) else char_of (87 + n))"

fun hex_digits :: "nat \<Rightarrow> string" where
  "hex_digits n = (if n < 16 then [hex_digit n] else hex_digits (n div 16) @ [hex_digit (n mod 16)])"

declare hex_digits.simps [simp del]

definition v6_groups :: "nat list \<Rightarrow> nat list" where
  "v6_groups b = map (\<lambda>i. 256 * (b ! (2 * i)) + b ! (2 * i + 1)) [0..<8]"

definition zero_run :: "nat list \<Rightarrow> nat \<Rightarrow> nat" where
  "zero_run g i = length (takeWhile (\<lambda>x. x = 0) (drop i g))"

text \<open>The first longest run of at least two zero groups is written as an ellipsis.\<close>

definition best_run :: "nat list \<Rightarrow> (nat \<times> nat) option" where
  "best_run g = foldl (\<lambda>best i.
     if zero_run g i > (case best of None \<Rightarrow> 1 | Some (_, l) \<Rightarrow> l) then Some (i, zero_run g i) else best)
     None [0..<length g]"

definition Addr_String :: "nat list \<Rightarrow> string" where
  "Addr_String b =
     (if length b = 4 then Join (map nat_digits b) ''.''
      else if take 12 b = v4_mapped_prefix then ''::ffff:'' @ Join (map nat_digits (drop 12 b)) ''.''
      else let g = v6_groups b in
        case best_run g of
          None \<Rightarrow> Join (map hex_digits g) '':''
        | Some (i, l) \<Rightarrow> Join (map hex_digits (take i g)) '':'' @ ''::'' @ Join (map hex_digits (drop (i + l) g)) '':'')"

definition Prefix_String :: "nat list \<times> nat \<Rightarrow> string" where
  "Prefix_String p = Addr_String (fst p) @ ''/'' @ nat_digits (snd p)"

section \<open>Bits\<close>

lemma length_masked [simp]: "length (masked b bits) = length b"
  by (simp add: masked_def)

lemma bit_mask_byte: "8 - keep \<le> j \<Longrightarrow> bit (mask_byte keep n) j = bit n j"
  by (simp add: mask_byte_def bit_push_bit_iff bit_drop_bit_eq)

lemma bit_at_masked:
  assumes "i < 8 * length b" "i < bits"
  shows "bit_at (masked b bits) i = bit_at b i"
proof -
  define k r where "k = i div 8" and "r = i mod 8"
  have i: "i = 8 * k + r" and r: "r < 8" by (simp_all add: k_def r_def)
  have lt: "k < length b" using assms(1) i by simp
  have "8 - (bits - 8 * k) \<le> 7 - r"
    using assms(2) i r by linarith
  then show ?thesis
    using lt unfolding bit_at_def k_def [symmetric] r_def [symmetric]
    by (simp add: masked_def bit_mask_byte)
qed

text \<open>\<^verbatim>\<open>siblingOf\<close> flips one bit: exclusive or with \<^verbatim>\<open>0x80 >> (bit % 8)\<close>.\<close>

definition flip_at :: "nat list \<Rightarrow> nat \<Rightarrow> nat list" where
  "flip_at b i = b[i div 8 := (b ! (i div 8)) XOR drop_bit (i mod 8) 128]"

lemma length_flip_at [simp]: "length (flip_at b i) = length b"
  by (simp add: flip_at_def)

lemma bit_drop_128: "r < 8 \<Longrightarrow> bit (drop_bit r (128 :: nat)) j \<longleftrightarrow> j = 7 - r"
proof -
  assume "r < 8"
  have "bit (128 :: nat) n \<longleftrightarrow> n = 7" for n
    using bit_exp_iff [of 7 n, where ?'a = nat] by simp
  then have "bit (drop_bit r (128 :: nat)) j \<longleftrightarrow> r + j = 7"
    by (simp only: bit_drop_bit_eq comp_def)
  with \<open>r < 8\<close> show ?thesis by linarith
qed

lemma bit_at_flip:
  assumes "i < 8 * length b" "j < 8 * length b"
  shows "bit_at (flip_at b i) j = (bit_at b j \<noteq> (j = i))"
proof (cases "j div 8 = i div 8")
  case True
  have same: "7 - j mod 8 = 7 - i mod 8 \<longleftrightarrow> j = i"
  proof
    assume "7 - j mod 8 = 7 - i mod 8"
    moreover have "j mod 8 < 8" "i mod 8 < 8" by simp_all
    ultimately have "j mod 8 = i mod 8" by linarith
    with True show "j = i" by (metis div_mult_mod_eq)
  qed simp
  have "i div 8 < length b" using assms(1) by simp
  then show ?thesis
    using True same by (auto simp: bit_at_def flip_at_def bit_xor_iff bit_drop_128)
next
  case False
  then have "j \<noteq> i" by auto
  with False show ?thesis by (simp add: bit_at_def flip_at_def)
qed

end
