(* ===== verification/Routing.thy ===== *)
theory Routing
  imports Go_Net
begin

text \<open>
  The engine-neutral routing intent, \<^verbatim>\<open>src/internal/routing/routing.go\<close>: how an entry of a rule list is
  classified and validated, how a tier's three lists become one list of entries in evaluation order, and
  how that list becomes first-match steps.

  Which flows an entry matches is the engines' business (their geo lists, their domain tries), so a
  matcher is a parameter \<open>m\<close>: the set of entries that match the flow at hand. The tier's meaning is
  stated for every \<open>m\<close>.
\<close>

section \<open>Data\<close>

datatype Target = TargetProxy | TargetDirect | TargetBlock

datatype MatchKind =
    KindDomainSuffix | KindDomainFull | KindDomainKeyword | KindDomainRegex
  | KindGeoSite | KindGeoIP | KindIPCIDR | KindProcess

record Tier =
  Block :: "string list"
  Direct :: "string list"
  Proxy :: "string list"

record Profile =
  Mode :: string
  Tiers :: "Tier list"
  DomainStrategy :: string
  LocalNetworks :: bool
  DirectSendThrough :: string
  DirectInterface :: string
  DisableIPv6 :: bool
  DisableUDP :: bool

record Entry =
  Kind :: MatchKind
  Value :: string
  ETarget :: Target

datatype plane = planeName | planeAddress | planeApp

record Step =
  Entries :: "Entry list"
  Also :: "Entry list"
  STarget :: Target

definition ModeProxyAll :: string where "ModeProxyAll = ''proxy-all''"
definition ModeDirectAll :: string where "ModeDirectAll = ''direct-all''"

definition LocalNetworkCIDRs :: "string list" where
  "LocalNetworkCIDRs =
     [''10.0.0.0/8'', ''172.16.0.0/12'', ''192.168.0.0/16'', ''100.64.0.0/10'',
      ''169.254.0.0/16'', ''127.0.0.0/8'', ''fc00::/7'', ''fe80::/10'', ''::1/128'']"

section \<open>Classification\<close>

definition isIPOrCIDR :: "string \<Rightarrow> bool" where
  "isIPOrCIDR s = (if CHR ''/'' \<in> set s then ParseCIDR s \<noteq> None else ParseIP s \<noteq> None)"

definition NormalizeCIDR :: "string \<Rightarrow> string" where
  "NormalizeCIDR ipOrCIDR =
     (let s = TrimSpace ipOrCIDR
      in if CHR ''/'' \<in> set s then s
         else (case ParseIP s of
                 None \<Rightarrow> s
               | Some ip \<Rightarrow> if is_v4 ip then s @ ''/32'' else s @ ''/128''))"

definition domainEntry :: "MatchKind \<Rightarrow> string \<Rightarrow> (MatchKind \<times> string) option" where
  "domainEntry kind val = (let v = Trim val ''.'' in if v = [] then None else Some (kind, v))"

definition Classify :: "string \<Rightarrow> (MatchKind \<times> string) option" where
  "Classify entry =
     (let e = TrimSpace entry
      in if e = [] then None
         else if isIPOrCIDR e then Some (KindIPCIDR, e)
         else (case IndexByte e CHR '':'' of
                 None \<Rightarrow> domainEntry KindDomainSuffix e
               | Some i \<Rightarrow>
                   if i = 0 then domainEntry KindDomainSuffix e
                   else
                     let val = TrimSpace (drop (Suc i) e); p = ToLower (take i e)
                     in if val = [] then None
                        else if p = ''geoip'' then Some (KindGeoIP, ToLower val)
                        else if p = ''geosite'' then Some (KindGeoSite, ToLower val)
                        else if p = ''domain'' then domainEntry KindDomainSuffix val
                        else if p = ''full'' then domainEntry KindDomainFull val
                        else if p = ''keyword'' then Some (KindDomainKeyword, val)
                        else if p = ''regexp'' \<or> p = ''regex'' then Some (KindDomainRegex, val)
                        else if p = ''process'' then Some (KindProcess, val)
                        else domainEntry KindDomainSuffix e))"

section \<open>Evaluation order\<close>

definition ByAddress :: "Entry \<Rightarrow> bool" where
  "ByAddress e \<longleftrightarrow> Kind e = KindIPCIDR \<or> Kind e = KindGeoIP"

definition entry_plane :: "Entry \<Rightarrow> plane" where
  "entry_plane e = (if Kind e = KindProcess then planeApp
                    else if ByAddress e then planeAddress else planeName)"

definition hostBits :: "string \<Rightarrow> int" where
  "hostBits s = (case ParseCIDR (NormalizeCIDR s) of
     None \<Rightarrow> 0
   | Some (_, ones, bits) \<Rightarrow> int bits - int ones)"

type_synonym key = "int \<times> int \<times> int \<times> int"

definition outcome_rank :: "Target \<Rightarrow> int" where
  "outcome_rank t = (case t of TargetBlock \<Rightarrow> 0 | TargetDirect \<Rightarrow> 1 | TargetProxy \<Rightarrow> 2)"

definition evaluationKey :: "Entry \<Rightarrow> key" where
  "evaluationKey e =
     (let outcome = outcome_rank (ETarget e)
      in case Kind e of
           KindProcess \<Rightarrow> if ETarget e = TargetBlock then (0, 0, 0, outcome) else (2, 0, 0, outcome)
         | KindDomainFull \<Rightarrow> (1, 0, 0, outcome)
         | KindDomainSuffix \<Rightarrow> (1, 1, - int (count_list (Value e) CHR ''.''), outcome)
         | KindIPCIDR \<Rightarrow> (1, 2, hostBits (Value e), outcome)
         | KindDomainKeyword \<Rightarrow> (1, 3, 0, outcome)
         | KindDomainRegex \<Rightarrow> (1, 3, 0, outcome)
         | KindGeoSite \<Rightarrow> (1, 4, 0, outcome)
         | KindGeoIP \<Rightarrow> (1, 4, 0, outcome))"

definition classified :: "string list \<Rightarrow> Target \<Rightarrow> Entry list" where
  "classified matchers target =
     List.map_filter
       (\<lambda>s. map_option (\<lambda>(k, v). \<lparr>Kind = k, Value = v, ETarget = target\<rparr>) (Classify s)) matchers"

text \<open>\<^verbatim>\<open>Tier.Entries\<close>; \<open>sort_key\<close> is stable, as \<^verbatim>\<open>slices.SortStableFunc\<close> is.\<close>

definition tier_Entries :: "Tier \<Rightarrow> Entry list" where
  "tier_Entries t = sort_key evaluationKey
     (classified (Block t) TargetBlock @ classified (Direct t) TargetDirect
      @ classified (Proxy t) TargetProxy)"

section \<open>Steps\<close>

text \<open>
  The inner loop of \<^verbatim>\<open>guardSteps\<close>: an entry joins the last step when the outcome is the same and opens a
  new step otherwise.
\<close>

fun guard_loop :: "Entry list \<Rightarrow> Target \<Rightarrow> Step list \<Rightarrow> Entry list \<Rightarrow> Step list" where
  "guard_loop run target steps [] = steps"
| "guard_loop run target steps (e # es) =
     (let outcome = (if ETarget e = TargetBlock then TargetBlock else target)
      in if steps \<noteq> [] \<and> STarget (last steps) = outcome
         then guard_loop run target (butlast steps @ [(last steps)\<lparr>Also := Also (last steps) @ [e]\<rparr>]) es
         else guard_loop run target
                (steps @ [\<lparr>Entries = run, Also = [e], STarget = outcome\<rparr>]) es)"

text \<open>The entries up to and with the last block: \<^verbatim>\<open>otherPlane[:last+1]\<close>, empty when there is none.\<close>

definition upto_last_block :: "Entry list \<Rightarrow> Entry list" where
  "upto_last_block es = rev (dropWhile (\<lambda>e. ETarget e \<noteq> TargetBlock) (rev es))"

definition guardSteps :: "Entry list \<Rightarrow> Target \<Rightarrow> Entry list \<Rightarrow> Step list" where
  "guardSteps run target otherPlane = guard_loop run target [] (upto_last_block otherPlane)"

fun other_plane :: "plane \<Rightarrow> plane option" where
  "other_plane planeName = Some planeAddress"
| "other_plane planeAddress = Some planeName"
| "other_plane planeApp = None"

definition same_run :: "Entry \<Rightarrow> Entry \<Rightarrow> bool" where
  "same_run a b \<longleftrightarrow> entry_plane b = entry_plane a \<and> ETarget b = ETarget a"

text \<open>The outer loop of \<^verbatim>\<open>Steps\<close> over the remaining entries; \<open>all\<close> is the whole list \<^verbatim>\<open>byPlane\<close> indexes.\<close>

function steps_loop :: "Entry list \<Rightarrow> Entry list \<Rightarrow> Step list" where
  "steps_loop all [] = []"
| "steps_loop all (e # es) =
     (let run = e # takeWhile (same_run e) es;
          rest = dropWhile (same_run e) es;
          target = ETarget e;
          guard = (case other_plane (entry_plane e) of
                     None \<Rightarrow> []
                   | Some p \<Rightarrow> if target = TargetBlock then []
                               else guardSteps run target (filter (\<lambda>x. entry_plane x = p) all))
      in guard @ [\<lparr>Entries = run, Also = [], STarget = target\<rparr>] @ steps_loop all rest)"
  by pat_completeness auto
termination
  by (relation "measure (\<lambda>(all, es). length es)") (auto simp: le_imp_less_Suc length_dropWhile_le)

declare steps_loop.simps(2) [simp del]

definition tier_Steps :: "Tier \<Rightarrow> Step list" where
  "tier_Steps t = (let entries = tier_Entries t in steps_loop entries entries)"

section \<open>Profile queries\<close>

definition ResolvedMode :: "Profile \<Rightarrow> string" where
  "ResolvedMode p = (if Mode p = ModeDirectAll then ModeDirectAll else ModeProxyAll)"

definition HasDirect :: "Profile \<Rightarrow> bool" where
  "HasDirect p \<longleftrightarrow> (\<exists>t \<in> set (Tiers p). Direct t \<noteq> [])"

definition HasBlock :: "Profile \<Rightarrow> bool" where
  "HasBlock p \<longleftrightarrow> (\<exists>t \<in> set (Tiers p). Block t \<noteq> [])"

text \<open>
  \<^verbatim>\<open>ProcessRules\<close>: the map the per-process dialer reads. Later writes win, so the three passes give block
  priority over direct over proxy.
\<close>

fun add_rules :: "Target \<Rightarrow> string list \<Rightarrow> (string \<rightharpoonup> Target) \<Rightarrow> (string \<rightharpoonup> Target)" where
  "add_rules target [] out = out"
| "add_rules target (m # ms) out =
     add_rules target ms
       (case Classify m of
          Some (KindProcess, val) \<Rightarrow> out(ToLower (TrimSpace val) \<mapsto> target)
        | _ \<Rightarrow> out)"

definition ProcessRules :: "Profile \<Rightarrow> (string \<rightharpoonup> Target)" where
  "ProcessRules p =
     fold (\<lambda>t. add_rules TargetBlock (Block t)) (Tiers p)
       (fold (\<lambda>t. add_rules TargetDirect (Direct t)) (Tiers p)
         (fold (\<lambda>t. add_rules TargetProxy (Proxy t)) (Tiers p) Map.empty))"

section \<open>Validation\<close>

datatype matcher_error =
    DomainComma | UnpairedParentheses | KeywordPrefix string | BadGeoSite | BadGeoIP | RegexComma

fun paren_scan :: "nat \<Rightarrow> string \<Rightarrow> bool" where
  "paren_scan depth [] = (depth = 0)"
| "paren_scan depth (c # cs) =
     (if c = CHR ''('' then paren_scan (Suc depth) cs
      else if c = CHR '')'' then (if depth = 0 then False else paren_scan (depth - 1) cs)
      else paren_scan depth cs)"

definition parenthesesPair :: "string \<Rightarrow> bool" where
  "parenthesesPair s = paren_scan 0 s"

definition xrayMatcherPrefixes :: "string list" where
  "xrayMatcherPrefixes =
     [''regexp:'', ''domain:'', ''full:'', ''keyword:'', ''dotless:'',
      ''geosite:'', ''ext:'', ''ext-domain:'', ''ext-site:'']"

definition ValidKeyword :: "string \<Rightarrow> matcher_error option" where
  "ValidKeyword val = map_option KeywordPrefix (find (HasPrefix val) xrayMatcherPrefixes)"

definition validGeoChars :: "string \<Rightarrow> string \<Rightarrow> bool" where
  "validGeoChars s extra \<longleftrightarrow>
     (\<forall>r \<in> set s. is_lower r \<or> is_upper r \<or> is_digit r \<or> r = CHR ''-'' \<or> r = CHR ''_'' \<or> r \<in> set extra)"

definition ValidGeoCode :: "string \<Rightarrow> bool" where
  "ValidGeoCode code0 =
     (let code = TrimSpace code0
      in if code = [] \<or> HasPrefix code ''!'' then False
         else (\<forall>seg \<in> set (Split code CHR ''@''). seg \<noteq> [] \<and> validGeoChars seg ''!''))"

definition ValidGeoIPCode :: "string \<Rightarrow> bool" where
  "ValidGeoIPCode code0 =
     (let code = TrimPrefix (TrimSpace code0) ''!'' in code \<noteq> [] \<and> validGeoChars code [])"

definition validateMatcher :: "string \<Rightarrow> matcher_error option" where
  "validateMatcher m =
     (case Classify m of
        None \<Rightarrow> None
      | Some (kind, val) \<Rightarrow>
          if kind \<in> {KindDomainSuffix, KindDomainFull, KindDomainKeyword} then
            if CHR '','' \<in> set val then Some DomainComma
            else if \<not> parenthesesPair val then Some UnpairedParentheses
            else if kind = KindDomainKeyword then ValidKeyword val
            else None
          else if kind = KindGeoSite then (if ValidGeoCode val then None else Some BadGeoSite)
          else if kind = KindGeoIP then (if ValidGeoIPCode val then None else Some BadGeoIP)
          else if kind = KindDomainRegex then
            if Contains val '' ,'' \<or> Contains val '', '' then Some RegexComma
            else if \<not> parenthesesPair val then Some UnpairedParentheses
            else None
          else None)"

text \<open>\<^verbatim>\<open>Profile.Validate\<close>: the tier number from 1, the entry as written, and what is wrong with it.\<close>

fun validate_tiers :: "nat \<Rightarrow> Tier list \<Rightarrow> (nat \<times> string \<times> matcher_error) option" where
  "validate_tiers i [] = None"
| "validate_tiers i (t # ts) =
     (case find (\<lambda>m. validateMatcher m \<noteq> None) (Block t @ Direct t @ Proxy t) of
        Some m \<Rightarrow> Some (Suc i, m, the (validateMatcher m))
      | None \<Rightarrow> validate_tiers (Suc i) ts)"

definition Profile_Validate :: "Profile \<Rightarrow> (nat \<times> string \<times> matcher_error) option" where
  "Profile_Validate p = validate_tiers 0 (Tiers p)"

section \<open>What a tier decides\<close>

text \<open>A flow matches a step when it matches one of its entries and, when \<^verbatim>\<open>Also\<close> is set, one of those.\<close>

definition step_matches :: "(Entry \<Rightarrow> bool) \<Rightarrow> Step \<Rightarrow> bool" where
  "step_matches m s \<longleftrightarrow>
     (\<exists>e \<in> set (Entries s). m e) \<and> (Also s = [] \<or> (\<exists>e \<in> set (Also s). m e))"

definition steps_outcome :: "(Entry \<Rightarrow> bool) \<Rightarrow> Step list \<Rightarrow> Target option" where
  "steps_outcome m = first_match (step_matches m) STarget"

text \<open>
  What the comment on \<^verbatim>\<open>Steps\<close> promises, on the entries alone: the first entry that matches decides, but
  between the planes a block wins, and inside a plane the first match of that plane does.
\<close>

definition first_of_plane :: "(Entry \<Rightarrow> bool) \<Rightarrow> plane \<Rightarrow> Entry list \<Rightarrow> Entry option" where
  "first_of_plane m p es = find (\<lambda>e. m e \<and> entry_plane e = p) es"

definition blocked_by_plane :: "(Entry \<Rightarrow> bool) \<Rightarrow> plane \<Rightarrow> Entry list \<Rightarrow> bool" where
  "blocked_by_plane m p es =
     (case first_of_plane m p es of None \<Rightarrow> False | Some b \<Rightarrow> ETarget b = TargetBlock)"

definition guarded_target :: "(Entry \<Rightarrow> bool) \<Rightarrow> Entry list \<Rightarrow> Entry \<Rightarrow> Target" where
  "guarded_target m es e =
     (case other_plane (entry_plane e) of
        None \<Rightarrow> ETarget e
      | Some p \<Rightarrow> if blocked_by_plane m p es then TargetBlock else ETarget e)"

definition tier_outcome :: "(Entry \<Rightarrow> bool) \<Rightarrow> Entry list \<Rightarrow> Target option" where
  "tier_outcome m es = map_option (guarded_target m es) (find m es)"

lemma steps_outcome_Nil [simp]: "steps_outcome m [] = None"
  by (simp add: steps_outcome_def)

lemma steps_outcome_Cons [simp]:
  "steps_outcome m (s # ss) = (if step_matches m s then Some (STarget s) else steps_outcome m ss)"
  by (simp add: steps_outcome_def)

lemma steps_outcome_append [simp]:
  "steps_outcome m (ss @ ts) = or_else (steps_outcome m ss) (steps_outcome m ts)"
  by (simp add: steps_outcome_def)

definition guard_step_ok :: "Entry list \<Rightarrow> Step \<Rightarrow> bool" where
  "guard_step_ok run s \<longleftrightarrow> Entries s = run \<and> Also s \<noteq> []"

definition guard_target :: "Target \<Rightarrow> Entry \<Rightarrow> Target" where
  "guard_target target e = (if ETarget e = TargetBlock then TargetBlock else target)"

lemma extend_last_outcome:
  assumes "steps \<noteq> []" "list_all (guard_step_ok run) steps" "STarget (last steps) = t"
  shows "steps_outcome m (butlast steps @ [(last steps)\<lparr>Also := Also (last steps) @ [e]\<rparr>]) =
         or_else (steps_outcome m steps)
           (if (\<exists>x \<in> set run. m x) \<and> m e then Some t else None)"
proof -
  obtain ss s where steps: "steps = ss @ [s]"
    using assms(1) by (metis rev_exhaust)
  show ?thesis
    using assms(2,3) by (auto simp: steps step_matches_def guard_step_ok_def)
qed

lemma guard_loop_outcome:
  assumes "list_all (guard_step_ok run) steps"
  shows "steps_outcome m (guard_loop run target steps es) =
         or_else (steps_outcome m steps)
           (if \<exists>x \<in> set run. m x then map_option (guard_target target) (find m es) else None)"
  using assms
proof (induction es arbitrary: steps)
  case Nil
  then show ?case by simp
next
  case (Cons e es)
  show ?case
  proof (cases "steps \<noteq> [] \<and> STarget (last steps) = guard_target target e")
    case True
    let ?steps = "butlast steps @ [(last steps)\<lparr>Also := Also (last steps) @ [e]\<rparr>]"
    have ok: "list_all (guard_step_ok run) ?steps"
      using Cons.prems True
      by (auto simp: list_all_iff guard_step_ok_def dest: in_set_butlastD)
    have unfold: "guard_loop run target steps (e # es) = guard_loop run target ?steps es"
      using True by (simp add: guard_target_def Let_def)
    have ext: "steps_outcome m ?steps = or_else (steps_outcome m steps)
        (if (\<exists>x \<in> set run. m x) \<and> m e then Some (guard_target target e) else None)"
      using True Cons.prems by (intro extend_last_outcome) auto
    show ?thesis
      unfolding unfold Cons.IH [OF ok] ext by auto
  next
    case False
    let ?steps = "steps @ [\<lparr>Entries = run, Also = [e], STarget = guard_target target e\<rparr>]"
    have ok: "list_all (guard_step_ok run) ?steps"
      using Cons.prems by (simp add: list_all_iff guard_step_ok_def)
    have unfold: "guard_loop run target steps (e # es) = guard_loop run target ?steps es"
      using False by (auto simp: guard_target_def Let_def)
    show ?thesis
      unfolding unfold Cons.IH [OF ok] by (auto simp: step_matches_def)
  qed
qed

lemma upto_last_block_split:
  "\<exists>zs. es = upto_last_block es @ zs \<and> (\<forall>z \<in> set zs. ETarget z \<noteq> TargetBlock)"
proof -
  let ?P = "\<lambda>e. ETarget e \<noteq> TargetBlock"
  have "es = upto_last_block es @ rev (takeWhile ?P (rev es))"
    unfolding upto_last_block_def by (metis rev_append rev_rev_ident takeWhile_dropWhile_id)
  moreover have "\<forall>z \<in> set (rev (takeWhile ?P (rev es))). ?P z"
    by (auto dest: set_takeWhileD)
  ultimately show ?thesis by blast
qed

text \<open>A run with its guard: the run's outcome, unless the other plane's first match is a block.\<close>

lemma guarded_run_outcome:
  "steps_outcome m (guardSteps run t os @ [\<lparr>Entries = run, Also = [], STarget = t\<rparr>]) =
   (if \<exists>x \<in> set run. m x
    then Some (case find m os of None \<Rightarrow> t | Some b \<Rightarrow> guard_target t b)
    else None)"
proof -
  obtain zs where os: "os = upto_last_block os @ zs" and zs: "\<forall>z \<in> set zs. ETarget z \<noteq> TargetBlock"
    using upto_last_block_split by blast
  have "find m os = (case find m (upto_last_block os) of None \<Rightarrow> find m zs | Some x \<Rightarrow> Some x)"
    by (subst os) (rule find_append)
  then show ?thesis
    using zs
    by (auto simp: guardSteps_def guard_loop_outcome step_matches_def guard_target_def
        split: option.splits dest!: find_SomeD)
qed

lemma guarded_target_same:
  "entry_plane x = entry_plane e \<Longrightarrow> ETarget x = ETarget e \<Longrightarrow> guarded_target m es x = guarded_target m es e"
  by (simp add: guarded_target_def split: option.split)

text \<open>One turn of the outer loop: the run at the head of the list with the steps before it.\<close>

definition run_steps :: "Entry list \<Rightarrow> Entry \<Rightarrow> Entry list \<Rightarrow> Step list" where
  "run_steps all e run =
     (case other_plane (entry_plane e) of
        None \<Rightarrow> []
      | Some p \<Rightarrow> if ETarget e = TargetBlock then []
                  else guardSteps run (ETarget e) (filter (\<lambda>x. entry_plane x = p) all))
     @ [\<lparr>Entries = run, Also = [], STarget = ETarget e\<rparr>]"

lemma run_steps_outcome:
  "steps_outcome m (run_steps all e run) =
   (if \<exists>x \<in> set run. m x then Some (guarded_target m all e) else None)"
proof (cases "other_plane (entry_plane e)")
  case None
  then show ?thesis
    by (simp add: run_steps_def guarded_target_def step_matches_def)
next
  case (Some p)
  let ?os = "filter (\<lambda>x. entry_plane x = p) all"
  have find: "find m ?os = first_of_plane m p all"
    by (simp add: find_filter first_of_plane_def)
  show ?thesis
  proof (cases "ETarget e = TargetBlock")
    case True
    then show ?thesis
      by (simp add: run_steps_def Some guarded_target_def step_matches_def)
  next
    case False
    then have "run_steps all e run =
        guardSteps run (ETarget e) ?os @ [\<lparr>Entries = run, Also = [], STarget = ETarget e\<rparr>]"
      by (simp add: run_steps_def Some)
    then show ?thesis
      by (simp only: guarded_run_outcome find)
        (simp add: guarded_target_def Some blocked_by_plane_def guard_target_def split: option.split)
  qed
qed

lemma find_run:
  assumes "run = e # takeWhile (same_run e) es"
  shows "map_option (guarded_target m all) (find m (e # es)) =
         (if \<exists>x \<in> set run. m x then Some (guarded_target m all e)
          else map_option (guarded_target m all) (find m (dropWhile (same_run e) es)))"
proof -
  have split: "e # es = run @ dropWhile (same_run e) es"
    by (simp add: assms)
  have same: "guarded_target m all x = guarded_target m all e" if "x \<in> set run" for x
    using that by (auto simp: assms same_run_def intro: guarded_target_same dest!: set_takeWhileD)
  show ?thesis
  proof (cases "find m run")
    case None
    then have "\<forall>x \<in> set run. \<not> m x"
      by (auto simp: find_None_iff)
    then show ?thesis
      unfolding split find_append using None by simp
  next
    case (Some x)
    then have "x \<in> set run" "m x"
      by (auto dest: find_SomeD)
    then show ?thesis
      unfolding split find_append using same Some by auto
  qed
qed

lemma steps_loop_outcome:
  "steps_outcome m (steps_loop all es) = map_option (guarded_target m all) (find m es)"
proof (induction all es rule: steps_loop.induct)
  case (1 all)
  then show ?case by simp
next
  case (2 all e es)
  let ?run = "e # takeWhile (same_run e) es"
  have "steps_loop all (e # es) =
        run_steps all e ?run @ steps_loop all (dropWhile (same_run e) es)"
    by (simp add: steps_loop.simps(2) run_steps_def Let_def split: option.split)
  then show ?case
    using 2 [OF refl refl refl refl]
    by (simp only: steps_outcome_append run_steps_outcome find_run [OF refl]) simp
qed

lemma tier_Steps_outcome: "steps_outcome m (tier_Steps t) = tier_outcome m (tier_Entries t)"
  by (simp add: tier_Steps_def tier_outcome_def steps_loop_outcome Let_def)

text \<open>
  C1. The first-match steps a tier is turned into decide every flow as the tier's contract says: the first
  matching entry in evaluation order gives the outcome, except that a direct or proxy outcome of one
  plane (names or addresses) yields to a block when the first matching entry of the other plane is a block.
\<close>

theorem Steps_refine_tier_outcome:
  "steps_outcome m (tier_Steps t) = tier_outcome m (tier_Entries t)"
  by (rule tier_Steps_outcome)

section \<open>The shape of the steps\<close>

lemma guard_loop_steps:
  assumes "\<forall>s \<in> set steps. guard_step_ok run s \<and> set (Also s) \<subseteq> A" "set es \<subseteq> A"
  shows "\<forall>s \<in> set (guard_loop run target steps es). guard_step_ok run s \<and> set (Also s) \<subseteq> A"
  using assms
proof (induction es arbitrary: steps)
  case Nil
  then show ?case by simp
next
  case (Cons e es)
  let ?new = "steps @ [\<lparr>Entries = run, Also = [e], STarget = guard_target target e\<rparr>]"
  let ?ext = "butlast steps @ [(last steps)\<lparr>Also := Also (last steps) @ [e]\<rparr>]"
  have A: "e \<in> A" "set es \<subseteq> A" using Cons.prems(2) by auto
  show ?case
  proof (cases "steps \<noteq> [] \<and> STarget (last steps) = guard_target target e")
    case True
    then have eq: "guard_loop run target steps (e # es) = guard_loop run target ?ext es"
      by (simp add: guard_target_def Let_def)
    have "\<forall>s \<in> set (butlast steps). guard_step_ok run s \<and> set (Also s) \<subseteq> A"
      using Cons.prems(1) in_set_butlastD by metis
    moreover have "guard_step_ok run (last steps)" "set (Also (last steps)) \<subseteq> A"
      using Cons.prems(1) True by simp_all
    ultimately have ok: "\<forall>s \<in> set ?ext. guard_step_ok run s \<and> set (Also s) \<subseteq> A"
      using A(1) by (simp add: guard_step_ok_def)
    show ?thesis
      unfolding eq by (rule Cons.IH [OF ok A(2)])
  next
    case False
    then have eq: "guard_loop run target steps (e # es) = guard_loop run target ?new es"
      by (auto simp: guard_target_def Let_def)
    have ok: "\<forall>s \<in> set ?new. guard_step_ok run s \<and> set (Also s) \<subseteq> A"
      using Cons.prems(1) A(1) by (simp add: guard_step_ok_def)
    show ?thesis
      unfolding eq by (rule Cons.IH [OF ok A(2)])
  qed
qed

lemma guardSteps_shape:
  assumes "s \<in> set (guardSteps run t os)"
  shows "Entries s = run \<and> Also s \<noteq> [] \<and> set (Also s) \<subseteq> set os"
proof -
  have "set (upto_last_block os) \<subseteq> set os"
    by (auto simp: upto_last_block_def dest!: set_dropWhileD)
  with guard_loop_steps [of "[]" run "set os" "upto_last_block os" t] assms show ?thesis
    by (auto simp: guardSteps_def guard_step_ok_def)
qed

text \<open>
  The entries of a step are of one plane, those of \<^verbatim>\<open>Also\<close> of the other one, and all come from the tier.
\<close>

definition step_ok :: "Entry list \<Rightarrow> Step \<Rightarrow> bool" where
  "step_ok all s \<longleftrightarrow> Entries s \<noteq> [] \<and> set (Entries s) \<subseteq> set all \<and> set (Also s) \<subseteq> set all
     \<and> (\<forall>e \<in> set (Entries s). entry_plane e = entry_plane (hd (Entries s)))
     \<and> (\<forall>e \<in> set (Also s). other_plane (entry_plane (hd (Entries s))) = Some (entry_plane e))
     \<and> (Also s = [] \<longrightarrow> (\<forall>e \<in> set (Entries s). ETarget e = STarget s))"

lemma run_steps_ok:
  assumes "s \<in> set (run_steps all e (e # run))" "set (e # run) \<subseteq> set all" "\<forall>x \<in> set run. same_run e x"
  shows "step_ok all s \<and> Entries s = e # run"
proof -
  consider (guard) p where "other_plane (entry_plane e) = Some p"
      "s \<in> set (guardSteps (e # run) (ETarget e) (filter (\<lambda>x. entry_plane x = p) all))"
    | (plain) "s = \<lparr>Entries = e # run, Also = [], STarget = ETarget e\<rparr>"
    using assms(1) by (cases "other_plane (entry_plane e)") (auto simp: run_steps_def split: if_splits)
  then show ?thesis
  proof cases
    case guard
    then show ?thesis
      using guardSteps_shape [OF guard(2)] assms(2,3) by (auto simp: step_ok_def same_run_def)
  next
    case plain
    then show ?thesis
      using assms(2,3) by (auto simp: step_ok_def same_run_def)
  qed
qed

lemma steps_loop_unfold:
  "steps_loop all (e # es) =
   run_steps all e (e # takeWhile (same_run e) es) @ steps_loop all (dropWhile (same_run e) es)"
  by (simp add: steps_loop.simps(2) run_steps_def Let_def split: option.split)

lemma steps_loop_ok: "set es \<subseteq> set all \<Longrightarrow> s \<in> set (steps_loop all es) \<Longrightarrow> step_ok all s"
proof (induction all es rule: steps_loop.induct)
  case (1 all)
  then show ?case by simp
next
  case (2 all e es)
  have "set (takeWhile (same_run e) es) \<subseteq> set all" "set (dropWhile (same_run e) es) \<subseteq> set all"
    using 2(2) by (auto dest: set_takeWhileD set_dropWhileD)
  then show ?case
    using 2(1) [OF refl refl refl refl] 2(2,3) run_steps_ok [of s all e]
    by (auto simp: steps_loop_unfold dest: set_takeWhileD)
qed

lemma steps_loop_covers:
  "x \<in> set es \<Longrightarrow>
   \<exists>s \<in> set (steps_loop all es). Also s = [] \<and> STarget s = ETarget x \<and> x \<in> set (Entries s)"
proof (induction all es rule: steps_loop.induct)
  case (1 all)
  then show ?case by simp
next
  case (2 all e es)
  let ?run = "e # takeWhile (same_run e) es" let ?rest = "dropWhile (same_run e) es"
  have "e # es = ?run @ ?rest" by simp
  then consider "x \<in> set ?run" | "x \<in> set ?rest"
    using 2(2) by (metis Un_iff set_append)
  then show ?case
  proof cases
    case 1
    then have "ETarget x = ETarget e"
      by (auto simp: same_run_def dest: set_takeWhileD)
    then have "\<lparr>Entries = ?run, Also = [], STarget = ETarget x\<rparr> \<in> set (steps_loop all (e # es))"
      unfolding steps_loop_unfold run_steps_def by simp
    with 1 show ?thesis by force
  next
    case 2
    with "2.IH" [OF refl refl refl refl] show ?thesis
      unfolding steps_loop_unfold by auto
  qed
qed

lemma tier_Steps_ok: "s \<in> set (tier_Steps t) \<Longrightarrow> step_ok (tier_Entries t) s"
  by (auto simp: tier_Steps_def Let_def intro: steps_loop_ok)

lemma tier_Steps_covers:
  "x \<in> set (tier_Entries t) \<Longrightarrow>
   \<exists>s \<in> set (tier_Steps t). Also s = [] \<and> STarget s = ETarget x \<and> x \<in> set (Entries s)"
  using steps_loop_covers [of x "tier_Entries t" "tier_Entries t"] by (simp add: tier_Steps_def Let_def)

text \<open>The unpaired block steps of a tier match what its block entries match.\<close>

lemma tier_block_steps:
  "(\<exists>s \<in> set (tier_Steps t). STarget s = TargetBlock \<and> Also s = [] \<and> step_matches m s) \<longleftrightarrow>
   (\<exists>e \<in> set (tier_Entries t). ETarget e = TargetBlock \<and> m e)" (is "?L \<longleftrightarrow> ?R")
proof
  assume ?L
  then obtain s e where s: "s \<in> set (tier_Steps t)" "STarget s = TargetBlock" "Also s = []"
    and e: "e \<in> set (Entries s)" "m e"
    by (auto simp: step_matches_def)
  from tier_Steps_ok [OF s(1)] have "e \<in> set (tier_Entries t)" "ETarget e = TargetBlock"
    using s e unfolding step_ok_def by auto
  with e show ?R by blast
next
  assume ?R
  then obtain e where e: "e \<in> set (tier_Entries t)" "ETarget e = TargetBlock" "m e"
    by blast
  from tier_Steps_covers [OF e(1)] e show ?L
    by (fastforce simp: step_matches_def)
qed

text \<open>A step's outcome is its entries' outcome, or a block of the tier.\<close>

lemma guard_loop_targets:
  "\<forall>s \<in> set steps. STarget s = target \<or> STarget s = TargetBlock \<and> B \<Longrightarrow>
   (\<forall>e \<in> set es. ETarget e = TargetBlock \<longrightarrow> B) \<Longrightarrow>
   \<forall>s \<in> set (guard_loop run target steps es). STarget s = target \<or> STarget s = TargetBlock \<and> B"
proof (induction es arbitrary: steps)
  case Nil
  then show ?case by simp
next
  case (Cons e es)
  let ?outcome = "guard_target target e"
  let ?ok = "\<lambda>s. STarget s = target \<or> STarget s = TargetBlock \<and> B"
  have rest: "\<forall>e \<in> set es. ETarget e = TargetBlock \<longrightarrow> B"
    using Cons.prems(2) by simp
  have e: "?outcome = target \<or> ?outcome = TargetBlock \<and> B"
    using Cons.prems(2) by (simp add: guard_target_def)
  show ?case
  proof (cases "steps \<noteq> [] \<and> STarget (last steps) = ?outcome")
    case True
    let ?ext = "butlast steps @ [(last steps)\<lparr>Also := Also (last steps) @ [e]\<rparr>]"
    have "\<forall>s \<in> set (butlast steps). ?ok s"
      using Cons.prems(1) in_set_butlastD by metis
    with True e have ok: "\<forall>s \<in> set ?ext. ?ok s"
      by simp
    have eq: "guard_loop run target steps (e # es) = guard_loop run target ?ext es"
      using True by (simp add: guard_target_def Let_def)
    show ?thesis
      unfolding eq by (rule Cons.IH [OF ok rest])
  next
    case False
    let ?new = "steps @ [\<lparr>Entries = run, Also = [e], STarget = ?outcome\<rparr>]"
    have ok: "\<forall>s \<in> set ?new. ?ok s"
      using Cons.prems(1) e by simp
    have eq: "guard_loop run target steps (e # es) = guard_loop run target ?new es"
      using False by (auto simp: guard_target_def Let_def)
    show ?thesis
      unfolding eq by (rule Cons.IH [OF ok rest])
  qed
qed

lemma run_steps_target:
  assumes "s \<in> set (run_steps all e run)"
  shows "STarget s = ETarget e \<or> STarget s = TargetBlock \<and> (\<exists>b \<in> set all. ETarget b = TargetBlock)"
proof -
  have "\<forall>s \<in> set (guardSteps run t (filter q all)). STarget s = t \<or>
      STarget s = TargetBlock \<and> (\<exists>b \<in> set all. ETarget b = TargetBlock)" for t q
    unfolding guardSteps_def
    by (rule guard_loop_targets) (auto simp: upto_last_block_def dest!: set_dropWhileD)
  then show ?thesis
    using assms by (cases "other_plane (entry_plane e)") (auto simp: run_steps_def split: if_splits)
qed

lemma steps_loop_targets:
  assumes "set es \<subseteq> set all" "s \<in> set (steps_loop all es)"
  shows "STarget s = ETarget (hd (Entries s)) \<or>
         STarget s = TargetBlock \<and> (\<exists>b \<in> set all. ETarget b = TargetBlock)"
  using assms
proof (induction all es rule: steps_loop.induct)
  case (1 all)
  then show ?case by simp
next
  case (2 all e es)
  let ?run = "e # takeWhile (same_run e) es"
  have sub: "set ?run \<subseteq> set all" "set (dropWhile (same_run e) es) \<subseteq> set all"
    using 2(2) by (auto dest: set_takeWhileD set_dropWhileD)
  consider "s \<in> set (run_steps all e ?run)" | "s \<in> set (steps_loop all (dropWhile (same_run e) es))"
    using 2(3) by (auto simp: steps_loop_unfold)
  then show ?case
  proof cases
    case 1
    have "Entries s = ?run"
      using run_steps_ok [OF 1 sub(1)] by (blast dest: set_takeWhileD)
    with run_steps_target [OF 1] show ?thesis by simp
  next
    case 2
    then show ?thesis using "2.IH" [OF refl refl refl refl sub(2)] by blast
  qed
qed

lemma tier_Steps_targets:
  "s \<in> set (tier_Steps t) \<Longrightarrow> STarget s = ETarget (hd (Entries s)) \<or>
   STarget s = TargetBlock \<and> (\<exists>b \<in> set (tier_Entries t). ETarget b = TargetBlock)"
  by (auto simp: tier_Steps_def Let_def dest: steps_loop_targets [OF subset_refl])

lemma first_match_run:
  "\<forall>s \<in> set ss. Entries s = run \<Longrightarrow>
   first_match (step_matches m) (\<lambda>s. (STarget s, entry_plane (hd (Entries s)))) ss =
   map_option (\<lambda>t. (t, entry_plane (hd run))) (steps_outcome m ss)"
  by (induction ss) auto

lemma steps_loop_outcome_plane:
  "set es \<subseteq> set all \<Longrightarrow>
   first_match (step_matches m) (\<lambda>s. (STarget s, entry_plane (hd (Entries s)))) (steps_loop all es) =
   map_option (\<lambda>e. (guarded_target m all e, entry_plane e)) (find m es)"
proof (induction all es rule: steps_loop.induct)
  case (1 all)
  then show ?case by simp
next
  case (2 all e es)
  let ?run = "e # takeWhile (same_run e) es" let ?rest = "dropWhile (same_run e) es"
  have sub: "set ?run \<subseteq> set all" "set ?rest \<subseteq> set all"
    using 2(2) by (auto dest: set_takeWhileD set_dropWhileD)
  have "\<forall>s \<in> set (run_steps all e ?run). Entries s = ?run"
    using run_steps_ok [of _ all e] sub(1) by (blast dest: set_takeWhileD)
  from first_match_run [OF this] have head:
    "first_match (step_matches m) (\<lambda>s. (STarget s, entry_plane (hd (Entries s)))) (run_steps all e ?run)
     = (if \<exists>x \<in> set ?run. m x then Some (guarded_target m all e, entry_plane e) else None)"
    by (simp add: run_steps_outcome)
  have same: "(guarded_target m all x, entry_plane x) = (guarded_target m all e, entry_plane e)"
    if "x \<in> set ?run" for x
    using that by (auto simp: same_run_def intro: guarded_target_same dest!: set_takeWhileD)
  let ?f = "\<lambda>e. (guarded_target m all e, entry_plane e)"
  have find: "find m (e # es) = (case find m ?run of None \<Rightarrow> find m ?rest | Some x \<Rightarrow> Some x)"
    by (subst find_append [symmetric]) simp
  have "map_option ?f (find m (e # es)) =
        or_else (if \<exists>x \<in> set ?run. m x then Some (?f e) else None) (map_option ?f (find m ?rest))"
  proof (cases "find m ?run")
    case None
    then have no: "\<not> (\<exists>x \<in> set ?run. m x)"
      unfolding find_None_iff by blast
    show ?thesis
      unfolding find None if_not_P [OF no] by simp
  next
    case (Some x)
    then have x: "x \<in> set ?run" "\<exists>x \<in> set ?run. m x"
      using find_SomeD [OF Some] by blast+
    show ?thesis
      unfolding find Some if_P [OF x(2)] using same [OF x(1)] by simp
  qed
  then show ?case
    unfolding steps_loop_unfold first_match_append head 2(1) [OF refl refl refl refl sub(2)] by simp
qed

lemma tier_Steps_outcome_plane:
  "first_match (step_matches m) (\<lambda>s. (STarget s, entry_plane (hd (Entries s)))) (tier_Steps t) =
   map_option (\<lambda>e. (guarded_target m (tier_Entries t) e, entry_plane e)) (find m (tier_Entries t))"
  by (simp add: tier_Steps_def Let_def steps_loop_outcome_plane)

section \<open>A block yields only inside its own plane\<close>

lemma sorted_tier_Entries: "sorted (map evaluationKey (tier_Entries t))"
  by (simp add: tier_Entries_def)

lemma key_block_app_first:
  assumes "ETarget b = TargetBlock" "entry_plane b = planeApp" "evaluationKey e \<le> evaluationKey b"
  shows "ETarget e = TargetBlock"
  using assms
  by (cases "Kind e"; cases "Kind b"; cases "ETarget e")
    (auto simp: evaluationKey_def entry_plane_def ByAddress_def outcome_rank_def split: if_splits)

lemma key_site_before_app:
  assumes "entry_plane b \<noteq> planeApp" "entry_plane e = planeApp" "evaluationKey e \<le> evaluationKey b"
  shows "ETarget e = TargetBlock"
  using assms
  by (cases "Kind e"; cases "Kind b"; cases "ETarget e")
    (auto simp: evaluationKey_def entry_plane_def ByAddress_def outcome_rank_def split: if_splits)

lemma key_block_neq:
  assumes "ETarget b = TargetBlock" "ETarget e \<noteq> TargetBlock"
  shows "evaluationKey e \<noteq> evaluationKey b"
  using assms
  by (cases "Kind e"; cases "Kind b"; cases "ETarget e")
    (auto simp: evaluationKey_def outcome_rank_def split: if_splits)

lemma first_of_plane_least:
  assumes "sorted (map evaluationKey es)" "b \<in> set es" "m b" "entry_plane b = p"
  shows "\<exists>e. first_of_plane m p es = Some e \<and> e \<in> set es \<and> m e \<and> entry_plane e = p
             \<and> evaluationKey e \<le> evaluationKey b"
proof -
  obtain e where e: "first_of_plane m p es = Some e"
    using assms(2-4) by (cases "first_of_plane m p es") (auto simp: first_of_plane_def find_None_iff)
  then have "evaluationKey e \<le> evaluationKey b"
    using assms unfolding first_of_plane_def by (auto intro: find_sorted_least)
  with e show ?thesis
    by (auto simp: first_of_plane_def dest: find_SomeD)
qed

lemma unblocked_plane_exception:
  assumes "sorted (map evaluationKey es)" "b \<in> set es" "m b" "ETarget b = TargetBlock"
    "\<not> blocked_by_plane m (entry_plane b) es"
  shows "\<exists>e \<in> set es. m e \<and> entry_plane e = entry_plane b \<and> ETarget e \<noteq> TargetBlock
                     \<and> evaluationKey e < evaluationKey b"
  using first_of_plane_least [where m = m, OF assms(1-3) refl] assms(4,5) key_block_neq [OF assms(4)]
  by (fastforce simp: blocked_by_plane_def)

text \<open>When a tier lets a flow through, no plane that has a matching block starts with that block.\<close>

lemma passed_flow_planes:
  assumes "sorted (map evaluationKey es)" "tier_outcome m es = Some t" "t \<noteq> TargetBlock"
    "b \<in> set es" "m b" "ETarget b = TargetBlock"
  shows "\<not> blocked_by_plane m (entry_plane b) es"
proof -
  obtain e where e: "find m es = Some e" and t: "guarded_target m es e = t"
    using assms(2) by (auto simp: tier_outcome_def)
  have target: "ETarget e \<noteq> TargetBlock" "ETarget e = t"
    using t assms(3) by (auto simp: guarded_target_def split: option.splits if_splits)
  have key: "evaluationKey e \<le> evaluationKey b"
    using find_sorted_least [OF assms(1) e assms(4)] assms(5) by simp
  then have no_app: "entry_plane b \<noteq> planeApp" "entry_plane e \<noteq> planeApp"
    using key_block_app_first [OF assms(6)] key_site_before_app target(1) by blast+
  show ?thesis
  proof (cases "entry_plane e = entry_plane b")
    case True
    have "first_of_plane m (entry_plane b) es = Some e"
      using e True unfolding first_of_plane_def by (induction es) (auto split: if_splits)
    then show ?thesis
      using target(1) by (simp add: blocked_by_plane_def)
  next
    case False
    then have "other_plane (entry_plane e) = Some (entry_plane b)"
      using no_app by (cases "entry_plane e"; cases "entry_plane b") auto
    then show ?thesis
      using t assms(3) by (auto simp: guarded_target_def)
  qed
qed

text \<open>
  C14. A block entry that matches a flow is overridden in its tier only by a strictly more specific direct
  or proxy entry of the block's own plane that matches the flow too: no name rule opens a blocked address and
  no address rule opens a blocked name.
\<close>

theorem block_yields_only_in_plane:
  assumes "steps_outcome m (tier_Steps t) = Some target" "target \<noteq> TargetBlock"
    and "b \<in> set (tier_Entries t)" "m b" "ETarget b = TargetBlock"
  shows "\<exists>e \<in> set (tier_Entries t). m e \<and> entry_plane e = entry_plane b
           \<and> ETarget e \<noteq> TargetBlock \<and> evaluationKey e < evaluationKey b"
proof -
  have "tier_outcome m (tier_Entries t) = Some target"
    using assms(1) by (simp add: tier_Steps_def tier_outcome_def steps_loop_outcome Let_def)
  from passed_flow_planes [OF sorted_tier_Entries this assms(2-5)]
  show ?thesis
    by (rule unblocked_plane_exception [where m = m, OF sorted_tier_Entries assms(3-5)])
qed

text \<open>The hypotheses of C2 hold for a name excepted from a blocked zone.\<close>

definition example_tier :: Tier where
  "example_tier = \<lparr>Block = [''domain:example.com'', ''geosite:ads''],
                   Direct = [''full:www.example.com''], Proxy = [''10.0.0.0/8'']\<rparr>"

definition example_flow :: "Entry \<Rightarrow> bool" where
  "example_flow e \<longleftrightarrow> Value e = ''example.com'' \<or> Value e = ''www.example.com''"

theorem block_yields_only_in_plane_witness:
  "\<exists>e \<in> set (tier_Entries example_tier).
     example_flow e \<and> entry_plane e = planeName \<and> ETarget e \<noteq> TargetBlock
     \<and> evaluationKey e < (1, 1, -1, 0)"
proof -
  let ?b = "\<lparr>Kind = KindDomainSuffix, Value = ''example.com'', ETarget = TargetBlock\<rparr>"
  have "steps_outcome example_flow (tier_Steps example_tier) = Some TargetDirect"
    "?b \<in> set (tier_Entries example_tier)" "example_flow ?b"
    "entry_plane ?b = planeName" "evaluationKey ?b = (1, 1, -1, 0)"
    by code_simp+
  then show ?thesis
    using block_yields_only_in_plane [of example_flow example_tier TargetDirect ?b] by simp
qed

section \<open>The per-process map\<close>

definition process_name :: "string \<Rightarrow> string option" where
  "process_name m = (case Classify m of Some (KindProcess, v) \<Rightarrow> Some (ToLower (TrimSpace v)) | _ \<Rightarrow> None)"

definition lists_process :: "(Tier \<Rightarrow> string list) \<Rightarrow> Profile \<Rightarrow> string \<Rightarrow> bool" where
  "lists_process f p name \<longleftrightarrow> (\<exists>t \<in> set (Tiers p). \<exists>m \<in> set (f t). process_name m = Some name)"

lemma add_rules_apply:
  "add_rules target ms out name =
   (if \<exists>m \<in> set ms. process_name m = Some name then Some target else out name)"
proof (induction ms arbitrary: out)
  case Nil
  then show ?case by simp
next
  case (Cons m ms)
  have "(case Classify m of Some (KindProcess, val) \<Rightarrow> out(ToLower (TrimSpace val) \<mapsto> target)
         | _ \<Rightarrow> out) name = (if process_name m = Some name then Some target else out name)"
  proof (cases "Classify m")
    case None
    then show ?thesis by (simp add: process_name_def)
  next
    case (Some kv)
    then show ?thesis
      by (cases kv; cases "fst kv") (simp_all add: process_name_def)
  qed
  then show ?case
    by (simp add: Cons.IH)
qed

lemma fold_add_rules_apply:
  "fold (\<lambda>t. add_rules target (f t)) ts out name =
   (if \<exists>t \<in> set ts. \<exists>m \<in> set (f t). process_name m = Some name then Some target else out name)"
  by (induction ts arbitrary: out) (simp_all add: add_rules_apply)

text \<open>
  The flat map the per-process dialer reads holds exactly the process names the profile lists, and a
  name listed more than once, in whatever tiers, gets block before direct before proxy.
\<close>

theorem ProcessRules_priority:
  "ProcessRules p name =
   (if lists_process Block p name then Some TargetBlock
    else if lists_process Direct p name then Some TargetDirect
    else if lists_process Proxy p name then Some TargetProxy
    else None)"
  unfolding ProcessRules_def lists_process_def by (simp add: fold_add_rules_apply)

section \<open>What validation guarantees\<close>

lemma validate_tiers_None:
  "validate_tiers i ts = None \<longleftrightarrow>
   (\<forall>t \<in> set ts. \<forall>m \<in> set (Block t) \<union> set (Direct t) \<union> set (Proxy t). validateMatcher m = None)"
proof (induction ts arbitrary: i)
  case Nil
  then show ?case by simp
next
  case (Cons t ts)
  let ?find = "find (\<lambda>m. validateMatcher m \<noteq> None) (Block t @ Direct t @ Proxy t)"
  have none: "?find = None \<longleftrightarrow>
      (\<forall>m \<in> set (Block t) \<union> set (Direct t) \<union> set (Proxy t). validateMatcher m = None)"
    unfolding find_None_iff by auto
  show ?case
  proof (cases ?find)
    case None
    then show ?thesis
      using none Cons.IH by simp
  next
    case (Some m)
    then have "\<not> (\<forall>m \<in> set (Block t) \<union> set (Direct t) \<union> set (Proxy t). validateMatcher m = None)"
      using none by (metis option.distinct(1))
    then show ?thesis
      using Some by auto
  qed
qed

lemma classified_Cons:
  "classified (m # ms) t =
   (case Classify m of None \<Rightarrow> [] | Some (k, v) \<Rightarrow> [\<lparr>Kind = k, Value = v, ETarget = t\<rparr>]) @ classified ms t"
  by (cases "Classify m") (auto simp: classified_def List.map_filter_simps)

lemma in_classified:
  "e \<in> set (classified ms t) \<longleftrightarrow> (\<exists>m \<in> set ms. Classify m = Some (Kind e, Value e)) \<and> ETarget e = t"
proof (induction ms)
  case Nil
  then show ?case by (simp add: classified_def List.map_filter_simps)
next
  case (Cons m ms)
  show ?case
    unfolding classified_Cons set_append Un_iff Cons.IH
    by (cases "Classify m"; cases e) (auto split: prod.splits)
qed

lemma in_tier_Entries:
  "e \<in> set (tier_Entries t) \<longleftrightarrow>
   e \<in> set (classified (Block t) TargetBlock) \<or> e \<in> set (classified (Direct t) TargetDirect)
   \<or> e \<in> set (classified (Proxy t) TargetProxy)"
  by (simp add: tier_Entries_def)

lemma tier_Entries_origin:
  "e \<in> set (tier_Entries t) \<Longrightarrow>
   \<exists>m \<in> set (Block t) \<union> set (Direct t) \<union> set (Proxy t). Classify m = Some (Kind e, Value e)"
  unfolding in_tier_Entries in_classified by blast

lemma domainEntry_nonempty: "domainEntry k s = Some (k', v) \<Longrightarrow> v \<noteq> []"
  by (auto simp: domainEntry_def Let_def split: if_splits)

lemma Classify_nonempty:
  assumes "Classify s = Some (k, v)"
  shows "v \<noteq> []"
  using assms
  by (auto simp: Classify_def Let_def ToLower_def dest: domainEntry_nonempty
      split: if_splits option.splits)

lemma tier_Entries_nonempty: "e \<in> set (tier_Entries t) \<Longrightarrow> Value e \<noteq> []"
  using tier_Entries_origin Classify_nonempty by blast

lemma tier_Entries_lists:
  assumes "e \<in> set (tier_Entries t)"
  shows "ETarget e = TargetBlock \<Longrightarrow> Block t \<noteq> []" "ETarget e = TargetDirect \<Longrightarrow> Direct t \<noteq> []"
  using assms by (auto simp: in_tier_Entries in_classified)

end
