(* ===== verification/Dns_Config.thy ===== *)
theory Dns_Config
  imports Routing
begin

text \<open>
  The engine-neutral DNS intent, \<^verbatim>\<open>src/internal/dnsconfig/dnsconfig.go\<close>: the normalised lists both engines
  read, the hosts table, and the validation of fake-ip filter entries per engine.

  Go visits a map in an unspecified order, so the hosts table is the list of its entries in the order one
  run happens to visit them.
\<close>

definition ModeFakeIP :: string where "ModeFakeIP = ''fake-ip''"

record DnsConfig =
  d_Mode :: string
  d_Servers :: "string list"
  d_FakeIPFilter :: "string list"
  d_Hosts :: "(string \<times> string list) list"
  d_DirectServers :: "string list"
  d_DisableIPv6 :: bool

definition FakeIP :: "DnsConfig \<Rightarrow> bool" where
  "FakeIP c = EqualFold (TrimSpace (d_Mode c)) ModeFakeIP"

definition trimmed :: "string list \<Rightarrow> string list" where
  "trimmed xs = filter (\<lambda>s. s \<noteq> []) (map TrimSpace xs)"

definition NormalizedServers :: "DnsConfig \<Rightarrow> string \<Rightarrow> string list" where
  "NormalizedServers c fallback =
     (let out = trimmed (d_Servers c)
      in if out = [] then (let f = TrimSpace fallback in if f \<noteq> [] then [f] else []) else out)"

definition NormalizedFilter :: "DnsConfig \<Rightarrow> string list" where
  "NormalizedFilter c = trimmed (d_FakeIPFilter c)"

definition NormalizedDirectServers :: "DnsConfig \<Rightarrow> string list" where
  "NormalizedDirectServers c = trimmed (d_DirectServers c)"

definition isHostName :: "string \<Rightarrow> bool" where
  "isHostName v =
     (if v = [] \<or> (\<exists>c \<in> set v. c \<in> {CHR '' '', CHR 0x09, CHR ''/'', CHR 0x5C, CHR '':'', CHR '',''}) then False
      else CHR ''.'' \<in> set v \<or> EqualFold v ''lan'')"

text \<open>The values one entry of the hosts table keeps.\<close>

definition clean_hosts :: "string list \<Rightarrow> string list" where
  "clean_hosts vals =
     (let clean = trimmed vals
      in if length clean > 1 then filter (\<lambda>v. ParseIP v \<noteq> None) clean
         else if length clean = 1 \<and> ParseIP (hd clean) = None \<and> \<not> isHostName (hd clean) then []
         else clean)"

fun normalize_hosts :: "(string \<times> string list) list \<Rightarrow> (string \<rightharpoonup> string list) \<Rightarrow> (string \<rightharpoonup> string list)" where
  "normalize_hosts [] out = out"
| "normalize_hosts ((k0, vals) # rest) out =
     (let k = TrimSpace k0; clean = clean_hosts vals
      in normalize_hosts rest (if k = [] then out else if clean \<noteq> [] then out(k \<mapsto> clean) else out))"

definition NormalizedHosts :: "DnsConfig \<Rightarrow> (string \<rightharpoonup> string list)" where
  "NormalizedHosts c = normalize_hosts (d_Hosts c) Map.empty"

definition Scheme :: "string \<Rightarrow> string" where
  "Scheme server0 =
     (let server = TrimSpace server0
      in case Index server ''://'' of
           Some i \<Rightarrow> if i > 0 then ToLower (take i server) else []
         | None \<Rightarrow> [])"

fun first_plain :: "string list \<Rightarrow> string" where
  "first_plain [] = []"
| "first_plain (s0 # ss) =
     (let s = TrimSpace s0 in if s \<noteq> [] \<and> Scheme s = [] then s else first_plain ss)"

definition FirstPlainServer :: "DnsConfig \<Rightarrow> string" where
  "FirstPlainServer c = first_plain (d_Servers c)"

section \<open>Validation of the fake-ip filter\<close>

datatype filter_error =
    RuleSet | BadGeoCode string | TrailingDot | EmptyLabel nat | PlusPart | PlusNotFirst | PlusAlone
  | StarPart string | BadKeyword matcher_error

definition validateXrayFilterEntry :: "string \<Rightarrow> filter_error option" where
  "validateXrayFilterEntry entry =
     (case Classify entry of
        None \<Rightarrow> None
      | Some (kind, val) \<Rightarrow>
          if kind = KindGeoSite then (if ValidGeoCode val then None else Some (BadGeoCode val))
          else if kind = KindDomainKeyword then map_option BadKeyword (ValidKeyword val)
          else None)"

text \<open>The loop over the labels; \<open>n\<close> is \<^verbatim>\<open>len(labels)\<close>, \<open>i\<close> the index of the first label left.\<close>

fun check_labels :: "nat \<Rightarrow> nat \<Rightarrow> string list \<Rightarrow> filter_error option" where
  "check_labels n i [] = None"
| "check_labels n i (label # ls) =
     (if label = [] \<and> i > 0 then Some (EmptyLabel (Suc i))
      else if CHR ''+'' \<in> set label \<and> label \<noteq> ''+'' then Some PlusPart
      else if CHR ''+'' \<in> set label \<and> i \<noteq> 0 then Some PlusNotFirst
      else if CHR ''+'' \<in> set label \<and> n = 1 then Some PlusAlone
      else if CHR ''*'' \<in> set label \<and> label \<noteq> ''*'' then Some (StarPart label)
      else check_labels n (Suc i) ls)"

definition validateMihomoFilterEntry :: "string \<Rightarrow> filter_error option" where
  "validateMihomoFilterEntry entry =
     (let lower = ToLower entry
      in if HasPrefix lower ''rule-set:'' then Some RuleSet
         else if HasPrefix lower ''geosite:'' then
           map_option BadGeoCode (find (\<lambda>code. \<not> ValidGeoCode code) (Split (drop 8 entry) CHR '',''))
         else if HasSuffix entry ''.'' then Some TrailingDot
         else (let labels = Split entry CHR ''.'' in check_labels (length labels) 0 labels))"

datatype engine = EngineXray | EngineMihomo | EngineAwg

definition Dns_Validate :: "DnsConfig \<Rightarrow> engine \<Rightarrow> (string \<times> filter_error) option" where
  "Dns_Validate c eng =
     (if \<not> FakeIP c then None
      else let check = (case eng of EngineMihomo \<Rightarrow> validateMihomoFilterEntry
                        | EngineXray \<Rightarrow> validateXrayFilterEntry | EngineAwg \<Rightarrow> (\<lambda>_. None))
           in map_option (\<lambda>entry. (entry, the (check entry)))
                (find (\<lambda>entry. check entry \<noteq> None) (NormalizedFilter c)))"

section \<open>What normalisation and validation guarantee\<close>

lemma trimmed_spec:
  "s \<in> set (trimmed xs) \<Longrightarrow> s \<noteq> [] \<and> trimmed_string s"
  by (auto simp: trimmed_def)

lemma trimmed_idem [simp]: "trimmed (trimmed xs) = trimmed xs"
  by (induction xs) (simp_all add: trimmed_def)

lemma clean_hosts_spec:
  "clean_hosts vals \<noteq> [] \<Longrightarrow>
   (\<forall>v \<in> set (clean_hosts vals). ParseIP v \<noteq> None) \<or>
   (\<exists>v. clean_hosts vals = [v] \<and> (ParseIP v \<noteq> None \<or> isHostName v))"
proof -
  assume ne: "clean_hosts vals \<noteq> []"
  show ?thesis
  proof (cases "length (trimmed vals) > 1")
    case True
    then show ?thesis by (auto simp: clean_hosts_def Let_def)
  next
    case False
    with ne obtain v where "trimmed vals = [v]"
      by (cases "trimmed vals") (auto simp: clean_hosts_def Let_def)
    with ne show ?thesis
      by (auto simp: clean_hosts_def split: if_splits)
  qed
qed

lemma normalize_hosts_values:
  "normalize_hosts es out k = Some vs \<Longrightarrow>
   out k = Some vs \<or> (\<exists>k0 vals. (k0, vals) \<in> set es \<and> k = TrimSpace k0 \<and> k \<noteq> [] \<and> vs = clean_hosts vals \<and> vs \<noteq> [])"
proof (induction es arbitrary: out)
  case Nil
  then show ?case by simp
next
  case (Cons e es)
  obtain k0 vals where e: "e = (k0, vals)" by fastforce
  from Cons.IH [OF Cons.prems [unfolded e normalize_hosts.simps Let_def]] show ?case
    by (auto simp: e split: if_splits)
qed

text \<open>
  Every entry of the normalised hosts table is one both engines take: a non-empty name without
  surrounding space, and either IP addresses only or a single alias that is a name. An entry that cannot be
  used is dropped alone.
\<close>

theorem NormalizedHosts_usable:
  assumes "NormalizedHosts c k = Some vs"
  shows "k \<noteq> [] \<and> trimmed_string k \<and> vs \<noteq> [] \<and>
         ((\<forall>v \<in> set vs. ParseIP v \<noteq> None) \<or> (\<exists>v. vs = [v] \<and> isHostName v))"
  using normalize_hosts_values [OF assms [unfolded NormalizedHosts_def]] clean_hosts_spec
  by fastforce

definition example_hosts :: DnsConfig where
  "example_hosts = \<lparr>d_Mode = '' Fake-IP'', d_Servers = [], d_FakeIPFilter = [''+.lan'', ''*.example.com''],
     d_Hosts = [('' router.lan '', [''192.168.1.1'', ''nonsense'', ''fe80::1'']), (''a.b'', [''x y''])],
     d_DirectServers = [], d_DisableIPv6 = False\<rparr>"

theorem NormalizedHosts_usable_witness:
  "NormalizedHosts example_hosts ''router.lan'' = Some [''192.168.1.1'', ''fe80::1'']
   \<and> ParseIP ''192.168.1.1'' \<noteq> None \<and> ParseIP ''fe80::1'' \<noteq> None"
proof -
  have "NormalizedHosts example_hosts ''router.lan'' = Some [''192.168.1.1'', ''fe80::1'']"
    by code_simp
  with NormalizedHosts_usable [OF this] show ?thesis by simp
qed

text \<open>
  What mihomo's domain trie takes, as the comment on \<^verbatim>\<open>Validate\<close> describes it: no trailing dot, no empty
  label but the first, \<^verbatim>\<open>*\<close> only as a whole label, \<^verbatim>\<open>+\<close> only as the whole first label of a longer name.
\<close>

definition trie_label_ok :: "nat \<Rightarrow> nat \<Rightarrow> string \<Rightarrow> bool" where
  "trie_label_ok n i label \<longleftrightarrow> (label = [] \<longrightarrow> i = 0) \<and> (CHR ''*'' \<in> set label \<longrightarrow> label = ''*'')
     \<and> (CHR ''+'' \<in> set label \<longrightarrow> label = ''+'' \<and> i = 0 \<and> n > 1)"

lemma check_labels_None:
  "n \<noteq> 0 \<Longrightarrow> check_labels n i ls = None \<longleftrightarrow> (\<forall>j < length ls. trie_label_ok n (i + j) (ls ! j))"
proof (induction ls arbitrary: i)
  case Nil
  then show ?case by simp
next
  case (Cons l ls)
  have head: "check_labels n i (l # ls) = None \<longleftrightarrow> trie_label_ok n i l \<and> check_labels n (Suc i) ls = None"
    using Cons.prems by (auto simp: trie_label_ok_def)
  have "(\<forall>j < length (l # ls). trie_label_ok n (i + j) ((l # ls) ! j)) \<longleftrightarrow>
      trie_label_ok n i l \<and> (\<forall>j < length ls. trie_label_ok n (Suc i + j) (ls ! j))"
    by (auto simp: All_less_Suc2)
  with head Cons show ?case by simp
qed

text \<open>
  For an entry that is a domain pattern, the mihomo check passes exactly the patterns mihomo's domain trie
  takes.
\<close>

theorem mihomo_filter_pattern:
  assumes "\<not> HasPrefix (ToLower entry) ''rule-set:''" "\<not> HasPrefix (ToLower entry) ''geosite:''"
  shows "validateMihomoFilterEntry entry = None \<longleftrightarrow>
         \<not> HasSuffix entry ''.'' \<and>
         (\<forall>i < length (Split entry CHR ''.'').
            trie_label_ok (length (Split entry CHR ''.'')) i (Split entry CHR ''.'' ! i))"
proof -
  have "length (Split entry CHR ''.'') \<noteq> 0" by simp
  from check_labels_None [OF this] show ?thesis
    using assms by (simp add: validateMihomoFilterEntry_def Let_def)
qed

theorem mihomo_filter_pattern_witness:
  "validateMihomoFilterEntry ''+.example.com'' = None \<and> validateMihomoFilterEntry ''a.+.com'' \<noteq> None
   \<and> trie_label_ok 3 0 ''+'' \<and> \<not> trie_label_ok 3 1 ''+''"
proof -
  have no: "\<not> HasPrefix (ToLower ''+.example.com'') ''rule-set:''"
    "\<not> HasPrefix (ToLower ''+.example.com'') ''geosite:''"
    "\<not> HasPrefix (ToLower ''a.+.com'') ''rule-set:''" "\<not> HasPrefix (ToLower ''a.+.com'') ''geosite:''"
    by code_simp+
  have splits: "Split ''+.example.com'' CHR ''.'' = [''+'', ''example'', ''com'']"
    "Split ''a.+.com'' CHR ''.'' = [''a'', ''+'', ''com'']"
    "\<not> HasSuffix ''+.example.com'' ''.''"
    by code_simp+
  show ?thesis
    using mihomo_filter_pattern [OF no(1,2)] mihomo_filter_pattern [OF no(3,4)]
    by (auto simp: splits trie_label_ok_def less_Suc_eq numeral_3_eq_3)
qed

end
