(* ===== verification/Xray_Types.thy ===== *)
theory Xray_Types
  imports Prelude
begin

text \<open>
  The xray configuration as \<^verbatim>\<open>src/internal/xrayconfig\<close> fills it: the fields of xray's own configuration
  structures that the package sets or reads, with a nil pointer as \<open>None\<close>. An address is kept as the string
  the package hands to xray's address parser; raw JSON settings are kept as the value that is marshalled.
\<close>

record fieldRule =
  fr_OutboundTag :: string
  fr_BalancerTag :: string
  fr_InboundTag :: "string list"
  fr_Domain :: "string list"
  fr_IP :: "string list"
  fr_Port :: string
  fr_Network :: string
  fr_Process :: "string list"

definition no_rule :: fieldRule where
  "no_rule = \<lparr>fr_OutboundTag = [], fr_BalancerTag = [], fr_InboundTag = [], fr_Domain = [],
              fr_IP = [], fr_Port = [], fr_Network = [], fr_Process = []\<rparr>"

record freedomFinalRule =
  ff_Action :: string
  ff_IP :: "string list"
  ff_BlockDelay :: "int option"

record WebSocketConfig =
  ws_Path :: string
  ws_Host :: string

record HttpUpgradeConfig =
  hu_Path :: string
  hu_Host :: string

record SplitHTTPConfig =
  xh_Path :: string
  xh_Mode :: string
  xh_Extra :: "string option"
  xh_Host :: string

record TLSConfig =
  tls_ServerName :: string
  tls_ALPN :: "string list option"
  tls_Fingerprint :: string
  tls_PinnedPeerCertSha256 :: string
  tls_VerifyPeerCertByName :: string
  tls_ECHConfigList :: string

record REALITYConfig =
  re_ServerName :: string
  re_PublicKey :: string
  re_ShortId :: string
  re_SpiderX :: string
  re_Fingerprint :: string

record SocketConfig =
  so_DomainStrategy :: string
  so_Interface :: string
  so_TCPKeepAliveInterval :: int

record StreamConfig =
  st_Network :: "string option"
  st_Security :: string
  st_WSSettings :: "WebSocketConfig option"
  st_GRPCServiceName :: "string option"
  st_HTTPUPGRADESettings :: "HttpUpgradeConfig option"
  st_XHTTPSettings :: "SplitHTTPConfig option"
  st_TLSSettings :: "TLSConfig option"
  st_REALITYSettings :: "REALITYConfig option"
  st_SocketSettings :: "SocketConfig option"

definition no_stream :: StreamConfig where
  "no_stream = \<lparr>st_Network = None, st_Security = [], st_WSSettings = None, st_GRPCServiceName = None,
                st_HTTPUPGRADESettings = None, st_XHTTPSettings = None, st_TLSSettings = None,
                st_REALITYSettings = None, st_SocketSettings = None\<rparr>"

definition no_socket :: SocketConfig where
  "no_socket = \<lparr>so_DomainStrategy = [], so_Interface = [], so_TCPKeepAliveInterval = 0\<rparr>"

record MuxConfig =
  mux_Enabled :: bool
  mux_Concurrency :: int
  mux_XudpConcurrency :: int

datatype outbound_settings =
    NoSettings
  | FinalRules "freedomFinalRule list"
  | EmptyObject
  | VLessSettings string nat string string "string option"  \<comment> \<open>address, port, id, encryption, flow\<close>
  | TrojanSettings string nat string                         \<comment> \<open>address, port, password\<close>
  | ShadowsocksSettings string nat string string             \<comment> \<open>address, port, cipher, password\<close>
  | VMessSettings string nat string string                   \<comment> \<open>address, port, id, cipher\<close>

record OutboundDetourConfig =
  ob_Protocol :: string
  ob_Tag :: string
  ob_SendThrough :: "string option"
  ob_Settings :: outbound_settings
  ob_StreamSetting :: "StreamConfig option"
  ob_MuxSettings :: "MuxConfig option"

definition no_outbound :: OutboundDetourConfig where
  "no_outbound = \<lparr>ob_Protocol = [], ob_Tag = [], ob_SendThrough = None, ob_Settings = NoSettings,
                  ob_StreamSetting = None, ob_MuxSettings = None\<rparr>"

record SniffingConfig =
  sn_Enabled :: bool
  sn_DestOverride :: "string list"
  sn_RouteOnly :: bool
  sn_IPsExcluded :: "string list"

record SocksSettings =
  sk_Auth :: string
  sk_Users :: "(string \<times> string) list"
  sk_UDP :: bool
  sk_IP :: string

record InboundDetourConfig =
  in_Protocol :: string
  in_Port :: int
  in_ListenOn :: string
  in_Tag :: string
  in_Settings :: SocksSettings
  in_SniffingConfig :: "SniffingConfig option"

record NameServerConfig =
  ns_Address :: string
  ns_Port :: nat
  ns_Domains :: "string list"
  ns_SkipFallback :: bool

record DNSConfig =
  dns_Servers :: "NameServerConfig list"
  dns_Hosts :: "(string \<rightharpoonup> string list) option"
  dns_QueryStrategy :: string
  dns_Tag :: string

record BalancingRule =
  br_Tag :: string
  br_Selectors :: "string list"
  br_Strategy :: string
  br_FallbackTag :: string

record RouterConfig =
  rc_RuleList :: "fieldRule list"
  rc_DomainStrategy :: "string option"
  rc_Balancers :: "BalancingRule list"

definition no_router :: RouterConfig where
  "no_router = \<lparr>rc_RuleList = [], rc_DomainStrategy = None, rc_Balancers = []\<rparr>"

record ObservatoryConfig =
  ov_SubjectSelector :: "string list"
  ov_ProbeURL :: string
  ov_ProbeIntervalSec :: int
  ov_EnableConcurrency :: bool

record xconfig =
  cfg_LogLevel :: string
  cfg_OutboundConfigs :: "OutboundDetourConfig list"
  cfg_InboundConfigs :: "InboundDetourConfig list"
  cfg_RouterConfig :: "RouterConfig option"
  cfg_DNSConfig :: "DNSConfig option"
  cfg_FakeDNS :: "(string \<times> int) list option"
  cfg_Observatory :: "ObservatoryConfig option"

definition new_config :: "string \<Rightarrow> xconfig" where
  "new_config level = \<lparr>cfg_LogLevel = level, cfg_OutboundConfigs = [], cfg_InboundConfigs = [],
     cfg_RouterConfig = None, cfg_DNSConfig = None, cfg_FakeDNS = None, cfg_Observatory = None\<rparr>"

definition outbound_tags :: "xconfig \<Rightarrow> string list" where
  "outbound_tags cfg = map ob_Tag (cfg_OutboundConfigs cfg)"

definition rule_list :: "xconfig \<Rightarrow> fieldRule list" where
  "rule_list cfg = (case cfg_RouterConfig cfg of None \<Rightarrow> [] | Some r \<Rightarrow> rc_RuleList r)"

end
