(* ===== verification/Xray_Routing.thy ===== *)
theory Xray_Routing
  imports Routing Xray_Types
begin

text \<open>
  The routing section of an xray configuration, \<^verbatim>\<open>src/internal/xrayconfig/routing.go\<close>: the field rules a
  profile becomes, the outbounds those rules name, and the final rules of a tier's own direct outbound.

  How xray matches a field rule is xray's: it is the parameter \<open>applies\<close> of the theorems, with the
  documented contract \<open>xray_field_contract\<close> (the fields set in a rule must all match, one value of each
  is enough).
\<close>

section \<open>Rules\<close>

definition directTag :: string where "directTag = ''direct''"
definition blockTag :: string where "blockTag = ''block''"
definition ExitEchoTag :: string where "ExitEchoTag = ''exitecho''"
definition AppTrafficTag :: string where "AppTrafficTag = ''tun2socks''"
definition ForceProxyTag :: string where "ForceProxyTag = ''forceproxy''"

definition strategyAsIs :: string where "strategyAsIs = ''AsIs''"
definition strategyIPIfNonMatch :: string where "strategyIPIfNonMatch = ''IPIfNonMatch''"
definition strategyIPOnDemand :: string where "strategyIPOnDemand = ''IPOnDemand''"

record target =
  t_tag :: string
  t_isBalancer :: bool

definition apply_target :: "target \<Rightarrow> fieldRule \<Rightarrow> fieldRule" where
  "apply_target t r = (if t_isBalancer t then r\<lparr>fr_BalancerTag := t_tag t\<rparr>
                       else r\<lparr>fr_OutboundTag := t_tag t\<rparr>)"

definition xrayMatcher :: "Entry \<Rightarrow> string" where
  "xrayMatcher e = (case Kind e of
     KindGeoSite \<Rightarrow> ''geosite:'' @ Value e
   | KindGeoIP \<Rightarrow> ''geoip:'' @ Value e
   | KindDomainSuffix \<Rightarrow> ''domain:'' @ Value e
   | KindDomainFull \<Rightarrow> ''full:'' @ Value e
   | KindDomainRegex \<Rightarrow> ''regexp:'' @ Value e
   | KindDomainKeyword \<Rightarrow> Value e
   | KindIPCIDR \<Rightarrow> Value e
   | KindProcess \<Rightarrow> Value e)"

definition addMatcher :: "fieldRule \<Rightarrow> Entry \<Rightarrow> fieldRule \<times> bool" where
  "addMatcher r e =
     (let matcher = xrayMatcher e
      in if matcher = [] then (r, False)
         else if Kind e = KindProcess then (r\<lparr>fr_Process := fr_Process r @ [matcher]\<rparr>, True)
         else if ByAddress e then (r\<lparr>fr_IP := fr_IP r @ [matcher]\<rparr>, True)
         else (r\<lparr>fr_Domain := fr_Domain r @ [matcher]\<rparr>, True))"

text \<open>The loops \<^verbatim>\<open>matched = addMatcher(&r, e) || matched\<close> of \<^verbatim>\<open>stepRules\<close>.\<close>

fun add_matchers :: "Entry list \<Rightarrow> fieldRule \<times> bool \<Rightarrow> fieldRule \<times> bool" where
  "add_matchers [] (r, matched) = (r, matched)"
| "add_matchers (e # es) (r, matched) =
     (let (r', ok) = addMatcher r e in add_matchers es (r', ok \<or> matched))"

fun stepRules :: "Step list \<Rightarrow> string list \<Rightarrow> (Step \<Rightarrow> target) \<Rightarrow> fieldRule list" where
  "stepRules [] inbounds targetOf = []"
| "stepRules (step # steps) inbounds targetOf =
     (let (r1, matched) = add_matchers (Entries step) (no_rule\<lparr>fr_InboundTag := inbounds\<rparr>, False);
          (r2, also) = add_matchers (Also step) (r1, Also step = [])
      in if \<not> matched \<or> \<not> also then stepRules steps inbounds targetOf
         else apply_target (targetOf step) r2 # stepRules steps inbounds targetOf)"

definition blockSteps :: "Step list \<Rightarrow> Step list" where
  "blockSteps steps = filter (\<lambda>s. \<not> (STarget s \<noteq> TargetBlock \<or> Also s \<noteq> [])) steps"

definition isDirectAddress :: "Entry \<Rightarrow> bool" where
  "isDirectAddress e \<longleftrightarrow> ETarget e = TargetDirect \<and> ByAddress e"

text \<open>The first loop of \<^verbatim>\<open>directFinalRules\<close>: the addresses seen, and how many of them to keep.\<close>

fun collect_addresses :: "Entry list \<Rightarrow> Entry list \<times> nat \<Rightarrow> Entry list \<times> nat" where
  "collect_addresses [] (addresses, n) = (addresses, n)"
| "collect_addresses (e # es) (addresses, n) =
     (let addresses' = (if ByAddress e then addresses @ [e] else addresses);
          n' = (if isDirectAddress e then length addresses' else n)
      in collect_addresses es (addresses', n'))"

fun group_final :: "freedomFinalRule list \<Rightarrow> Entry list \<Rightarrow> freedomFinalRule list" where
  "group_final rules [] = rules"
| "group_final rules (e # es) =
     (let action = (if isDirectAddress e then ''allow'' else ''block'')
      in if rules \<noteq> [] \<and> ff_Action (last rules) = action
         then group_final (butlast rules @ [(last rules)\<lparr>ff_IP := ff_IP (last rules) @ [xrayMatcher e]\<rparr>]) es
         else group_final (rules @ [\<lparr>ff_Action = action, ff_IP = [xrayMatcher e], ff_BlockDelay = None\<rparr>]) es)"

definition directFinalRules :: "Entry list \<Rightarrow> freedomFinalRule list" where
  "directFinalRules entries =
     (let (addresses, n) = collect_addresses entries ([], 0) in group_final [] (take n addresses))"

definition anyDomain :: string where "anyDomain = ''regexp:.''"
definition anyIP :: "string list" where "anyIP = [''0.0.0.0/0'', ''::/0'']"

section \<open>Outbounds\<close>

definition NormalizeDomainStrategy :: "string \<Rightarrow> string \<times> bool" where
  "NormalizeDomainStrategy s =
     (let l = ToLower (TrimSpace s)
      in if l = [] then ([], True)
         else if l = ''asis'' then (strategyAsIs, True)
         else if l = ''ipifnonmatch'' then (strategyIPIfNonMatch, True)
         else if l = ''ipondemand'' then (strategyIPOnDemand, True)
         else ([], False))"

definition tiersHoldIPs :: "Tier list \<Rightarrow> bool" where
  "tiersHoldIPs tiers \<longleftrightarrow> (\<exists>t \<in> set tiers. \<exists>e \<in> set (tier_Entries t). ByAddress e)"

text \<open>
  \<^verbatim>\<open>hasProcessProxy\<close> ranges over the values of the map; the names the map can hold are those of the
  proxy lists.
\<close>

definition proxy_names :: "Profile \<Rightarrow> string list" where
  "proxy_names p = List.map_filter process_name (concat (map Proxy (Tiers p)))"

definition hasProcessProxy :: "Profile \<Rightarrow> bool" where
  "hasProcessProxy p \<longleftrightarrow> (\<exists>n \<in> set (proxy_names p). ProcessRules p n = Some TargetProxy)"

definition directOutbound :: "Profile \<Rightarrow> string \<Rightarrow> OutboundDetourConfig" where
  "directOutbound p tag = no_outbound\<lparr>
     ob_Protocol := ''freedom'', ob_Tag := tag,
     ob_SendThrough := (if DirectSendThrough p \<noteq> [] then Some (DirectSendThrough p) else None),
     ob_StreamSetting := Some (no_stream\<lparr>st_SocketSettings :=
        Some (no_socket\<lparr>so_DomainStrategy := ''UseIP'', so_Interface := DirectInterface p\<rparr>)\<rparr>)\<rparr>"

definition tierDirectTag :: "nat \<Rightarrow> string" where
  "tierDirectTag i = directTag @ ''-'' @ nat_digits i"

definition tierDirectOutbound :: "Profile \<Rightarrow> string \<Rightarrow> freedomFinalRule list \<Rightarrow> OutboundDetourConfig" where
  "tierDirectOutbound p tag rules = (directOutbound p tag)\<lparr>ob_Settings :=
     FinalRules (rules @ [\<lparr>ff_Action = ''block'', ff_IP = [], ff_BlockDelay = Some 0\<rparr>])\<rparr>"

definition hasOutbound :: "xconfig \<Rightarrow> string \<Rightarrow> bool" where
  "hasOutbound cfg tag \<longleftrightarrow> (\<exists>ob \<in> set (cfg_OutboundConfigs cfg). ob_Tag ob = tag)"

definition ensureOutbound :: "xconfig \<Rightarrow> string \<Rightarrow> OutboundDetourConfig \<Rightarrow> xconfig" where
  "ensureOutbound cfg tag ob =
     (if hasOutbound cfg tag then cfg
      else cfg\<lparr>cfg_OutboundConfigs := cfg_OutboundConfigs cfg @ [ob]\<rparr>)"

definition localNetworksOnceResolved :: "string list \<Rightarrow> string list" where
  "localNetworksOnceResolved resolveIP = (if resolveIP = [] then [] else LocalNetworkCIDRs)"

section \<open>applyRouting\<close>

text \<open>The rules ahead of the tiers: the two kill-switches, the exit echo, and the force-proxy flows.\<close>

definition direct_target :: target where "direct_target = \<lparr>t_tag = directTag, t_isBalancer = False\<rparr>"
definition block_target :: target where "block_target = \<lparr>t_tag = blockTag, t_isBalancer = False\<rparr>"

definition kill_rules :: "Profile \<Rightarrow> fieldRule list" where
  "kill_rules p =
     (if DisableIPv6 p then [apply_target block_target (no_rule\<lparr>fr_IP := [''::/0'']\<rparr>)] else [])
     @ (if DisableUDP p
        then [apply_target block_target (no_rule\<lparr>fr_Network := ''udp'', fr_Port := ''1-52,54-65535''\<rparr>)]
        else [])"

definition echo_rule :: "target \<Rightarrow> fieldRule" where
  "echo_rule proxy = apply_target proxy (no_rule\<lparr>fr_InboundTag := [ExitEchoTag]\<rparr>)"

definition force_rules :: "Profile \<Rightarrow> target \<Rightarrow> fieldRule list" where
  "force_rules p proxy =
     (if hasProcessProxy p then
        concat (map (\<lambda>t. stepRules (blockSteps (tier_Steps t)) [ForceProxyTag] (\<lambda>_. block_target)) (Tiers p))
        @ (if LocalNetworks p then
             [apply_target proxy (no_rule\<lparr>fr_InboundTag := [ForceProxyTag], fr_Domain := [anyDomain]\<rparr>),
              apply_target direct_target (no_rule\<lparr>fr_InboundTag := [ForceProxyTag], fr_IP := LocalNetworkCIDRs\<rparr>)]
           else [])
        @ [apply_target proxy (no_rule\<lparr>fr_InboundTag := [ForceProxyTag]\<rparr>)]
      else [])"

definition step_target :: "target \<Rightarrow> target \<Rightarrow> Step \<Rightarrow> target" where
  "step_target proxy directByIP step =
     (if STarget step = TargetBlock then block_target
      else if STarget step = TargetProxy then proxy
      else if ByAddress (hd (Entries step)) then directByIP
      else direct_target)"

definition needs_tier_direct :: "Profile \<Rightarrow> Entry list \<Rightarrow> bool" where
  "needs_tier_direct p entries \<longleftrightarrow>
     (\<exists>e \<in> set entries. isDirectAddress e) \<and> ResolvedMode p = ModeProxyAll"

definition tier_directByIP :: "Profile \<Rightarrow> nat \<Rightarrow> Tier \<Rightarrow> target" where
  "tier_directByIP p i t =
     (if needs_tier_direct p (tier_Entries t) then \<lparr>t_tag = tierDirectTag i, t_isBalancer = False\<rparr>
      else direct_target)"

fun tier_rules :: "Profile \<Rightarrow> target \<Rightarrow> nat \<Rightarrow> Tier list \<Rightarrow> xconfig \<Rightarrow> xconfig \<times> fieldRule list" where
  "tier_rules p proxy i [] cfg = (cfg, [])"
| "tier_rules p proxy i (t # ts) cfg =
     (let entries = tier_Entries t;
          directByIP = tier_directByIP p i t;
          cfg' = (if needs_tier_direct p entries
                  then ensureOutbound cfg (t_tag directByIP)
                         (tierDirectOutbound p (t_tag directByIP) (directFinalRules entries))
                  else cfg);
          (cfg'', rules) = tier_rules p proxy (Suc i) ts cfg'
      in (cfg'', stepRules (tier_Steps t) [] (step_target proxy directByIP) @ rules))"

definition appResolveIP :: "Profile \<Rightarrow> string list" where
  "appResolveIP p =
     (if fst (NormalizeDomainStrategy (DomainStrategy p)) = strategyIPIfNonMatch \<and> tiersHoldIPs (Tiers p)
      then anyIP else [])"

definition modeOutcome :: "Profile \<Rightarrow> target \<Rightarrow> target" where
  "modeOutcome p proxy = (if ResolvedMode p = ModeDirectAll then direct_target else proxy)"

definition final_rules :: "Profile \<Rightarrow> target \<Rightarrow> fieldRule list" where
  "final_rules p proxy =
     (if LocalNetworks p then
        [apply_target (modeOutcome p proxy)
           (no_rule\<lparr>fr_InboundTag := [AppTrafficTag], fr_Domain := [anyDomain],
                     fr_IP := localNetworksOnceResolved (appResolveIP p)\<rparr>),
         apply_target direct_target (no_rule\<lparr>fr_IP := LocalNetworkCIDRs\<rparr>)]
      else [])
     @ [apply_target (modeOutcome p proxy)
          (no_rule\<lparr>fr_InboundTag := [AppTrafficTag], fr_IP := appResolveIP p\<rparr>)]"

definition needDirect :: "Profile \<Rightarrow> bool" where
  "needDirect p \<longleftrightarrow> ResolvedMode p = ModeDirectAll \<or> LocalNetworks p \<or> HasDirect p"

definition needBlock :: "Profile \<Rightarrow> bool" where
  "needBlock p \<longleftrightarrow> HasBlock p \<or> DisableIPv6 p \<or> DisableUDP p"

definition applyRouting :: "Profile \<Rightarrow> xconfig \<Rightarrow> string \<Rightarrow> bool \<Rightarrow> xconfig" where
  "applyRouting p cfg proxyTag targetIsBalancer =
     (let proxy = \<lparr>t_tag = proxyTag, t_isBalancer = targetIsBalancer\<rparr>;
          cfg1 = (if needDirect p then ensureOutbound cfg directTag (directOutbound p directTag) else cfg);
          cfg2 = (if needBlock p
                  then ensureOutbound cfg1 blockTag (no_outbound\<lparr>ob_Protocol := ''blackhole'', ob_Tag := blockTag\<rparr>)
                  else cfg1);
          (cfg3, tierRules) = tier_rules p proxy 0 (Tiers p) cfg2;
          rules = kill_rules p @ [echo_rule proxy] @ force_rules p proxy @ tierRules @ final_rules p proxy;
          router = (case cfg_RouterConfig cfg3 of None \<Rightarrow> no_router | Some r \<Rightarrow> r);
          router' = router\<lparr>rc_RuleList := rules\<rparr>
      in cfg3\<lparr>cfg_RouterConfig := Some
           (if DomainStrategy p \<noteq> [] then router'\<lparr>rc_DomainStrategy := Some (DomainStrategy p)\<rparr> else router')\<rparr>)"

section \<open>How xray reads a rule\<close>

datatype field = FDomain | FIP | FProcess | FPort | FNetwork

text \<open>
  The contract of a field rule: \<open>applies\<close> says whether the rule takes the flow, \<open>hits f v\<close> whether the flow
  matches the value \<open>v\<close> of the field \<open>f\<close>, \<open>itag\<close> is the inbound the flow came in on. Every field that is
  set must match, and one of its values is enough.
\<close>

definition xray_field_contract ::
  "(fieldRule \<Rightarrow> bool) \<Rightarrow> string \<Rightarrow> (field \<Rightarrow> string \<Rightarrow> bool) \<Rightarrow> bool" where
  "xray_field_contract applies itag hits \<longleftrightarrow>
     (\<forall>r. applies r \<longleftrightarrow>
        (fr_InboundTag r = [] \<or> itag \<in> set (fr_InboundTag r))
        \<and> (fr_Domain r = [] \<or> (\<exists>v \<in> set (fr_Domain r). hits FDomain v))
        \<and> (fr_IP r = [] \<or> (\<exists>v \<in> set (fr_IP r). hits FIP v))
        \<and> (fr_Process r = [] \<or> (\<exists>v \<in> set (fr_Process r). hits FProcess v))
        \<and> (fr_Port r = [] \<or> hits FPort (fr_Port r))
        \<and> (fr_Network r = [] \<or> hits FNetwork (fr_Network r)))"

definition rule_target :: "fieldRule \<Rightarrow> target" where
  "rule_target r = (if fr_BalancerTag r \<noteq> [] then \<lparr>t_tag = fr_BalancerTag r, t_isBalancer = True\<rparr>
                    else \<lparr>t_tag = fr_OutboundTag r, t_isBalancer = False\<rparr>)"

text \<open>The rule list is first-match; \<open>None\<close> means the flow takes xray's default, the first outbound.\<close>

definition route :: "(fieldRule \<Rightarrow> bool) \<Rightarrow> fieldRule list \<Rightarrow> target option" where
  "route applies rules = first_match applies rule_target rules"

definition field_of :: "Entry \<Rightarrow> field" where
  "field_of e = (case entry_plane e of planeApp \<Rightarrow> FProcess | planeAddress \<Rightarrow> FIP | planeName \<Rightarrow> FDomain)"

definition entry_hits :: "(field \<Rightarrow> string \<Rightarrow> bool) \<Rightarrow> Entry \<Rightarrow> bool" where
  "entry_hits hits e = hits (field_of e) (xrayMatcher e)"

section \<open>What the profile means\<close>

text \<open>
  The priority the comment on \<^verbatim>\<open>Profile\<close> and in \<^verbatim>\<open>applyRouting\<close> lists, stated on the profile's entries. The
  per-app VPN flows are the ones with inbound \<^verbatim>\<open>ForceProxyTag\<close>.
\<close>

definition any_hit :: "(field \<Rightarrow> string \<Rightarrow> bool) \<Rightarrow> string list \<Rightarrow> bool" where
  "any_hit hits ips \<longleftrightarrow> (\<exists>v \<in> set ips. hits FIP v)"

definition kill_switch :: "Profile \<Rightarrow> (field \<Rightarrow> string \<Rightarrow> bool) \<Rightarrow> bool" where
  "kill_switch p hits \<longleftrightarrow> DisableIPv6 p \<and> hits FIP ''::/0''
     \<or> DisableUDP p \<and> hits FNetwork ''udp'' \<and> hits FPort ''1-52,54-65535''"

definition tiers_block :: "Profile \<Rightarrow> (field \<Rightarrow> string \<Rightarrow> bool) \<Rightarrow> bool" where
  "tiers_block p hits \<longleftrightarrow>
     (\<exists>t \<in> set (Tiers p). \<exists>e \<in> set (tier_Entries t). ETarget e = TargetBlock \<and> entry_hits hits e)"

definition force_policy :: "Profile \<Rightarrow> target \<Rightarrow> (field \<Rightarrow> string \<Rightarrow> bool) \<Rightarrow> target" where
  "force_policy p proxy hits =
     (if tiers_block p hits then block_target
      else if LocalNetworks p \<and> \<not> hits FDomain anyDomain \<and> any_hit hits LocalNetworkCIDRs
      then direct_target
      else proxy)"

definition entry_target :: "target \<Rightarrow> target \<Rightarrow> Entry \<Rightarrow> Target \<Rightarrow> target" where
  "entry_target proxy directByIP e t = (case t of
     TargetBlock \<Rightarrow> block_target
   | TargetProxy \<Rightarrow> proxy
   | TargetDirect \<Rightarrow> if ByAddress e then directByIP else direct_target)"

definition tier_policy :: "target \<Rightarrow> target \<Rightarrow> (Entry \<Rightarrow> bool) \<Rightarrow> Tier \<Rightarrow> target option" where
  "tier_policy proxy directByIP m t =
     map_option (\<lambda>e. entry_target proxy directByIP e (guarded_target m (tier_Entries t) e))
       (find m (tier_Entries t))"

fun tiers_policy :: "Profile \<Rightarrow> target \<Rightarrow> (Entry \<Rightarrow> bool) \<Rightarrow> nat \<Rightarrow> Tier list \<Rightarrow> target option" where
  "tiers_policy p proxy m i [] = None"
| "tiers_policy p proxy m i (t # ts) =
     or_else (tier_policy proxy (tier_directByIP p i t) m t) (tiers_policy p proxy m (Suc i) ts)"

definition unlisted_policy :: "Profile \<Rightarrow> target \<Rightarrow> string \<Rightarrow> (field \<Rightarrow> string \<Rightarrow> bool) \<Rightarrow> target option" where
  "unlisted_policy p proxy itag hits =
     (let waits = appResolveIP p \<noteq> [];
          app = (itag = AppTrafficTag);
          name = hits FDomain anyDomain;
          local = any_hit hits LocalNetworkCIDRs
      in if LocalNetworks p \<and> app \<and> name \<and> (\<not> waits \<or> local) then Some (modeOutcome p proxy)
         else if LocalNetworks p \<and> local then Some direct_target
         else if app \<and> (\<not> waits \<or> any_hit hits anyIP) then Some (modeOutcome p proxy)
         else None)"

definition profile_policy :: "Profile \<Rightarrow> target \<Rightarrow> string \<Rightarrow> (field \<Rightarrow> string \<Rightarrow> bool) \<Rightarrow> target option" where
  "profile_policy p proxy itag hits =
     (if kill_switch p hits then Some block_target
      else if itag = ExitEchoTag then Some proxy
      else if itag = ForceProxyTag \<and> hasProcessProxy p then Some (force_policy p proxy hits)
      else or_else (tiers_policy p proxy (entry_hits hits) 0 (Tiers p)) (unlisted_policy p proxy itag hits))"

section \<open>The rules implement the profile\<close>

lemma rule_target_apply [simp]:
  "t_tag t \<noteq> [] \<Longrightarrow> fr_BalancerTag r = [] \<Longrightarrow> rule_target (apply_target t r) = t"
  by (simp add: rule_target_def apply_target_def)

lemma apply_target_fields [simp]:
  "fr_InboundTag (apply_target t r) = fr_InboundTag r" "fr_Domain (apply_target t r) = fr_Domain r"
  "fr_IP (apply_target t r) = fr_IP r" "fr_Process (apply_target t r) = fr_Process r"
  "fr_Port (apply_target t r) = fr_Port r" "fr_Network (apply_target t r) = fr_Network r"
  by (simp_all add: apply_target_def)

lemma no_rule_fields [simp]:
  "fr_OutboundTag no_rule = []" "fr_BalancerTag no_rule = []" "fr_InboundTag no_rule = []"
  "fr_Domain no_rule = []" "fr_IP no_rule = []" "fr_Process no_rule = []" "fr_Port no_rule = []"
  "fr_Network no_rule = []"
  by (simp_all add: no_rule_def)

lemma fixed_targets [simp]:
  "t_tag direct_target \<noteq> []" "t_tag block_target \<noteq> []" "tierDirectTag i \<noteq> []"
  "t_isBalancer direct_target = False" "t_isBalancer block_target = False"
  by (simp_all add: direct_target_def block_target_def directTag_def blockTag_def tierDirectTag_def)

lemma xrayMatcher_nonempty [simp]: "Value e \<noteq> [] \<Longrightarrow> xrayMatcher e \<noteq> []"
  by (simp add: xrayMatcher_def split: MatchKind.split)

lemma plane_fields:
  "entry_plane e = planeApp \<longleftrightarrow> Kind e = KindProcess"
  "entry_plane e = planeAddress \<longleftrightarrow> ByAddress e"
  by (auto simp: entry_plane_def ByAddress_def)

definition plane_values :: "plane \<Rightarrow> Entry list \<Rightarrow> string list" where
  "plane_values p es = map xrayMatcher (filter (\<lambda>e. entry_plane e = p) es)"

lemma addMatcher_plane:
  assumes "Value e \<noteq> []"
  shows "addMatcher r e = (case entry_plane e of
           planeApp \<Rightarrow> r\<lparr>fr_Process := fr_Process r @ [xrayMatcher e]\<rparr>
         | planeAddress \<Rightarrow> r\<lparr>fr_IP := fr_IP r @ [xrayMatcher e]\<rparr>
         | planeName \<Rightarrow> r\<lparr>fr_Domain := fr_Domain r @ [xrayMatcher e]\<rparr>, True)"
  using assms by (simp add: addMatcher_def Let_def entry_plane_def)

lemma plane_values_simps [simp]:
  "plane_values p [] = []"
  "plane_values p (e # es) = (if entry_plane e = p then [xrayMatcher e] else []) @ plane_values p es"
  by (simp_all add: plane_values_def)

lemma add_matchers_fields:
  "\<forall>e \<in> set es. Value e \<noteq> [] \<Longrightarrow>
   add_matchers es (r, b) =
   (r\<lparr>fr_Process := fr_Process r @ plane_values planeApp es,
      fr_IP := fr_IP r @ plane_values planeAddress es,
      fr_Domain := fr_Domain r @ plane_values planeName es\<rparr>, b \<or> es \<noteq> [])"
proof (induction es arbitrary: r b)
  case Nil
  then show ?case by simp
next
  case (Cons e es)
  then show ?case
    by (cases "entry_plane e") (simp_all add: addMatcher_plane)
qed

text \<open>The rule of a step and when it applies.\<close>

definition step_rule :: "string list \<Rightarrow> (Step \<Rightarrow> target) \<Rightarrow> Step \<Rightarrow> fieldRule" where
  "step_rule inbounds targetOf step = apply_target (targetOf step)
     (no_rule\<lparr>fr_InboundTag := inbounds,
        fr_Process := plane_values planeApp (Entries step @ Also step),
        fr_IP := plane_values planeAddress (Entries step @ Also step),
        fr_Domain := plane_values planeName (Entries step @ Also step)\<rparr>)"

lemma plane_values_append [simp]: "plane_values p (xs @ ys) = plane_values p xs @ plane_values p ys"
  by (simp add: plane_values_def)

lemma stepRules_map:
  assumes "\<forall>s \<in> set steps. Entries s \<noteq> [] \<and> (\<forall>e \<in> set (Entries s @ Also s). Value e \<noteq> [])"
  shows "stepRules steps inbounds targetOf = map (step_rule inbounds targetOf) steps"
  using assms
proof (induction steps)
  case Nil
  then show ?case by simp
next
  case (Cons s ss)
  then have "\<forall>e \<in> set (Entries s). Value e \<noteq> []" "\<forall>e \<in> set (Also s). Value e \<noteq> []" "Entries s \<noteq> []"
    by auto
  with Cons show ?case
    by (simp add: add_matchers_fields step_rule_def)
qed

lemma plane_values_same:
  "\<forall>e \<in> set es. entry_plane e = q \<Longrightarrow> plane_values p es = (if p = q then map xrayMatcher es else [])"
  by (induction es) auto

lemma any_hit_plane:
  "\<forall>e \<in> set es. entry_plane e = p \<Longrightarrow>
   (\<exists>v \<in> set (map xrayMatcher es). hits (case p of planeApp \<Rightarrow> FProcess | planeAddress \<Rightarrow> FIP | planeName \<Rightarrow> FDomain) v)
   \<longleftrightarrow> (\<exists>e \<in> set es. entry_hits hits e)"
  by (auto simp: entry_hits_def field_of_def)

lemma contract_applies:
  "xray_field_contract applies itag hits \<Longrightarrow>
   applies r \<longleftrightarrow>
     (fr_InboundTag r = [] \<or> itag \<in> set (fr_InboundTag r))
     \<and> (fr_Domain r = [] \<or> (\<exists>v \<in> set (fr_Domain r). hits FDomain v))
     \<and> (fr_IP r = [] \<or> (\<exists>v \<in> set (fr_IP r). hits FIP v))
     \<and> (fr_Process r = [] \<or> (\<exists>v \<in> set (fr_Process r). hits FProcess v))
     \<and> (fr_Port r = [] \<or> hits FPort (fr_Port r))
     \<and> (fr_Network r = [] \<or> hits FNetwork (fr_Network r))"
  by (simp add: xray_field_contract_def)

lemma step_rule_applies:
  assumes "xray_field_contract applies itag hits" "step_ok all s"
  shows "applies (step_rule inbounds targetOf s) \<longleftrightarrow>
         (inbounds = [] \<or> itag \<in> set inbounds) \<and> step_matches (entry_hits hits) s"
proof -
  define p where "p = entry_plane (hd (Entries s))"
  have ne: "Entries s \<noteq> []" and E: "\<forall>e \<in> set (Entries s). entry_plane e = p"
    and A: "\<forall>e \<in> set (Also s). other_plane p = Some (entry_plane e)"
    using assms(2) unfolding step_ok_def p_def by blast+
  define p' where "p' = the (other_plane p)"
  have A': "\<forall>e \<in> set (Also s). entry_plane e = p'"
    using A by (simp add: p'_def)
  have pp': "Also s = [] \<or> other_plane p = Some p'"
    using A by (cases "Also s") (simp_all add: p'_def)
  note vals = plane_values_same [OF E] plane_values_same [OF A']
  have hits: "(\<exists>e \<in> set (Entries s). entry_hits hits e) \<longleftrightarrow> (\<exists>v \<in> set (map xrayMatcher (Entries s)).
      hits (case p of planeApp \<Rightarrow> FProcess | planeAddress \<Rightarrow> FIP | planeName \<Rightarrow> FDomain) v)"
    "(\<exists>e \<in> set (Also s). entry_hits hits e) \<longleftrightarrow> (\<exists>v \<in> set (map xrayMatcher (Also s)).
      hits (case p' of planeApp \<Rightarrow> FProcess | planeAddress \<Rightarrow> FIP | planeName \<Rightarrow> FDomain) v)"
    by (simp_all only: any_hit_plane [OF E] any_hit_plane [OF A'])
  show ?thesis
  proof (cases "Also s = []")
    case True
    then show ?thesis
      unfolding contract_applies [OF assms(1)] step_matches_def hits
      using ne by (cases p) (simp_all add: step_rule_def vals)
  next
    case False
    then show ?thesis
      unfolding contract_applies [OF assms(1)] step_matches_def hits
      using ne pp' by (cases p) (auto simp add: step_rule_def vals)
  qed
qed

lemma route_append [simp]: "route applies (xs @ ys) = or_else (route applies xs) (route applies ys)"
  by (simp add: route_def)

lemma route_Nil [simp]: "route applies [] = None"
  by (simp add: route_def)

lemma route_Cons [simp]:
  "route applies (r # rs) = (if applies r then Some (rule_target r) else route applies rs)"
  by (simp add: route_def)

lemma tier_stepRules:
  assumes "set steps \<subseteq> set (tier_Steps t)"
  shows "stepRules steps inbounds targetOf = map (step_rule inbounds targetOf) steps"
proof (rule stepRules_map, intro ballI conjI)
  fix s assume "s \<in> set steps"
  then have ok: "step_ok (tier_Entries t) s"
    using assms tier_Steps_ok by blast
  then show "Entries s \<noteq> []"
    by (simp add: step_ok_def)
  fix e assume "e \<in> set (Entries s @ Also s)"
  with ok have "e \<in> set (tier_Entries t)"
    unfolding step_ok_def by auto
  then show "Value e \<noteq> []"
    by (rule tier_Entries_nonempty)
qed

lemma rule_target_step:
  "t_tag (targetOf s) \<noteq> [] \<Longrightarrow> rule_target (step_rule inbounds targetOf s) = targetOf s"
  by (simp add: step_rule_def)

lemma step_target_nonempty:
  "t_tag proxy \<noteq> [] \<Longrightarrow> t_tag d \<noteq> [] \<Longrightarrow> t_tag (step_target proxy d s) \<noteq> []"
  by (simp add: step_target_def)

definition plane_target :: "target \<Rightarrow> target \<Rightarrow> Target \<times> plane \<Rightarrow> target" where
  "plane_target proxy d tp = (case fst tp of TargetBlock \<Rightarrow> block_target | TargetProxy \<Rightarrow> proxy
     | TargetDirect \<Rightarrow> if snd tp = planeAddress then d else direct_target)"

lemma step_target_plane:
  "step_target proxy d = (\<lambda>s. plane_target proxy d (STarget s, entry_plane (hd (Entries s))))"
proof
  fix s show "step_target proxy d s = plane_target proxy d (STarget s, entry_plane (hd (Entries s)))"
    by (cases "STarget s") (simp_all add: step_target_def plane_target_def plane_fields)
qed

lemma plane_target_entry: "plane_target proxy d (t, entry_plane e) = entry_target proxy d e t"
  by (cases t) (simp_all add: plane_target_def entry_target_def plane_fields)

lemma tier_route:
  assumes "xray_field_contract applies itag hits" "t_tag proxy \<noteq> []" "t_tag d \<noteq> []"
  shows "route applies (stepRules (tier_Steps t) [] (step_target proxy d)) =
         tier_policy proxy d (entry_hits hits) t"
proof -
  let ?m = "entry_hits hits"
  have "route applies (stepRules (tier_Steps t) [] (step_target proxy d)) =
        first_match (step_matches ?m) (step_target proxy d) (tier_Steps t)"
    unfolding tier_stepRules [OF subset_refl] route_def first_match_map
    using step_rule_applies [OF assms(1) tier_Steps_ok] step_target_nonempty [OF assms(2,3)]
    by (intro first_match_cong) (simp_all add: rule_target_step)
  also have "\<dots> = map_option (plane_target proxy d)
      (map_option (\<lambda>e. (guarded_target ?m (tier_Entries t) e, entry_plane e)) (find ?m (tier_Entries t)))"
    by (simp only: step_target_plane first_match_comp [where g = "plane_target proxy d"]
        tier_Steps_outcome_plane)
  also have "\<dots> = tier_policy proxy d ?m t"
    by (simp add: tier_policy_def option.map_comp comp_def plane_target_entry)
  finally show ?thesis .
qed

lemma tier_directByIP_nonempty [simp]: "t_tag (tier_directByIP p i t) \<noteq> []"
  by (simp add: tier_directByIP_def)

lemma tiers_route:
  assumes "xray_field_contract applies itag hits" "t_tag proxy \<noteq> []"
  shows "route applies (snd (tier_rules p proxy i ts cfg)) = tiers_policy p proxy (entry_hits hits) i ts"
  by (induction ts arbitrary: i cfg)
    (simp_all add: Let_def case_prod_unfold tier_route [OF assms])

lemma block_steps_hit:
  "(\<exists>s \<in> set (blockSteps (tier_Steps t)). step_matches m s) \<longleftrightarrow>
   (\<exists>e \<in> set (tier_Entries t). ETarget e = TargetBlock \<and> m e)"
  using tier_block_steps [of t m] by (auto simp: blockSteps_def)

lemma force_block_route:
  assumes "xray_field_contract applies itag hits"
  shows "route applies (stepRules (blockSteps (tier_Steps t)) [ForceProxyTag] (\<lambda>_. block_target)) =
         (if itag = ForceProxyTag \<and> (\<exists>e \<in> set (tier_Entries t). ETarget e = TargetBlock \<and> entry_hits hits e)
          then Some block_target else None)"
proof -
  have sub: "set (blockSteps (tier_Steps t)) \<subseteq> set (tier_Steps t)"
    by (auto simp: blockSteps_def)
  have ok: "step_ok (tier_Entries t) s" if "s \<in> set (blockSteps (tier_Steps t))" for s
    using that sub tier_Steps_ok by blast
  have "route applies (stepRules (blockSteps (tier_Steps t)) [ForceProxyTag] (\<lambda>_. block_target)) =
        first_match (\<lambda>s. itag = ForceProxyTag \<and> step_matches (entry_hits hits) s) (\<lambda>_. block_target)
          (blockSteps (tier_Steps t))"
    unfolding tier_stepRules [OF sub] route_def first_match_map
    by (intro first_match_cong) (simp_all add: rule_target_step step_rule_applies [OF assms ok])
  then show ?thesis
    by (simp add: first_match_const flip: block_steps_hit)
qed

lemma force_blocks_route:
  assumes "xray_field_contract applies itag hits"
  shows "route applies (concat (map (\<lambda>t. stepRules (blockSteps (tier_Steps t)) [ForceProxyTag] (\<lambda>_. block_target)) ts)) =
         (if itag = ForceProxyTag \<and>
             (\<exists>t \<in> set ts. \<exists>e \<in> set (tier_Entries t). ETarget e = TargetBlock \<and> entry_hits hits e)
          then Some block_target else None)"
  by (induction ts) (simp_all add: force_block_route [OF assms])

lemma kill_route:
  assumes "xray_field_contract applies itag hits"
  shows "route applies (kill_rules p) = (if kill_switch p hits then Some block_target else None)"
  by (simp add: kill_rules_def kill_switch_def contract_applies [OF assms])

lemma LocalNetworkCIDRs_nonempty [simp]: "LocalNetworkCIDRs \<noteq> []"
  by (simp add: LocalNetworkCIDRs_def)

lemma force_route:
  assumes "xray_field_contract applies itag hits" "t_tag proxy \<noteq> []"
  shows "route applies (force_rules p proxy) =
         (if itag = ForceProxyTag \<and> hasProcessProxy p then Some (force_policy p proxy hits) else None)"
  unfolding force_rules_def force_policy_def route_append if_distrib [of "route applies"]
    force_blocks_route [OF assms(1)] tiers_block_def [symmetric]
  using assms(2) by (simp add: any_hit_def contract_applies [OF assms(1)])

lemma modeOutcome_nonempty: "t_tag proxy \<noteq> [] \<Longrightarrow> t_tag (modeOutcome p proxy) \<noteq> []"
  by (simp add: modeOutcome_def)

lemma final_route:
  assumes "xray_field_contract applies itag hits" "t_tag proxy \<noteq> []"
  shows "route applies (final_rules p proxy) = unlisted_policy p proxy itag hits"
proof -
  have "appResolveIP p = [] \<or> appResolveIP p = anyIP \<and> anyIP \<noteq> []"
    by (simp add: appResolveIP_def anyIP_def)
  then show ?thesis
    using modeOutcome_nonempty [OF assms(2), of p]
    by (auto simp: final_rules_def unlisted_policy_def Let_def contract_applies [OF assms(1)] any_hit_def
        localNetworksOnceResolved_def)
qed

lemma rule_list_applyRouting:
  "rule_list (applyRouting p cfg tag bal) =
   (let proxy = \<lparr>t_tag = tag, t_isBalancer = bal\<rparr>
    in kill_rules p @ [echo_rule proxy] @ force_rules p proxy
       @ snd (tier_rules p proxy 0 (Tiers p)
           (let cfg1 = (if needDirect p then ensureOutbound cfg directTag (directOutbound p directTag) else cfg)
            in if needBlock p
               then ensureOutbound cfg1 blockTag (no_outbound\<lparr>ob_Protocol := ''blackhole'', ob_Tag := blockTag\<rparr>)
               else cfg1))
       @ final_rules p proxy)"
  by (simp add: applyRouting_def Let_def rule_list_def case_prod_unfold)

lemma applyRouting_policy:
  assumes "xray_field_contract applies itag hits" and "proxyTag \<noteq> []"
  shows "route applies (rule_list (applyRouting p cfg proxyTag bal)) =
         profile_policy p \<lparr>t_tag = proxyTag, t_isBalancer = bal\<rparr> itag hits"
proof -
  let ?proxy = "\<lparr>t_tag = proxyTag, t_isBalancer = bal\<rparr>"
  have tag: "t_tag ?proxy \<noteq> []" using assms(2) by simp
  have echo: "applies (echo_rule ?proxy) \<longleftrightarrow> itag = ExitEchoTag" "rule_target (echo_rule ?proxy) = ?proxy"
    using assms(2) by (simp_all add: echo_rule_def contract_applies [OF assms(1)])
  show ?thesis
    unfolding rule_list_applyRouting Let_def route_append kill_route [OF assms(1)] route_Cons route_Nil echo
      force_route [OF assms(1) tag] tiers_route [OF assms(1) tag] final_route [OF assms(1) tag]
      profile_policy_def
    by simp
qed

text \<open>
  C2. The xray rules built from a profile decide every flow as the profile's documented priority says:
  kill-switches, then the exit echo to the proxy, then the per-app VPN flows (every tier's block, the local
  networks by address, else the proxy), then the tiers in order with a tier's own direct outbound for its
  address entries, then the local networks and the mode's outcome. This holds for every flow, as xray's
  matchers see it before or after a name is resolved.
\<close>

theorem applyRouting_implements_profile:
  assumes "xray_field_contract applies itag hits" and "proxyTag \<noteq> []"
  shows "route applies (rule_list (applyRouting p cfg proxyTag bal)) =
         profile_policy p \<lparr>t_tag = proxyTag, t_isBalancer = bal\<rparr> itag hits"
  by (rule applyRouting_policy [OF assms])

text \<open>A matcher that meets the contract: xray's documented reading of a field rule.\<close>

definition field_match :: "string \<Rightarrow> (field \<Rightarrow> string \<Rightarrow> bool) \<Rightarrow> fieldRule \<Rightarrow> bool" where
  "field_match itag hits r \<longleftrightarrow>
     (fr_InboundTag r = [] \<or> itag \<in> set (fr_InboundTag r))
     \<and> (fr_Domain r = [] \<or> (\<exists>v \<in> set (fr_Domain r). hits FDomain v))
     \<and> (fr_IP r = [] \<or> (\<exists>v \<in> set (fr_IP r). hits FIP v))
     \<and> (fr_Process r = [] \<or> (\<exists>v \<in> set (fr_Process r). hits FProcess v))
     \<and> (fr_Port r = [] \<or> hits FPort (fr_Port r))
     \<and> (fr_Network r = [] \<or> hits FNetwork (fr_Network r))"

lemma field_match_contract: "xray_field_contract (field_match itag hits) itag hits"
  by (simp add: xray_field_contract_def field_match_def)

definition example_profile :: Profile where
  "example_profile = \<lparr>Mode = ''proxy-all'',
     Tiers = [\<lparr>Block = [''domain:example.com'', ''geosite:ads''],
               Direct = [''full:www.example.com'', ''203.0.113.0/24''], Proxy = [''process:game'']\<rparr>],
     DomainStrategy = ''IPIfNonMatch'', LocalNetworks = True, DirectSendThrough = [], DirectInterface = [],
     DisableIPv6 = True, DisableUDP = False\<rparr>"

text \<open>A flow to an address of the direct entry, with no name.\<close>

definition example_hits :: "field \<Rightarrow> string \<Rightarrow> bool" where
  "example_hits f v \<longleftrightarrow> f = FIP \<and> (v = ''203.0.113.0/24'' \<or> v = ''0.0.0.0/0'')"

theorem applyRouting_implements_profile_witness:
  "route (field_match AppTrafficTag example_hits)
     (rule_list (applyRouting example_profile (new_config ''error'') ''proxy'' False)) =
   Some \<lparr>t_tag = ''direct-0'', t_isBalancer = False\<rparr>"
proof -
  have "profile_policy example_profile \<lparr>t_tag = ''proxy'', t_isBalancer = False\<rparr> AppTrafficTag example_hits =
        Some \<lparr>t_tag = ''direct-0'', t_isBalancer = False\<rparr>"
    by code_simp
  then show ?thesis
    using applyRouting_implements_profile [OF field_match_contract, of "''proxy''" AppTrafficTag example_hits
        example_profile "new_config ''error''" False] by simp
qed

section \<open>Every rule has a target that exists\<close>

lemma hasOutbound_ensure [simp]:
  "ob_Tag ob = tag \<Longrightarrow> hasOutbound (ensureOutbound cfg tag ob) x \<longleftrightarrow> hasOutbound cfg x \<or> x = tag"
  by (auto simp: hasOutbound_def ensureOutbound_def)

lemma direct_tags [simp]:
  "ob_Tag (directOutbound p tag) = tag" "ob_Tag (tierDirectOutbound p tag rules) = tag"
  by (simp_all add: directOutbound_def tierDirectOutbound_def)

lemma tier_rules_keep: "hasOutbound cfg x \<Longrightarrow> hasOutbound (fst (tier_rules p proxy i ts cfg)) x"
  by (induction ts arbitrary: i cfg) (simp_all add: Let_def case_prod_unfold)

text \<open>What xray asks of a rule: an effective field, and a target that names something.\<close>

definition effective :: "fieldRule \<Rightarrow> bool" where
  "effective r \<longleftrightarrow> fr_InboundTag r \<noteq> [] \<or> fr_Domain r \<noteq> [] \<or> fr_IP r \<noteq> [] \<or> fr_Process r \<noteq> []
     \<or> fr_Port r \<noteq> [] \<or> fr_Network r \<noteq> []"

definition rule_ok :: "target \<Rightarrow> xconfig \<Rightarrow> fieldRule \<Rightarrow> bool" where
  "rule_ok proxy cfg r \<longleftrightarrow> effective r \<and>
     (rule_target r = proxy \<or> \<not> t_isBalancer (rule_target r) \<and> hasOutbound cfg (t_tag (rule_target r)))"

definition reaches :: "target \<Rightarrow> xconfig \<Rightarrow> target \<Rightarrow> bool" where
  "reaches proxy cfg t \<longleftrightarrow> t_tag t \<noteq> [] \<and> (t = proxy \<or> \<not> t_isBalancer t \<and> hasOutbound cfg (t_tag t))"

lemma rule_ok_apply:
  "reaches proxy cfg t \<Longrightarrow> effective r \<Longrightarrow> fr_BalancerTag r = [] \<Longrightarrow> rule_ok proxy cfg (apply_target t r)"
  by (auto simp: rule_ok_def reaches_def effective_def)

lemma reaches_tier_rules:
  "reaches proxy cfg t \<Longrightarrow> reaches proxy (fst (tier_rules p proxy' i ts cfg)) t"
  by (auto simp: reaches_def tier_rules_keep)

lemma step_rule_ok:
  assumes "reaches proxy cfg (targetOf s)" "step_ok all s"
  shows "rule_ok proxy cfg (step_rule inbounds targetOf s)"
proof -
  obtain e es where "Entries s = e # es"
    using assms(2) by (cases "Entries s") (simp_all add: step_ok_def)
  then show ?thesis
    unfolding step_rule_def
    by (intro rule_ok_apply [OF assms(1)]; cases "entry_plane e") (simp_all add: effective_def)
qed

lemma step_target_reaches:
  assumes "t_tag proxy \<noteq> []" and "Block t \<noteq> [] \<Longrightarrow> reaches proxy cfg block_target"
    and "Direct t \<noteq> [] \<Longrightarrow> reaches proxy cfg direct_target"
    and "\<exists>e \<in> set (tier_Entries t). isDirectAddress e \<Longrightarrow> reaches proxy cfg d"
    and s: "s \<in> set (tier_Steps t)"
  shows "reaches proxy cfg (step_target proxy d s)"
proof -
  have hd: "hd (Entries s) \<in> set (tier_Entries t)"
    using tier_Steps_ok [OF s] hd_in_set unfolding step_ok_def by blast
  show ?thesis
  proof (cases "STarget s")
    case TargetProxy
    then show ?thesis
      using assms(1) by (simp add: step_target_def reaches_def)
  next
    case TargetDirect
    then have target: "ETarget (hd (Entries s)) = TargetDirect"
      using tier_Steps_targets [OF s] by auto
    then show ?thesis
      using TargetDirect assms(3,4) hd tier_Entries_lists(2) [OF hd]
      by (auto simp: step_target_def isDirectAddress_def)
  next
    case TargetBlock
    then have "Block t \<noteq> []"
      using tier_Steps_targets [OF s] hd tier_Entries_lists(1) by metis
    with assms(2) TargetBlock show ?thesis by (simp add: step_target_def)
  qed
qed

lemma tier_rules_ok:
  assumes "t_tag proxy \<noteq> []" and "\<forall>t \<in> set ts. Block t \<noteq> [] \<longrightarrow> reaches proxy cfg block_target"
    and "\<forall>t \<in> set ts. Direct t \<noteq> [] \<longrightarrow> reaches proxy cfg direct_target"
  shows "\<forall>r \<in> set (snd (tier_rules p proxy i ts cfg)). rule_ok proxy (fst (tier_rules p proxy i ts cfg)) r"
  using assms(2,3)
proof (induction ts arbitrary: i cfg)
  case Nil
  then show ?case by simp
next
  case (Cons t ts)
  define d where "d = tier_directByIP p i t"
  define cfg' where "cfg' = (if needs_tier_direct p (tier_Entries t)
    then ensureOutbound cfg (t_tag d) (tierDirectOutbound p (t_tag d) (directFinalRules (tier_Entries t)))
    else cfg)"
  have mono: "reaches proxy cfg x \<Longrightarrow> reaches proxy cfg' x" for x
    by (auto simp: reaches_def cfg'_def)
  have d: "reaches proxy cfg' d" if e: "\<exists>e \<in> set (tier_Entries t). isDirectAddress e"
  proof (cases "needs_tier_direct p (tier_Entries t)")
    case True
    then show ?thesis
      by (simp add: reaches_def cfg'_def d_def tier_directByIP_def)
  next
    case False
    from e have "Direct t \<noteq> []"
      using tier_Entries_lists(2) by (auto simp: isDirectAddress_def)
    with False Cons.prems(2) mono show ?thesis by (simp add: d_def tier_directByIP_def)
  qed
  have head: "\<forall>r \<in> set (stepRules (tier_Steps t) [] (step_target proxy d)). rule_ok proxy
      (fst (tier_rules p proxy (Suc i) ts cfg')) r"
  proof
    fix r assume "r \<in> set (stepRules (tier_Steps t) [] (step_target proxy d))"
    then obtain s where s: "s \<in> set (tier_Steps t)" and r: "r = step_rule [] (step_target proxy d) s"
      unfolding tier_stepRules [OF subset_refl] by auto
    have "reaches proxy cfg' (step_target proxy d s)"
      using Cons.prems mono d by (intro step_target_reaches [OF assms(1) _ _ _ s]) auto
    then show "rule_ok proxy (fst (tier_rules p proxy (Suc i) ts cfg')) r"
      unfolding r by (intro step_rule_ok [OF reaches_tier_rules tier_Steps_ok [OF s]])
  qed
  have tail: "\<forall>r \<in> set (snd (tier_rules p proxy (Suc i) ts cfg')).
      rule_ok proxy (fst (tier_rules p proxy (Suc i) ts cfg')) r"
    using Cons.prems mono by (intro Cons.IH) auto
  have eq: "tier_rules p proxy i (t # ts) cfg =
      (fst (tier_rules p proxy (Suc i) ts cfg'),
       stepRules (tier_Steps t) [] (step_target proxy d) @ snd (tier_rules p proxy (Suc i) ts cfg'))"
    by (simp add: Let_def case_prod_unfold d_def cfg'_def)
  show ?case
    unfolding eq using head tail by auto
qed

lemma force_rules_ok:
  assumes "t_tag proxy \<noteq> []" "HasBlock p \<Longrightarrow> reaches proxy cfg block_target"
    "LocalNetworks p \<Longrightarrow> reaches proxy cfg direct_target" "r \<in> set (force_rules p proxy)"
  shows "rule_ok proxy cfg r"
proof -
  have proxy: "reaches proxy cfg proxy" using assms(1) by (simp add: reaches_def)
  consider (block) t s where "t \<in> set (Tiers p)" "s \<in> set (blockSteps (tier_Steps t))"
      "r = step_rule [ForceProxyTag] (\<lambda>_. block_target) s"
    | (name) "r = apply_target proxy (no_rule\<lparr>fr_InboundTag := [ForceProxyTag], fr_Domain := [anyDomain]\<rparr>)"
    | (lan) "LocalNetworks p" "r = apply_target direct_target
        (no_rule\<lparr>fr_InboundTag := [ForceProxyTag], fr_IP := LocalNetworkCIDRs\<rparr>)"
    | (rest) "r = apply_target proxy (no_rule\<lparr>fr_InboundTag := [ForceProxyTag]\<rparr>)"
    using assms(4) tier_stepRules [of "blockSteps (tier_Steps t)" t for t]
    by (auto simp: force_rules_def blockSteps_def split: if_splits)
  then show ?thesis
  proof cases
    case block
    then have s: "s \<in> set (tier_Steps t)" "STarget s = TargetBlock"
      by (auto simp: blockSteps_def)
    then have "\<exists>e \<in> set (tier_Entries t). ETarget e = TargetBlock"
      using tier_Steps_targets [OF s(1)] tier_Steps_ok [OF s(1)] hd_in_set
      unfolding step_ok_def by (metis subsetD)
    then have "HasBlock p"
      using block(1) tier_Entries_lists(1) by (auto simp: HasBlock_def)
    with assms(2) show ?thesis
      unfolding block(3) by (intro step_rule_ok [OF _ tier_Steps_ok [OF s(1)]]) simp
  qed (use proxy assms(3) in \<open>auto intro!: rule_ok_apply simp: effective_def\<close>)
qed

lemma final_rules_ok:
  assumes "t_tag proxy \<noteq> []" "needDirect p \<Longrightarrow> reaches proxy cfg direct_target" "r \<in> set (final_rules p proxy)"
  shows "rule_ok proxy cfg r"
proof -
  have "reaches proxy cfg (modeOutcome p proxy)" "LocalNetworks p \<Longrightarrow> reaches proxy cfg direct_target"
    using assms(1,2) by (auto simp: modeOutcome_def reaches_def needDirect_def)
  with assms(3) show ?thesis
    by (auto simp: final_rules_def effective_def intro!: rule_ok_apply split: if_splits)
qed

lemma kill_rules_ok:
  "needBlock p \<Longrightarrow> reaches proxy cfg block_target \<Longrightarrow> r \<in> set (kill_rules p) \<Longrightarrow> rule_ok proxy cfg r"
  by (auto simp: kill_rules_def effective_def intro!: rule_ok_apply split: if_splits)

definition fixed_outbounds :: "Profile \<Rightarrow> xconfig \<Rightarrow> xconfig" where
  "fixed_outbounds p cfg =
     (let cfg1 = (if needDirect p then ensureOutbound cfg directTag (directOutbound p directTag) else cfg)
      in if needBlock p
         then ensureOutbound cfg1 blockTag (no_outbound\<lparr>ob_Protocol := ''blackhole'', ob_Tag := blockTag\<rparr>) else cfg1)"

lemma fixed_outbounds_reaches:
  "needDirect p \<Longrightarrow> reaches proxy (fixed_outbounds p cfg) direct_target"
  "needBlock p \<Longrightarrow> reaches proxy (fixed_outbounds p cfg) block_target"
  by (simp_all add: reaches_def fixed_outbounds_def direct_target_def directTag_def block_target_def blockTag_def Let_def)

lemma applyRouting_parts:
  fixes proxyTag bal
  defines "proxy \<equiv> \<lparr>t_tag = proxyTag, t_isBalancer = bal\<rparr>"
  shows "rule_list (applyRouting p cfg proxyTag bal) =
      kill_rules p @ [echo_rule proxy] @ force_rules p proxy @ snd (tier_rules p proxy 0 (Tiers p) (fixed_outbounds p cfg)) @
      final_rules p proxy"
    and "cfg_OutboundConfigs (applyRouting p cfg proxyTag bal) =
      cfg_OutboundConfigs (fst (tier_rules p proxy 0 (Tiers p) (fixed_outbounds p cfg)))"
  unfolding rule_list_applyRouting
  by (simp_all add: applyRouting_def fixed_outbounds_def proxy_def Let_def case_prod_unfold)

text \<open>
  Every rule of the router has an effective field and a target that exists: the proxy (an outbound or the
  balancer), or an outbound the configuration holds, so xray accepts the rule list whatever the profile is.
\<close>

theorem applyRouting_targets_exist:
  assumes "proxyTag \<noteq> []" and "r \<in> set (rule_list (applyRouting p cfg proxyTag bal))"
  shows "rule_ok \<lparr>t_tag = proxyTag, t_isBalancer = bal\<rparr> (applyRouting p cfg proxyTag bal) r"
proof -
  define proxy where "proxy = \<lparr>t_tag = proxyTag, t_isBalancer = bal\<rparr>"
  define T where "T = tier_rules p proxy 0 (Tiers p) (fixed_outbounds p cfg)"
  have tag: "t_tag proxy \<noteq> []" using assms(1) by (simp add: proxy_def)
  have up: "reaches proxy (fixed_outbounds p cfg) t \<Longrightarrow> reaches proxy (fst T) t" for t
    unfolding T_def by (rule reaches_tier_rules)
  note d = up [OF fixed_outbounds_reaches(1)] and b = up [OF fixed_outbounds_reaches(2)]
  have "\<forall>r \<in> set (snd T). rule_ok proxy (fst T) r"
    unfolding T_def using fixed_outbounds_reaches
    by (intro tier_rules_ok [OF tag]) (auto simp: needBlock_def needDirect_def HasBlock_def HasDirect_def)
  moreover have "rule_ok proxy (fst T) r" if "r \<in> set (kill_rules p)"
    using that by (intro kill_rules_ok [OF _ b]) (auto simp: kill_rules_def needBlock_def split: if_splits)
  moreover have "rule_ok proxy (fst T) (echo_rule proxy)"
    unfolding echo_rule_def using tag by (intro rule_ok_apply) (simp_all add: reaches_def effective_def)
  moreover have "rule_ok proxy (fst T) r" if "r \<in> set (force_rules p proxy)"
    using that by (intro force_rules_ok [OF tag b d]) (auto simp: needBlock_def needDirect_def)
  moreover have "rule_ok proxy (fst T) r" if "r \<in> set (final_rules p proxy)"
    using that d by (intro final_rules_ok [OF tag])
  ultimately have "rule_ok proxy (fst T) r"
    using assms(2) unfolding applyRouting_parts T_def [symmetric] proxy_def [symmetric] by auto
  then show ?thesis
    by (simp add: rule_ok_def reaches_def hasOutbound_def applyRouting_parts T_def flip: proxy_def)
qed

theorem applyRouting_targets_exist_witness:
  "list_all (rule_ok \<lparr>t_tag = ''proxy'', t_isBalancer = False\<rparr>
       (applyRouting example_profile (new_config ''error'') ''proxy'' False))
     (rule_list (applyRouting example_profile (new_config ''error'') ''proxy'' False))
   \<and> length (rule_list (applyRouting example_profile (new_config ''error'') ''proxy'' False)) = 17"
proof -
  have "length (rule_list (applyRouting example_profile (new_config ''error'') ''proxy'' False)) = 17"
    by code_simp
  then show ?thesis
    using applyRouting_targets_exist [of "''proxy''"] by (simp add: list_all_iff)
qed

section \<open>Per-app VPN flows and names that wait\<close>

text \<open>
  C13. A per-app VPN flow (inbound \<^verbatim>\<open>forceproxy\<close>) always gets an outcome, in direct-all mode too, and it
  leaves outside the tunnel only when local networks are on, the flow is addressed by IP and that address is
  local. A tier's direct or proxy exception never lets it past a block.
\<close>

theorem force_flow_tunnelled:
  assumes "xray_field_contract applies ForceProxyTag hits" and "proxyTag \<noteq> []" and "hasProcessProxy p"
  shows "\<exists>t. route applies (rule_list (applyRouting p cfg proxyTag bal)) = Some t
           \<and> t \<in> {block_target, direct_target, \<lparr>t_tag = proxyTag, t_isBalancer = bal\<rparr>}
           \<and> (t = direct_target \<and> proxyTag \<noteq> directTag \<longrightarrow>
                LocalNetworks p \<and> \<not> hits FDomain anyDomain \<and> any_hit hits LocalNetworkCIDRs)
           \<and> (tiers_block p hits \<longrightarrow> t = block_target)"
proof -
  let ?proxy = "\<lparr>t_tag = proxyTag, t_isBalancer = bal\<rparr>"
  have tag: "t_tag ?proxy \<noteq> []" using assms(2) by simp
  have "applies (echo_rule ?proxy) = False"
    by (simp add: echo_rule_def contract_applies [OF assms(1)] ForceProxyTag_def ExitEchoTag_def)
  then have "route applies (rule_list (applyRouting p cfg proxyTag bal)) =
      Some (if kill_switch p hits then block_target else force_policy p ?proxy hits)"
    unfolding rule_list_applyRouting Let_def route_append kill_route [OF assms(1)] route_Cons route_Nil
      force_route [OF assms(1) tag]
    using assms(3) by simp
  then show ?thesis
    by (auto simp: force_policy_def direct_target_def block_target_def directTag_def blockTag_def
        split: if_splits)
qed

theorem force_flow_tunnelled_witness:
  "\<exists>t. route (field_match ForceProxyTag example_hits)
         (rule_list (applyRouting example_profile (new_config ''error'') ''proxy'' False)) = Some t
       \<and> t \<noteq> direct_target"
proof -
  have "hasProcessProxy example_profile" "\<not> any_hit example_hits LocalNetworkCIDRs"
    "''proxy'' \<noteq> directTag"
    by code_simp+
  then show ?thesis
    using force_flow_tunnelled [OF field_match_contract, of "''proxy''" example_profile example_hits
        "new_config ''error''" False] by auto
qed

lemma tiers_policy_None:
  "(\<forall>t \<in> set ts. \<forall>e \<in> set (tier_Entries t). \<not> m e) \<Longrightarrow> tiers_policy p proxy m i ts = None"
proof (induction ts arbitrary: i)
  case Nil
  then show ?case by simp
next
  case (Cons t ts)
  then have "find m (tier_Entries t) = None"
    by (auto simp: find_None_iff)
  with Cons show ?case by (simp add: tier_policy_def)
qed

text \<open>
  Under IPIfNonMatch, with an address entry in some tier, an app flow addressed by a name that no entry
  matches before it is resolved is taken by no rule, so xray resolves it and the address entries see it;
  under the other strategies, or without address entries, the mode's outcome takes it at once and no lookup
  is made.
\<close>

theorem unresolved_name_waits:
  assumes "xray_field_contract applies AppTrafficTag hits" and "proxyTag \<noteq> []"
    and "\<not> DisableUDP p" and "\<forall>v. \<not> hits FIP v"
    and "\<forall>t \<in> set (Tiers p). \<forall>e \<in> set (tier_Entries t). \<not> entry_hits hits e"
  shows "route applies (rule_list (applyRouting p cfg proxyTag bal)) =
         (if fst (NormalizeDomainStrategy (DomainStrategy p)) = strategyIPIfNonMatch \<and> tiersHoldIPs (Tiers p)
          then None else Some (modeOutcome p \<lparr>t_tag = proxyTag, t_isBalancer = bal\<rparr>))"
proof -
  let ?proxy = "\<lparr>t_tag = proxyTag, t_isBalancer = bal\<rparr>"
  have tag: "t_tag ?proxy \<noteq> []" using assms(2) by simp
  have "applies (echo_rule ?proxy) = False"
    by (simp add: echo_rule_def contract_applies [OF assms(1)] AppTrafficTag_def ExitEchoTag_def)
  moreover have "\<not> kill_switch p hits"
    using assms(3,4) by (simp add: kill_switch_def)
  moreover have "AppTrafficTag \<noteq> ForceProxyTag"
    by (simp add: AppTrafficTag_def ForceProxyTag_def)
  moreover have "unlisted_policy p ?proxy AppTrafficTag hits =
      (if appResolveIP p = [] then Some (modeOutcome p ?proxy) else None)"
    using assms(4) by (simp add: unlisted_policy_def any_hit_def)
  moreover have "appResolveIP p = [] \<longleftrightarrow>
      \<not> (fst (NormalizeDomainStrategy (DomainStrategy p)) = strategyIPIfNonMatch \<and> tiersHoldIPs (Tiers p))"
    by (simp add: appResolveIP_def anyIP_def)
  ultimately show ?thesis
    unfolding rule_list_applyRouting Let_def route_append kill_route [OF assms(1)] route_Cons route_Nil
      force_route [OF assms(1) tag] tiers_route [OF assms(1) tag] final_route [OF assms(1) tag]
      tiers_policy_None [OF assms(5)]
    by simp
qed

theorem unresolved_name_waits_witness:
  "route (field_match AppTrafficTag (\<lambda>f v. f = FDomain \<and> v = anyDomain))
     (rule_list (applyRouting example_profile (new_config ''error'') ''proxy'' False)) = None"
proof -
  let ?hits = "\<lambda>f v. f = FDomain \<and> v = anyDomain"
  have "list_all (\<lambda>t. list_all (\<lambda>e. \<not> entry_hits ?hits e) (tier_Entries t)) (Tiers example_profile)"
    "\<not> DisableUDP example_profile"
    "fst (NormalizeDomainStrategy (DomainStrategy example_profile)) = strategyIPIfNonMatch"
    "tiersHoldIPs (Tiers example_profile)"
    by code_simp+
  then show ?thesis
    using unresolved_name_waits [OF field_match_contract, of "''proxy''" example_profile ?hits
        "new_config ''error''" False]
    by (simp add: list_all_iff)
qed

section \<open>A tier's own direct outbound\<close>

text \<open>
  How freedom reads its final rules: in order, the first rule that holds the dialled address decides, and a
  rule without addresses holds every one.
\<close>

definition final_contract :: "(freedomFinalRule \<Rightarrow> bool) \<Rightarrow> (string \<Rightarrow> bool) \<Rightarrow> bool" where
  "final_contract fmatch holds \<longleftrightarrow> (\<forall>r. fmatch r \<longleftrightarrow> ff_IP r = [] \<or> (\<exists>v \<in> set (ff_IP r). holds v))"

definition final_action :: "Entry \<Rightarrow> string" where
  "final_action e = (if isDirectAddress e then ''allow'' else ''block'')"

lemma group_final_outcome:
  assumes "final_contract fmatch holds" "\<forall>r \<in> set rules. ff_IP r \<noteq> []"
  shows "first_match fmatch ff_Action (group_final rules es) =
         or_else (first_match fmatch ff_Action rules)
           (map_option final_action (find (\<lambda>e. holds (xrayMatcher e)) es))"
  using assms(2)
proof (induction es arbitrary: rules)
  case Nil
  then show ?case by simp
next
  case (Cons e es)
  let ?m = "\<lambda>e. holds (xrayMatcher e)"
  have fm: "fmatch r \<longleftrightarrow> ff_IP r = [] \<or> (\<exists>v \<in> set (ff_IP r). holds v)" for r
    using assms(1) by (simp add: final_contract_def)
  show ?case
  proof (cases "rules \<noteq> [] \<and> ff_Action (last rules) = final_action e")
    case True
    then obtain rs r where rules: "rules = rs @ [r]" by (metis rev_exhaust)
    let ?ext = "rs @ [r\<lparr>ff_IP := ff_IP r @ [xrayMatcher e]\<rparr>]"
    have eq: "group_final rules (e # es) = group_final ?ext es"
      using True by (simp add: rules final_action_def Let_def)
    have ok: "\<forall>r \<in> set ?ext. ff_IP r \<noteq> []"
      using Cons.prems by (simp add: rules)
    show ?thesis
      unfolding eq Cons.IH [OF ok] using True Cons.prems
      by (auto simp: rules fm [of r] fm [of "r\<lparr>ff_IP := ff_IP r @ [xrayMatcher e]\<rparr>"])
  next
    case False
    let ?new = "rules @ [\<lparr>ff_Action = final_action e, ff_IP = [xrayMatcher e], ff_BlockDelay = None\<rparr>]"
    have eq: "group_final rules (e # es) = group_final ?new es"
      using False by (auto simp: final_action_def Let_def)
    have ok: "\<forall>r \<in> set ?new. ff_IP r \<noteq> []"
      using Cons.prems by simp
    show ?thesis
      unfolding eq Cons.IH [OF ok]
      by (simp add: fm [of "\<lparr>ff_Action = final_action e, ff_IP = [xrayMatcher e], ff_BlockDelay = None\<rparr>"])
  qed
qed

lemma collect_addresses_spec:
  assumes "n \<le> length as" "\<forall>x \<in> set (drop n as). \<not> isDirectAddress x"
  shows "fst (collect_addresses es (as, n)) = as @ filter ByAddress es \<and>
         (\<forall>x \<in> set (drop (snd (collect_addresses es (as, n))) (as @ filter ByAddress es)). \<not> isDirectAddress x)"
  using assms
proof (induction es arbitrary: as n)
  case Nil
  then show ?case by simp
next
  case (Cons e es)
  define as' where "as' = (if ByAddress e then as @ [e] else as)"
  define n' where "n' = (if isDirectAddress e then length as' else n)"
  have step: "collect_addresses (e # es) (as, n) = collect_addresses es (as', n')"
    by (simp add: as'_def n'_def Let_def)
  have all: "as @ filter ByAddress (e # es) = as' @ filter ByAddress es"
    by (simp add: as'_def)
  have "n' \<le> length as'" "\<forall>x \<in> set (drop n' as'). \<not> isDirectAddress x"
    using Cons.prems by (auto simp: as'_def n'_def)
  then show ?case
    unfolding step all by (rule Cons.IH)
qed

lemma find_prefix_action:
  assumes "xs = ys @ zs" "\<forall>z \<in> set zs. \<not> isDirectAddress z"
  shows "the_default ''block'' (map_option final_action (find m ys)) =
         the_default ''block'' (map_option final_action (find m xs))"
proof (cases "find m ys")
  case None
  then show ?thesis
    using assms(2) by (cases "find m zs") (auto simp: assms(1) find_append final_action_def dest: find_SomeD)
next
  case (Some y)
  then show ?thesis by (simp add: assms(1) find_append)
qed

text \<open>
  The outbound a tier's direct address entries use dials an address exactly when the first address entry
  of the tier that holds it is a direct one; every other address, a resolved one included, is refused.
\<close>

theorem tierDirect_dials_only_direct:
  assumes "final_contract fmatch holds"
    and "ob_Settings (tierDirectOutbound p tag (directFinalRules entries)) = FinalRules rules"
  shows "first_match fmatch ff_Action rules =
         Some (case find (\<lambda>e. ByAddress e \<and> holds (xrayMatcher e)) entries of
                 None \<Rightarrow> ''block''
               | Some e \<Rightarrow> if ETarget e = TargetDirect then ''allow'' else ''block'')"
proof -
  let ?m = "\<lambda>e. holds (xrayMatcher e)"
  define n where "n = snd (collect_addresses entries ([], 0))"
  have fst: "fst (collect_addresses entries ([], 0)) = filter ByAddress entries"
    and no: "\<forall>x \<in> set (drop n (filter ByAddress entries)). \<not> isDirectAddress x"
    using collect_addresses_spec [of 0 "[]" entries] by (simp_all add: n_def)
  have final: "directFinalRules entries = group_final [] (take n (filter ByAddress entries))"
    by (simp add: directFinalRules_def case_prod_unfold fst n_def)
  have "rules = directFinalRules entries @ [\<lparr>ff_Action = ''block'', ff_IP = [], ff_BlockDelay = Some 0\<rparr>]"
    using assms(2) by (simp add: tierDirectOutbound_def)
  moreover have "fmatch \<lparr>ff_Action = ''block'', ff_IP = [], ff_BlockDelay = Some 0\<rparr>"
    using assms(1) by (simp add: final_contract_def)
  ultimately have "first_match fmatch ff_Action rules = Some (the_default ''block''
      (map_option final_action (find ?m (take n (filter ByAddress entries)))))"
    by (cases "find ?m (take n (filter ByAddress entries))")
      (simp_all add: final group_final_outcome [OF assms(1)])
  also have "\<dots> = Some (the_default ''block'' (map_option final_action (find ?m (filter ByAddress entries))))"
    using find_prefix_action [OF append_take_drop_id [symmetric] no] by simp
  also have "find ?m (filter ByAddress entries) = find (\<lambda>e. ByAddress e \<and> ?m e) entries"
    by (simp add: find_filter conj_commute)
  finally show ?thesis
    by (cases "find (\<lambda>e. ByAddress e \<and> ?m e) entries")
      (auto simp: final_action_def isDirectAddress_def dest: find_SomeD)
qed

theorem tierDirect_dials_only_direct_witness:
  "\<exists>rules. ob_Settings (tierDirectOutbound example_profile ''direct-0''
       (directFinalRules (tier_Entries (hd (Tiers example_profile))))) = FinalRules rules
     \<and> first_match (\<lambda>r. ff_IP r = [] \<or> ''203.0.113.0/24'' \<in> set (ff_IP r)) ff_Action rules = Some ''allow''"
proof -
  let ?holds = "\<lambda>v. v = ''203.0.113.0/24''"
  have contract: "final_contract (\<lambda>r. ff_IP r = [] \<or> ''203.0.113.0/24'' \<in> set (ff_IP r)) ?holds"
    by (simp add: final_contract_def)
  have "map_option ETarget (find (\<lambda>e. ByAddress e \<and> ?holds (xrayMatcher e))
      (tier_Entries (hd (Tiers example_profile)))) = Some TargetDirect"
    by code_simp
  then show ?thesis
    using tierDirect_dials_only_direct [OF contract, of example_profile "''direct-0''"
        "tier_Entries (hd (Tiers example_profile))"]
    by (auto simp: tierDirectOutbound_def)
qed

end
