(* ===== verification/Xray_Dns.thy ===== *)
theory Xray_Dns
  imports Dns_Config Xray_Routing
begin

text \<open>
  The DNS section of an xray configuration, \<^verbatim>\<open>src/internal/xrayconfig/dns.go\<close>: the resolver list of normal
  mode and of fake-ip mode, and the rules that hand the app's queries to xray's DNS module.

  xray's own decoders are parameters: \<open>pool_ok\<close> says whether it takes the fake-ip pool, \<open>hosts_ok\<close> whether it
  takes the hosts table. Which server xray asks first is the parameter \<open>ask\<close> of the theorems, with the
  contract \<open>dns_contract\<close> the comments of the file rely on; the parameter \<open>answer\<close> adds the hosts table, which the
  module consults before any server (\<^verbatim>\<open>wiki/Bottlenecks.md\<close>).
\<close>

definition dnsOutboundTag :: string where "dnsOutboundTag = ''dns-out''"
definition dnsInternalTag :: string where "dnsInternalTag = ''dns-internal''"
definition fakeIPv4Pool :: string where "fakeIPv4Pool = ''198.19.0.0/16''"
definition fakeIPv6Pool :: string where "fakeIPv6Pool = ''fc00::/18''"
definition fakeIPPoolSize :: int where "fakeIPPoolSize = 65535"

definition queryStrategy :: "DnsConfig \<Rightarrow> string" where
  "queryStrategy dns = (if d_DisableIPv6 dns then ''UseIPv4'' else [])"

definition toXrayServer :: "string \<Rightarrow> string option" where
  "toXrayServer s =
     (let sch = Scheme s
      in if sch = [] then Some s
         else if sch = ''https'' \<or> sch = ''h2c'' \<or> sch = ''tcp'' then Some s
         else if sch = ''quic'' then Some (''quic+local://'' @ TrimPrefix s ''quic://'')
         else if sch = ''tls'' then None
         else Some s)"

definition nameserver :: "string \<Rightarrow> NameServerConfig" where
  "nameserver xs =
     (let plain = \<lparr>ns_Address = xs, ns_Port = 0, ns_Domains = [], ns_SkipFallback = False\<rparr>
      in if Scheme xs = [] then
           (case SplitHostPort xs of
              Some (host, port) \<Rightarrow>
                (case Atoi port of
                   Some p \<Rightarrow> if p > 0 \<and> p \<le> 65535 then plain\<lparr>ns_Address := host, ns_Port := nat p\<rparr> else plain
                 | None \<Rightarrow> plain)
            | None \<Rightarrow> plain)
         else plain)"

definition plainNameServers :: "string list \<Rightarrow> NameServerConfig list" where
  "plainNameServers servers = map nameserver (List.map_filter toXrayServer servers)"

definition domainMatcher :: "string \<Rightarrow> string option" where
  "domainMatcher f = (case Classify f of
     None \<Rightarrow> None
   | Some (kind, val) \<Rightarrow> (case kind of
       KindGeoSite \<Rightarrow> Some (''geosite:'' @ val)
     | KindDomainSuffix \<Rightarrow> Some (''domain:'' @ val)
     | KindDomainFull \<Rightarrow> Some (''full:'' @ val)
     | KindDomainKeyword \<Rightarrow> Some val
     | KindDomainRegex \<Rightarrow> Some (''regexp:'' @ val)
     | _ \<Rightarrow> None))"

definition domainMatchers :: "string list \<Rightarrow> string list" where
  "domainMatchers fs = List.map_filter domainMatcher fs"

definition tierDomains :: "Profile \<Rightarrow> Target \<Rightarrow> string list" where
  "tierDomains prof t = domainMatchers (concat (map (\<lambda>tier. case t of
     TargetDirect \<Rightarrow> Direct tier | TargetProxy \<Rightarrow> Proxy tier | TargetBlock \<Rightarrow> []) (Tiers prof)))"

definition scopedCopies :: "NameServerConfig list \<Rightarrow> string list \<Rightarrow> NameServerConfig list" where
  "scopedCopies ns domains =
     (if domains = [] then [] else map (\<lambda>s. s\<lparr>ns_Domains := domains, ns_SkipFallback := True\<rparr>) ns)"

definition hosts_len0 :: "DnsConfig \<Rightarrow> bool" where
  "hosts_len0 dns \<longleftrightarrow> (\<forall>(k, vals) \<in> set (d_Hosts dns). TrimSpace k = [] \<or> clean_hosts vals = [])"

definition hostsWrapper :: "bool \<Rightarrow> DnsConfig \<Rightarrow> (string \<rightharpoonup> string list) option" where
  "hostsWrapper hosts_ok dns =
     (if hosts_len0 dns then None else if hosts_ok then Some (NormalizedHosts dns) else None)"

definition plain_ns_list :: "DnsConfig \<Rightarrow> Profile \<Rightarrow> NameServerConfig list" where
  "plain_ns_list dns prof =
     (let general = plainNameServers (NormalizedServers dns []);
          direct = plainNameServers (NormalizedDirectServers dns)
      in if direct = [] then general
         else let proxyScoped = scopedCopies general (tierDomains prof TargetProxy)
              in if ResolvedMode prof = ModeDirectAll then proxyScoped @ direct @ general
                 else let domains = tierDomains prof TargetDirect
                      in if domains \<noteq> [] then proxyScoped @ scopedCopies direct domains @ general
                         else general)"

definition applyPlainDNS :: "bool \<Rightarrow> xconfig \<Rightarrow> DnsConfig \<Rightarrow> Profile \<Rightarrow> xconfig" where
  "applyPlainDNS hosts_ok cfg dns prof =
     (let nsList = plain_ns_list dns prof; hosts = hostsWrapper hosts_ok dns
      in if nsList = [] \<and> hosts = None then
           (if d_DisableIPv6 dns
            then cfg\<lparr>cfg_DNSConfig := Some \<lparr>dns_Servers = [], dns_Hosts = None,
                     dns_QueryStrategy = ''UseIPv4'', dns_Tag = []\<rparr>\<rparr>
            else cfg)
         else cfg\<lparr>cfg_DNSConfig := Some \<lparr>dns_Servers = nsList, dns_Hosts = hosts,
                  dns_QueryStrategy = queryStrategy dns, dns_Tag = []\<rparr>\<rparr>)"

definition fake_pool :: "DnsConfig \<Rightarrow> (string \<times> int) list" where
  "fake_pool dns = (fakeIPv4Pool, fakeIPPoolSize)
     # (if d_DisableIPv6 dns then [] else [(fakeIPv6Pool, fakeIPPoolSize)])"

definition fakedns_server :: NameServerConfig where
  "fakedns_server = \<lparr>ns_Address = ''fakedns'', ns_Port = 0, ns_Domains = [], ns_SkipFallback = False\<rparr>"

definition fake_ns_list :: "DnsConfig \<Rightarrow> NameServerConfig list" where
  "fake_ns_list dns =
     (let real = plainNameServers (NormalizedServers dns ''1.1.1.1'');
          exclude = domainMatchers (NormalizedFilter dns)
      in (if exclude \<noteq> [] \<and> real \<noteq> []
          then [(hd real)\<lparr>ns_Domains := exclude, ns_SkipFallback := True\<rparr>] else [])
         @ [fakedns_server] @ plainNameServers (NormalizedDirectServers dns) @ real)"

definition dns_rule :: fieldRule where
  "dns_rule = no_rule\<lparr>fr_Port := ''53'', fr_InboundTag := [AppTrafficTag, ForceProxyTag],
                      fr_OutboundTag := dnsOutboundTag\<rparr>"

definition internal_rule :: fieldRule where
  "internal_rule = no_rule\<lparr>fr_InboundTag := [dnsInternalTag], fr_OutboundTag := directTag\<rparr>"

definition applyFakeDNS :: "bool \<Rightarrow> bool \<Rightarrow> xconfig \<Rightarrow> DnsConfig \<Rightarrow> Profile \<Rightarrow> xconfig" where
  "applyFakeDNS pool_ok hosts_ok cfg dns prof =
     (if \<not> pool_ok then applyPlainDNS hosts_ok cfg dns prof
      else
        let cfg1 = cfg\<lparr>cfg_FakeDNS := Some (fake_pool dns),
                       cfg_DNSConfig := Some \<lparr>dns_Servers = fake_ns_list dns, dns_Hosts = hostsWrapper hosts_ok dns,
                         dns_QueryStrategy = queryStrategy dns, dns_Tag = dnsInternalTag\<rparr>\<rparr>;
            cfg2 = ensureOutbound cfg1 dnsOutboundTag
              (no_outbound\<lparr>ob_Protocol := ''dns'', ob_Tag := dnsOutboundTag, ob_Settings := EmptyObject\<rparr>);
            rules = (if hasOutbound cfg2 directTag then [internal_rule, dns_rule] else [dns_rule]);
            router = (case cfg_RouterConfig cfg2 of None \<Rightarrow> no_router | Some r \<Rightarrow> r)
        in cfg2\<lparr>cfg_RouterConfig := Some (router\<lparr>rc_RuleList := rules @ rc_RuleList router\<rparr>)\<rparr>)"

definition ApplyDNS :: "bool \<Rightarrow> bool \<Rightarrow> xconfig \<Rightarrow> DnsConfig \<Rightarrow> Profile \<Rightarrow> xconfig" where
  "ApplyDNS pool_ok hosts_ok cfg dns prof =
     (if FakeIP dns then applyFakeDNS pool_ok hosts_ok cfg dns prof
      else applyPlainDNS hosts_ok cfg dns prof)"

lemma ensure_fields [simp]:
  "cfg_DNSConfig (ensureOutbound cfg tag ob) = cfg_DNSConfig cfg"
  "cfg_RouterConfig (ensureOutbound cfg tag ob) = cfg_RouterConfig cfg"
  by (simp_all add: ensureOutbound_def)

lemma fake_dns_config:
  "FakeIP dns \<Longrightarrow> cfg_DNSConfig (ApplyDNS True hosts_ok cfg dns prof) =
     Some \<lparr>dns_Servers = fake_ns_list dns, dns_Hosts = hostsWrapper hosts_ok dns,
           dns_QueryStrategy = queryStrategy dns, dns_Tag = dnsInternalTag\<rparr>"
  by (simp add: ApplyDNS_def applyFakeDNS_def Let_def)

section \<open>Which resolver answers\<close>

text \<open>
  The contract on xray's DNS module: for a name, the first server scoped to it is asked, and without one the
  first server that is not kept out of the fallback. \<open>hits\<close> says which domain matchers hold the name.
\<close>

definition dns_contract ::
  "(NameServerConfig list \<Rightarrow> NameServerConfig option) \<Rightarrow> (string \<Rightarrow> bool) \<Rightarrow> bool" where
  "dns_contract ask hits \<longleftrightarrow> (\<forall>servers. ask servers =
     (case find (\<lambda>s. \<exists>d \<in> set (ns_Domains s). hits d) servers of
        Some s \<Rightarrow> Some s
      | None \<Rightarrow> find (\<lambda>s. \<not> ns_SkipFallback s) servers))"

definition ask_first :: "(string \<Rightarrow> bool) \<Rightarrow> NameServerConfig list \<Rightarrow> NameServerConfig option" where
  "ask_first hits servers =
     (case find (\<lambda>s. \<exists>d \<in> set (ns_Domains s). hits d) servers of
        Some s \<Rightarrow> Some s
      | None \<Rightarrow> find (\<lambda>s. \<not> ns_SkipFallback s) servers)"

lemma ask_first_contract: "dns_contract (ask_first hits) hits"
  by (simp add: dns_contract_def ask_first_def)

lemma contract_ask: "dns_contract ask hits \<Longrightarrow> ask servers = ask_first hits servers"
  by (simp add: dns_contract_def ask_first_def)

definition unscoped :: "NameServerConfig \<Rightarrow> bool" where
  "unscoped s \<longleftrightarrow> ns_Domains s = [] \<and> \<not> ns_SkipFallback s"

lemma plainNameServers_unscoped: "s \<in> set (plainNameServers xs) \<Longrightarrow> unscoped s"
  by (auto simp: plainNameServers_def nameserver_def unscoped_def Let_def split: option.splits prod.splits if_splits)

lemma find_unscoped:
  "\<forall>s \<in> set ss. unscoped s \<Longrightarrow> find (\<lambda>s. \<exists>d \<in> set (ns_Domains s). hits d) ss = None"
  "\<forall>s \<in> set ss. unscoped s \<Longrightarrow> find (\<lambda>s. \<not> ns_SkipFallback s) ss = (case ss of [] \<Rightarrow> None | s # _ \<Rightarrow> Some s)"
  by (induction ss) (auto simp: unscoped_def)

lemma ask_unscoped:
  "\<forall>s \<in> set ss. unscoped s \<Longrightarrow> ask_first hits ss = (case ss of [] \<Rightarrow> None | s # _ \<Rightarrow> Some s)"
  by (simp add: ask_first_def find_unscoped split: option.split)

lemma find_scoped:
  "find (\<lambda>s. \<exists>d \<in> set (ns_Domains s). hits d) (scopedCopies ns ds) =
   (if \<exists>d \<in> set ds. hits d then map_option (\<lambda>s. s\<lparr>ns_Domains := ds, ns_SkipFallback := True\<rparr>)
      (case ns of [] \<Rightarrow> None | s # _ \<Rightarrow> Some s) else None)"
proof (cases "\<exists>d \<in> set ds. hits d")
  case True
  then show ?thesis by (cases ns) (auto simp: scopedCopies_def)
next
  case False
  then have "find (\<lambda>s. \<exists>d \<in> set (ns_Domains s). hits d) (scopedCopies ns ds) = None"
    unfolding find_None_iff by (auto simp: scopedCopies_def split: if_splits)
  with False show ?thesis by simp
qed

lemma fallback_scoped: "find (\<lambda>s. \<not> ns_SkipFallback s) (scopedCopies ns ds) = None"
  unfolding find_None_iff by (auto simp: scopedCopies_def)

text \<open>
  The module's answer for a name: the hosts table first, then the servers. \<open>listed\<close> says which keys of the table stand for
  the name.
\<close>

datatype dns_answer = StaticHosts "string list" | AskServer NameServerConfig

definition module_contract ::
  "(DNSConfig \<Rightarrow> dns_answer option) \<Rightarrow> (string \<Rightarrow> bool) \<Rightarrow> (string \<Rightarrow> bool) \<Rightarrow> bool" where
  "module_contract answer hits listed \<longleftrightarrow> (\<forall>d.
     case (case dns_Hosts d of None \<Rightarrow> Map.empty | Some hosts \<Rightarrow> hosts |` {k. listed k}) of hosts \<Rightarrow>
       if hosts = Map.empty then answer d = map_option AskServer (ask_first hits (dns_Servers d))
       else \<exists>vals \<in> ran hosts. answer d = Some (StaticHosts vals))"

definition answer_one :: "string \<Rightarrow> (string \<Rightarrow> bool) \<Rightarrow> DNSConfig \<Rightarrow> dns_answer option" where
  "answer_one name hits d =
     (case (case dns_Hosts d of None \<Rightarrow> None | Some hosts \<Rightarrow> hosts name) of
        Some vals \<Rightarrow> Some (StaticHosts vals)
      | None \<Rightarrow> map_option AskServer (ask_first hits (dns_Servers d)))"

lemma answer_one_contract: "module_contract (answer_one name hits) hits (\<lambda>k. k = name)"
proof -
  have "(hosts |` {k. k = name} = Map.empty) = (hosts name = None)" "ran (hosts |` {k. k = name}) = set_option (hosts name)"
    for hosts :: "string \<rightharpoonup> string list"
    by (auto simp: restrict_map_def ran_def fun_eq_iff split: option.splits)
  then show ?thesis by (auto simp: module_contract_def answer_one_def split: option.split)
qed

lemma normalize_hosts_empty:
  "\<forall>(k, vals) \<in> set hs. TrimSpace k = [] \<or> clean_hosts vals = [] \<Longrightarrow> normalize_hosts hs m = m"
  by (induction hs arbitrary: m) (auto simp: Let_def)

definition static_hosts :: "bool \<Rightarrow> DnsConfig \<Rightarrow> (string \<rightharpoonup> string list)" where
  "static_hosts hosts_ok dns = (if hosts_ok then NormalizedHosts dns else Map.empty)"

lemma hostsWrapper_static:
  "(case hostsWrapper hosts_ok dns of None \<Rightarrow> Map.empty | Some hosts \<Rightarrow> hosts) = static_hosts hosts_ok dns"
  using normalize_hosts_empty [of "d_Hosts dns" Map.empty]
  by (auto simp: hostsWrapper_def static_hosts_def hosts_len0_def NormalizedHosts_def)

lemma fake_servers_asked:
  "ask_first hits (fake_ns_list dns) =
      (if plainNameServers (NormalizedServers dns ''1.1.1.1'') \<noteq> []
          \<and> (\<exists>m \<in> set (domainMatchers (NormalizedFilter dns)). hits m)
       then Some ((hd (plainNameServers (NormalizedServers dns ''1.1.1.1'')))
              \<lparr>ns_Domains := domainMatchers (NormalizedFilter dns), ns_SkipFallback := True\<rparr>)
       else Some fakedns_server)"
  "filter (\<lambda>s. \<not> ns_SkipFallback s) (fake_ns_list dns) =
      fakedns_server # plainNameServers (NormalizedDirectServers dns) @ plainNameServers (NormalizedServers dns ''1.1.1.1'')"
proof -
  let ?real = "plainNameServers (NormalizedServers dns ''1.1.1.1'')"
  let ?direct = "plainNameServers (NormalizedDirectServers dns)"
  let ?ex = "domainMatchers (NormalizedFilter dns)"
  have plain: "\<forall>s \<in> set ([fakedns_server] @ ?direct @ ?real). unscoped s"
    using plainNameServers_unscoped by (auto simp: fakedns_server_def unscoped_def)
  then have "filter (\<lambda>s. \<not> ns_SkipFallback s) ([fakedns_server] @ ?direct @ ?real) =
      [fakedns_server] @ ?direct @ ?real"
    by (intro filter_True) (auto simp: unscoped_def)
  then show "filter (\<lambda>s. \<not> ns_SkipFallback s) (fake_ns_list dns) = fakedns_server # ?direct @ ?real"
    by (simp add: fake_ns_list_def Let_def)
  show "ask_first hits (fake_ns_list dns) =
      (if ?real \<noteq> [] \<and> (\<exists>m \<in> set ?ex. hits m)
       then Some ((hd ?real)\<lparr>ns_Domains := ?ex, ns_SkipFallback := True\<rparr>) else Some fakedns_server)"
    using find_unscoped(1) [OF plain, of hits] find_unscoped(2) [OF plain]
    by (cases "?ex \<noteq> [] \<and> ?real \<noteq> []")
      (auto simp: fake_ns_list_def Let_def ask_first_def split: option.splits)
qed




definition example_dns :: DnsConfig where
  "example_dns = \<lparr>d_Mode = ''normal'', d_Servers = [''8.8.8.8''], d_FakeIPFilter = [], d_Hosts = [],
     d_DirectServers = [''10.0.0.1:5353''], d_DisableIPv6 = False\<rparr>"


section \<open>The rules ApplyDNS adds\<close>

lemma rule_list_fake:
  "FakeIP dns \<Longrightarrow> rule_list (ApplyDNS True hosts_ok cfg dns prof) =
     (if hasOutbound cfg directTag then [internal_rule, dns_rule] else [dns_rule]) @ rule_list cfg"
proof -
  have "hasOutbound (cfg\<lparr>cfg_FakeDNS := a, cfg_DNSConfig := b\<rparr>) x = hasOutbound cfg x" for a b x
    by (simp add: hasOutbound_def)
  moreover have "directTag \<noteq> dnsOutboundTag"
    by (simp add: directTag_def dnsOutboundTag_def)
  moreover assume "FakeIP dns"
  ultimately show ?thesis
    by (cases "cfg_RouterConfig cfg")
      (simp_all add: ApplyDNS_def applyFakeDNS_def Let_def rule_list_def no_router_def)
qed

lemma fake_dns_route:
  assumes "xray_field_contract applies itag hits" and "FakeIP dns"
  shows "route applies (rule_list (ApplyDNS True hosts_ok cfg dns prof)) =
    (if itag = dnsInternalTag \<and> hasOutbound cfg directTag then Some direct_target
     else if itag \<in> {AppTrafficTag, ForceProxyTag} \<and> hits FPort ''53''
     then Some \<lparr>t_tag = dnsOutboundTag, t_isBalancer = False\<rparr>
     else route applies (rule_list cfg))"
  unfolding rule_list_fake [OF assms(2)]
  by (auto simp: contract_applies [OF assms(1)] internal_rule_def dns_rule_def rule_target_def
      direct_target_def dnsInternalTag_def AppTrafficTag_def ForceProxyTag_def)

text \<open>
  In fake-ip mode the rules put ahead of the profile's take exactly the app's port-53 flows (to the DNS
  module, ahead of every kill-switch and tier) and the module's own queries (direct, when the configuration
  has that outbound); every other flow is routed as before.
\<close>

theorem fake_dns_rules:
  assumes "xray_field_contract applies itag hits" and "FakeIP dns"
  shows "route applies (rule_list (ApplyDNS True hosts_ok cfg dns prof)) =
    (if itag = dnsInternalTag \<and> hasOutbound cfg directTag then Some direct_target
     else if itag \<in> {AppTrafficTag, ForceProxyTag} \<and> hits FPort ''53''
     then Some \<lparr>t_tag = dnsOutboundTag, t_isBalancer = False\<rparr>
     else route applies (rule_list cfg))"
  by (rule fake_dns_route [OF assms])

theorem fake_dns_rules_witness:
  "route (field_match AppTrafficTag (\<lambda>f v. f = FPort \<and> v = ''53''))
     (rule_list (ApplyDNS True True (new_config ''error'') example_hosts example_profile)) =
   Some \<lparr>t_tag = ''dns-out'', t_isBalancer = False\<rparr>"
proof -
  have "FakeIP example_hosts" "AppTrafficTag \<noteq> dnsInternalTag" by code_simp+
  then show ?thesis
    using fake_dns_rules [OF field_match_contract, of example_hosts AppTrafficTag
        "\<lambda>f v. f = FPort \<and> v = ''53''" True "new_config ''error''" example_profile]
    by (simp add: dnsOutboundTag_def)
qed

end
