(* ===== verification/Xray_Socks.thy ===== *)
theory Xray_Socks
  imports Go_Netip Xray_Dns
begin

text \<open>
  Sniffing and the local SOCKS inbound of an xray configuration, \<^verbatim>\<open>src/internal/xrayconfig/socks.go\<close>: the
  prefixes left out of sniffing and the inbound of proxy mode. Whether xray builds a matcher from the
  excluded prefixes (\<^verbatim>\<open>AppSniffing\<close>) is the parameter \<open>build_ok\<close>.
\<close>

definition defaultProxyAddress :: string where "defaultProxyAddress = ''127.0.0.1''"

definition sniffedProtocols :: "bool \<Rightarrow> string list" where
  "sniffedProtocols contentSniffing =
     (if \<not> contentSniffing then [''fakedns''] else [''fakedns'', ''http'', ''tls'', ''quic''])"

definition sniffingConfig :: SniffingConfig where
  "sniffingConfig = \<lparr>sn_Enabled = True, sn_DestOverride = sniffedProtocols True, sn_RouteOnly = True,
                     sn_IPsExcluded = []\<rparr>"

text \<open>A prefix is the bytes of its address and its number of bits.\<close>

definition siblingOf :: "nat list \<times> nat \<Rightarrow> nat list \<times> nat" where
  "siblingOf p = (masked (flip_at (fst p) (snd p - 1)) (snd p), snd p)"

function siblings_upto :: "nat list \<Rightarrow> nat \<Rightarrow> nat \<Rightarrow> (nat list \<times> nat) list" where
  "siblings_upto hole bits n =
     (if bits \<le> n then siblingOf (masked hole bits, bits) # siblings_upto hole (Suc bits) n else [])"
  by pat_completeness auto
termination
  by (relation "measure (\<lambda>(hole, bits, n). Suc n - bits)") auto

declare siblings_upto.simps [simp del]

definition prefixesWithout :: "nat list \<times> nat \<Rightarrow> nat list \<times> nat \<Rightarrow> (nat list \<times> nat) list" where
  "prefixesWithout base hole =
     (if snd base \<ge> snd hole then [] else siblings_upto (fst hole) (Suc (snd base)) (snd hole))"

definition MustParsePrefix :: "string \<Rightarrow> nat list \<times> nat" where
  "MustParsePrefix s = (case ParsePrefix s of Some (a, n) \<Rightarrow> (ip_bytes a, n) | None \<Rightarrow> ([], 0))"

definition localSniffExclusions :: "string list" where
  "localSniffExclusions =
     (let hole = MustParsePrefix fakeIPv6Pool
      in concat (map (\<lambda>c. let p = MustParsePrefix c
           in if \<not> Overlaps p hole then [c] else map Prefix_String (prefixesWithout p hole)) LocalNetworkCIDRs))"

definition ApplySniffing :: "xconfig \<Rightarrow> bool \<Rightarrow> bool \<Rightarrow> xconfig" where
  "ApplySniffing cfg contentSniffing excludeLocal =
     cfg\<lparr>cfg_InboundConfigs := map (\<lambda>i. case in_SniffingConfig i of
           None \<Rightarrow> i
         | Some _ \<Rightarrow> i\<lparr>in_SniffingConfig := Some
             \<lparr>sn_Enabled = True, sn_DestOverride = sniffedProtocols contentSniffing, sn_RouteOnly = True,
              sn_IPsExcluded = (if excludeLocal then localSniffExclusions else [])\<rparr>\<rparr>)
         (cfg_InboundConfigs cfg)\<rparr>"

definition AppSniffing :: "(string list \<Rightarrow> bool) \<Rightarrow> bool \<Rightarrow> bool \<Rightarrow> SniffingConfig option" where
  "AppSniffing build_ok contentSniffing excludeLocal =
     (let request = \<lparr>sn_Enabled = True, sn_DestOverride = sniffedProtocols contentSniffing, sn_RouteOnly = True,
                     sn_IPsExcluded = []\<rparr>
      in if excludeLocal then
           (if build_ok localSniffExclusions then Some (request\<lparr>sn_IPsExcluded := localSniffExclusions\<rparr>) else None)
         else Some request)"

fun findInboundIdx :: "InboundDetourConfig list \<Rightarrow> string \<Rightarrow> nat option" where
  "findInboundIdx [] tag = None"
| "findInboundIdx (i # is) tag = (if in_Tag i = tag then Some 0 else map_option Suc (findInboundIdx is tag))"

definition proxyInboundSettings :: "string \<Rightarrow> string \<Rightarrow> string \<Rightarrow> SocksSettings" where
  "proxyInboundSettings addr user pass =
     (if user \<noteq> [] \<and> pass \<noteq> []
      then \<lparr>sk_Auth = ''password'', sk_Users = [(user, pass)], sk_UDP = False, sk_IP = addr\<rparr>
      else \<lparr>sk_Auth = ''noauth'', sk_Users = [], sk_UDP = True, sk_IP = addr\<rparr>)"

definition ApplyProxyInbound :: "xconfig \<Rightarrow> int \<Rightarrow> string \<Rightarrow> string \<Rightarrow> (xconfig \<times> string) option" where
  "ApplyProxyInbound cfg port user pass =
     (if port \<le> 0 \<or> port > 65535 then None
      else
        let addr = defaultProxyAddress;
            inbound = \<lparr>in_Protocol = ''socks'', in_Port = port, in_ListenOn = addr, in_Tag = AppTrafficTag,
                       in_Settings = proxyInboundSettings addr user pass, in_SniffingConfig = Some sniffingConfig\<rparr>;
            inbounds = (case findInboundIdx (cfg_InboundConfigs cfg) AppTrafficTag of
                          None \<Rightarrow> cfg_InboundConfigs cfg @ [inbound]
                        | Some idx \<Rightarrow> (cfg_InboundConfigs cfg)[idx := inbound])
        in Some (cfg\<lparr>cfg_InboundConfigs := inbounds\<rparr>, JoinHostPort addr (itoa port)))"

section \<open>Prefixes without a hole\<close>

lemma siblings_upto_map:
  "siblings_upto hole bits n = map (\<lambda>bits. siblingOf (masked hole bits, bits)) [bits..<Suc n]"
proof (induction hole bits n rule: siblings_upto.induct)
  case (1 hole bits n)
  then show ?case
    by (subst siblings_upto.simps) (auto simp: upt_conv_Cons simp del: upt_Suc)
qed

lemma sibling_member:
  assumes "0 < bits" "bits \<le> 8 * length h" "length a = length h"
  shows "in_prefix (fst (siblingOf (masked h bits, bits))) bits a \<longleftrightarrow>
         (\<forall>i < bits - 1. bit_at a i = bit_at h i) \<and> bit_at a (bits - 1) \<noteq> bit_at h (bits - 1)"
proof -
  have sib: "bit_at (fst (siblingOf (masked h bits, bits))) i = (bit_at h i \<noteq> (i = bits - 1))" if "i < bits" for i
    using assms that by (simp add: siblingOf_def bit_at_masked bit_at_flip)
  have "in_prefix (fst (siblingOf (masked h bits, bits))) bits a \<longleftrightarrow>
      (\<forall>i < bits. bit_at a i = (bit_at h i \<noteq> (i = bits - 1)))"
    using assms(3) sib by (simp add: in_prefix_def siblingOf_def)
  also have "\<dots> \<longleftrightarrow> (\<forall>i < bits - 1. bit_at a i = bit_at h i) \<and> bit_at a (bits - 1) \<noteq> bit_at h (bits - 1)"
    using assms(1) by (cases bits) (auto simp: less_Suc_eq)
  finally show ?thesis .
qed

lemma first_difference:
  fixes m n :: nat
  assumes "m \<le> n"
  shows "(\<exists>k. m \<le> k \<and> k < n \<and> (\<forall>i < k. P i) \<and> \<not> P k) \<longleftrightarrow> (\<forall>i < m. P i) \<and> \<not> (\<forall>i < n. P i)" (is "?L \<longleftrightarrow> ?R")
proof
  assume ?R
  then obtain j where j: "j < n" "\<not> P j" by blast
  define k where "k = (LEAST k. \<not> P k)"
  have k: "\<not> P k" "k \<le> j"
    unfolding k_def using LeastI [of "\<lambda>k. \<not> P k", OF j(2)] Least_le [of "\<lambda>k. \<not> P k", OF j(2)] by simp_all
  have least: "P i" if "i < k" for i
    using not_less_Least [OF that [unfolded k_def]] by simp
  have "m \<le> k"
  proof (rule ccontr)
    assume "\<not> m \<le> k"
    then have "k < m" by simp
    with \<open>?R\<close> k(1) show False by blast
  qed
  with k j(1) least show ?L by (intro exI [of _ k]) auto
next
  assume ?L
  then obtain k where k: "m \<le> k" "k < n" "\<forall>i < k. P i" "\<not> P k" by blast
  then have "\<forall>i < m. P i" by simp
  with k show ?R by blast
qed

lemma prefixesWithout_member:
  assumes "in_prefix (fst base) (snd base) (fst hole)" and "snd base \<le> snd hole" "snd hole \<le> 8 * length (fst hole)"
    and "length a = length (fst hole)"
  shows "(\<exists>p \<in> set (prefixesWithout base hole). in_prefix (fst p) (snd p) a) \<longleftrightarrow>
         in_prefix (fst base) (snd base) a \<and> \<not> in_prefix (fst hole) (snd hole) a"
proof -
  let ?h = "fst hole"
  let ?eq = "\<lambda>i. bit_at a i = bit_at ?h i"
  have member: "in_prefix (fst (siblingOf (masked ?h (Suc k), Suc k))) (Suc k) a \<longleftrightarrow> (\<forall>i < k. ?eq i) \<and> \<not> ?eq k"
    if "k < snd hole" for k
    using sibling_member [of "Suc k" ?h a] assms(3,4) that by simp
  have "(\<exists>p \<in> set (prefixesWithout base hole). in_prefix (fst p) (snd p) a) \<longleftrightarrow>
      (\<exists>k. snd base \<le> k \<and> k < snd hole \<and> in_prefix (fst (siblingOf (masked ?h (Suc k), Suc k))) (Suc k) a)"
  proof -
    have range: "set [Suc (snd base)..<Suc (snd hole)] = Suc ` {snd base..<snd hole}"
      by (simp only: set_upt image_Suc_atLeastLessThan)
    have "prefixesWithout base hole =
        map (\<lambda>bits. siblingOf (masked ?h bits, bits)) [Suc (snd base)..<Suc (snd hole)]"
      using assms(2) by (cases "snd base < snd hole") (simp_all add: prefixesWithout_def siblings_upto_map del: upt_Suc)
    then have "set (prefixesWithout base hole) =
        (\<lambda>k. siblingOf (masked ?h (Suc k), Suc k)) ` {snd base..<snd hole}"
      by (simp only: set_map range image_image)
    moreover have "snd (siblingOf p) = snd p" for p
      by (simp add: siblingOf_def)
    ultimately show ?thesis
      by auto
  qed
  also have "\<dots> \<longleftrightarrow> (\<exists>k. snd base \<le> k \<and> k < snd hole \<and> (\<forall>i < k. ?eq i) \<and> \<not> ?eq k)"
    by (rule ex_cong1) (use member in blast)
  also have "\<dots> \<longleftrightarrow> (\<forall>i < snd base. ?eq i) \<and> \<not> (\<forall>i < snd hole. ?eq i)"
    by (rule first_difference [OF assms(2)])
  finally show ?thesis
    using assms(1,4) by (auto simp: in_prefix_def)
qed

text \<open>The fake-ip pool inside the unique local addresses.\<close>

definition ula :: "nat list \<times> nat" where "ula = (252 # replicate 15 0, 7)"
definition fake_hole :: "nat list \<times> nat" where "fake_hole = (252 # replicate 15 0, 18)"

lemma ula_hole: "in_prefix (fst ula) (snd ula) (fst fake_hole)" "snd ula \<le> snd fake_hole"
  "snd fake_hole \<le> 8 * length (fst fake_hole)" "length (fst fake_hole) = 16"
  by (simp_all add: ula_def fake_hole_def in_prefix_def)

lemma in_prefix_code [code]:
  "in_prefix p bits a \<longleftrightarrow> length a = length p \<and> list_all (\<lambda>i. bit_at a i = bit_at p i) [0..<bits]"
  by (auto simp: in_prefix_def list_all_iff)

definition covers :: "string list \<Rightarrow> nat list \<Rightarrow> bool" where
  "covers cidrs a \<longleftrightarrow> (\<exists>p \<in> set (map MustParsePrefix cidrs). in_prefix (fst p) (snd p) a)"

definition other_locals :: "(nat list \<times> nat) list" where
  "other_locals = [([10, 0, 0, 0], 8), ([172, 16, 0, 0], 12), ([192, 168, 0, 0], 16), ([100, 64, 0, 0], 10),
     ([169, 254, 0, 0], 16), ([127, 0, 0, 0], 8), (254 # 128 # replicate 14 0, 10), (replicate 15 0 @ [1], 128)]"

lemma parsed_locals:
  "set (map MustParsePrefix LocalNetworkCIDRs) = insert ula (set other_locals)"
  "MustParsePrefix fakeIPv6Pool = fake_hole"
  "set (map MustParsePrefix localSniffExclusions) = set (prefixesWithout ula fake_hole @ other_locals)"
  by code_simp+

lemma others_miss_hole:
  assumes "p \<in> set other_locals" "in_prefix (fst p) (snd p) a"
  shows "\<not> in_prefix (fst fake_hole) (snd fake_hole) a"
proof -
  have "list_all (\<lambda>p. length (fst p) \<noteq> 16 \<or> (6 < snd p \<and> bit_at (fst p) 6) \<or> (0 < snd p \<and> \<not> bit_at (fst p) 0))
      other_locals" "\<not> bit_at (fst fake_hole) 6" "bit_at (fst fake_hole) 0" "snd fake_hole = 18"
    by code_simp+
  note eval = this
  show ?thesis
  proof
    assume hole: "in_prefix (fst fake_hole) (snd fake_hole) a"
    then have a: "\<not> bit_at a 6" "bit_at a 0" "length (fst p) = 16"
      using eval(2-4) assms(2) ula_hole(4) by (simp_all add: in_prefix_def)
    moreover have "bit_at a i = bit_at (fst p) i" if "i < snd p" for i
      using assms(2) that by (simp add: in_prefix_def)
    ultimately show False
      using eval(1) assms(1) by (auto simp: list_all_iff)
  qed
qed

text \<open>
  C28. Content sniffing is left off exactly on the local networks outside the fake-ip pool: the excluded
  prefixes, read back, hold an address if and only if a local network does and the fake-ip pool does not.
\<close>

theorem localSniffExclusions_exact:
  "covers localSniffExclusions a \<longleftrightarrow> covers LocalNetworkCIDRs a \<and> \<not> covers [fakeIPv6Pool] a"
proof (cases "length a = 16")
  case True
  have "(\<exists>p \<in> set (prefixesWithout ula fake_hole). in_prefix (fst p) (snd p) a) \<longleftrightarrow>
      in_prefix (fst ula) (snd ula) a \<and> \<not> in_prefix (fst fake_hole) (snd fake_hole) a"
    using True ula_hole by (intro prefixesWithout_member) auto
  then show ?thesis
    unfolding covers_def parsed_locals using others_miss_hole by (auto simp: parsed_locals(2))
next
  case False
  have "length (fst p) = 16" if "p \<in> set (prefixesWithout ula fake_hole)" for p
    using that by (auto simp: prefixesWithout_def siblings_upto_map siblingOf_def ula_hole(4) simp del: upt_Suc
        split: if_splits)
  with False ula_hole show ?thesis
    unfolding covers_def parsed_locals by (auto simp: parsed_locals(2) in_prefix_def ula_def)
qed

section \<open>The SOCKS inbound\<close>

lemma findInboundIdx_Some:
  "findInboundIdx is tag = Some i \<Longrightarrow> i < length is \<and> in_Tag (is ! i) = tag \<and> (\<forall>j < i. in_Tag (is ! j) \<noteq> tag)"
proof (induction "is" arbitrary: i)
  case Nil
  then show ?case by simp
next
  case (Cons x xs)
  then show ?case
    by (cases i) (auto split: if_splits simp: All_less_Suc2)
qed

lemma findInboundIdx_None: "findInboundIdx is tag = None \<longleftrightarrow> tag \<notin> in_Tag ` set is"
  by (induction "is") auto

text \<open>
  C29. Proxy mode opens one SOCKS inbound, on loopback only and on a port between 1 and 65535: no other
  inbound is touched, a second call replaces the first one's inbound, and with credentials set the inbound
  asks for the password and carries no UDP.
\<close>

theorem ApplyProxyInbound_loopback:
  assumes "ApplyProxyInbound cfg port user pass = Some (cfg', endpoint)"
  shows "1 \<le> port \<and> port \<le> 65535 \<and> endpoint = ''127.0.0.1:'' @ itoa port
    \<and> filter (\<lambda>i. in_Tag i \<noteq> AppTrafficTag) (cfg_InboundConfigs cfg') =
        filter (\<lambda>i. in_Tag i \<noteq> AppTrafficTag) (cfg_InboundConfigs cfg)
    \<and> (\<exists>i \<in> set (cfg_InboundConfigs cfg'). in_Tag i = AppTrafficTag \<and> in_Port i = port
         \<and> in_ListenOn i = ''127.0.0.1''
         \<and> (user \<noteq> [] \<and> pass \<noteq> [] \<longrightarrow> sk_Auth (in_Settings i) = ''password'' \<and> \<not> sk_UDP (in_Settings i)))
    \<and> length (filter (\<lambda>i. in_Tag i = AppTrafficTag) (cfg_InboundConfigs cfg')) =
        max 1 (length (filter (\<lambda>i. in_Tag i = AppTrafficTag) (cfg_InboundConfigs cfg)))"
proof -
  define inbound where "inbound = \<lparr>in_Protocol = ''socks'', in_Port = port, in_ListenOn = defaultProxyAddress,
    in_Tag = AppTrafficTag, in_Settings = proxyInboundSettings defaultProxyAddress user pass,
    in_SniffingConfig = Some sniffingConfig\<rparr>"
  have port: "1 \<le> port" "port \<le> 65535" and e: "endpoint = JoinHostPort defaultProxyAddress (itoa port)"
    and inb: "cfg_InboundConfigs cfg' = (case findInboundIdx (cfg_InboundConfigs cfg) AppTrafficTag of
        None \<Rightarrow> cfg_InboundConfigs cfg @ [inbound] | Some idx \<Rightarrow> (cfg_InboundConfigs cfg)[idx := inbound])"
    using assms by (auto simp: ApplyProxyInbound_def Let_def inbound_def split: if_splits option.split)
  have i: "in_Tag inbound = AppTrafficTag" "in_Port inbound = port" "in_ListenOn inbound = ''127.0.0.1''"
    "user \<noteq> [] \<and> pass \<noteq> [] \<longrightarrow> sk_Auth (in_Settings inbound) = ''password'' \<and> \<not> sk_UDP (in_Settings inbound)"
    by (auto simp: inbound_def proxyInboundSettings_def defaultProxyAddress_def)
  have ep: "endpoint = ''127.0.0.1:'' @ itoa port"
    by (simp add: e JoinHostPort_def defaultProxyAddress_def)
  show ?thesis
  proof (cases "findInboundIdx (cfg_InboundConfigs cfg) AppTrafficTag")
    case None
    then have "filter (\<lambda>i. in_Tag i = AppTrafficTag) (cfg_InboundConfigs cfg) = []"
      by (auto simp: findInboundIdx_None filter_empty_conv image_iff)
    with None port ep inb i show ?thesis by auto
  next
    case (Some k)
    then have k: "k < length (cfg_InboundConfigs cfg)" "in_Tag (cfg_InboundConfigs cfg ! k) = AppTrafficTag"
      by (auto dest: findInboundIdx_Some)
    have split: "cfg_InboundConfigs cfg = take k (cfg_InboundConfigs cfg) @ cfg_InboundConfigs cfg ! k
        # drop (Suc k) (cfg_InboundConfigs cfg)"
      using k(1) by (rule id_take_nth_drop)
    have new: "cfg_InboundConfigs cfg' = take k (cfg_InboundConfigs cfg) @ inbound
        # drop (Suc k) (cfg_InboundConfigs cfg)"
      using inb Some k(1) by (simp add: upd_conv_take_nth_drop)
    show ?thesis
      unfolding new using port ep i k(2) by (subst (2) split, subst (5) split) simp
  qed
qed

theorem ApplyProxyInbound_loopback_witness:
  "\<exists>cfg'. ApplyProxyInbound (new_config ''error'') 1080 ''user'' ''pass'' = Some (cfg', ''127.0.0.1:1080'')
     \<and> (\<exists>i \<in> set (cfg_InboundConfigs cfg'). in_Tag i = AppTrafficTag \<and> \<not> sk_UDP (in_Settings i))"
proof -
  obtain cfg' e where ok: "ApplyProxyInbound (new_config ''error'') 1080 ''user'' ''pass'' = Some (cfg', e)"
    by (simp add: ApplyProxyInbound_def Let_def)
  have "itoa 1080 = ''1080''" by code_simp
  with ApplyProxyInbound_loopback [OF ok] ok show ?thesis by auto
qed

end
