(* ===== verification/Machines.thy ===== *)
theory Machines
  imports Main
begin

text \<open>
  State machines whose threads interleave: \<open>exec\<close> performs one action, or refuses it; \<open>run\<close> a sequence of
  them; \<open>reaches\<close> is what any sequence can get to. The locale relates an executable machine to a transition
  relation that covers it, over which its invariants are proved.
\<close>

fun run :: "('a \<Rightarrow> 's \<Rightarrow> 's option) \<Rightarrow> 'a list \<Rightarrow> 's \<Rightarrow> 's option" where
  "run exec [] s = Some s"
| "run exec (a # as) s = (case exec a s of None \<Rightarrow> None | Some s' \<Rightarrow> run exec as s')"

lemma run_append: "run exec (as @ bs) s = (case run exec as s of None \<Rightarrow> None | Some s' \<Rightarrow> run exec bs s')"
  by (induction as arbitrary: s) (simp_all split: option.split)

inductive reaches :: "('a \<Rightarrow> 's \<Rightarrow> 's option) \<Rightarrow> 's \<Rightarrow> 's \<Rightarrow> bool"
  for exec :: "'a \<Rightarrow> 's \<Rightarrow> 's option" and s0 :: 's where
  reaches_init: "reaches exec s0 s0"
| reaches_step: "reaches exec s0 s \<Longrightarrow> exec a s = Some s' \<Longrightarrow> reaches exec s0 s'"

lemma reaches_run: "reaches exec s0 s \<Longrightarrow> run exec as s = Some s' \<Longrightarrow> reaches exec s0 s'"
  by (induction as arbitrary: s) (auto split: option.splits intro: reaches_step)

lemma run_reaches: "run exec as s0 = Some s \<Longrightarrow> reaches exec s0 s"
  by (rule reaches_run [OF reaches_init])

locale machine =
  fixes exec :: "'a \<Rightarrow> 's \<Rightarrow> 's option" and s0 :: 's and trans :: "'s \<Rightarrow> 's \<Rightarrow> bool"
  assumes exec_trans: "exec a s = Some s' \<Longrightarrow> trans s s'"
begin

lemma invariant [consumes 1, case_names init step]:
  assumes "reaches exec s0 s" and "I s0" and "\<And>s s'. reaches exec s0 s \<Longrightarrow> I s \<Longrightarrow> trans s s' \<Longrightarrow> I s'"
  shows "I s"
  using assms(1)
proof (induction rule: reaches.induct)
  case reaches_init
  show ?case by (rule assms(2))
next
  case (reaches_step s a s')
  with exec_trans [of a s s'] assms(3) show ?case by blast
qed

lemma stable:
  assumes "\<And>s s'. P s \<Longrightarrow> trans s s' \<Longrightarrow> P s'"
  shows "P s \<Longrightarrow> run exec as s = Some s' \<Longrightarrow> P s'"
proof (induction as arbitrary: s)
  case (Cons a as)
  then obtain s1 where "exec a s = Some s1" "run exec as s1 = Some s'" by (auto split: option.splits)
  with Cons assms [OF Cons.prems(1)] exec_trans [of a s s1] show ?case by blast
qed simp

end

end
