(* ===== verification/Engine_Session.thy ===== *)
theory Engine_Session
  imports Dns_Config Machines
begin

text \<open>
  Starts and stops of the engines, \<^verbatim>\<open>src/internal/core/engine_session.go\<close> with the session parts of
  \<^verbatim>\<open>serverstate.go\<close>, \<^verbatim>\<open>controller.go\<close>, \<^verbatim>\<open>xray.go\<close>, \<^verbatim>\<open>awg.go\<close> and \<^verbatim>\<open>engine_mihomo.go\<close>.

  The controller's shared fields are the record \<open>core\<close>. Starts and stops run on threads of their own; a
  thread's place in the code is its \<open>pc\<close>, and \<open>exec\<close> runs a thread up to the next point where another
  thread can get in between: the atomic reads and writes of the generation, each piece of
  \<^verbatim>\<open>clearSessionState\<close>, and \<^verbatim>\<open>coreMutex\<close>, whose holder is a field, so that what runs without the lock
  interleaves with a start that holds it. Bringing an engine up or down is the engine's own code: the actions
  say whether it failed. A loop (liveness prober, selection watch, external-IP resolution) is recorded as the
  generation of the start that armed it.

  Generations are mathematical integers: the code adds one to a 64-bit counter per stop.
\<close>

section \<open>State\<close>

record core =
  sessionGen :: int
  running :: "engine \<Rightarrow> bool"
  instanceGen :: "engine \<Rightarrow> int"
  startsInFlight :: "engine \<Rightarrow> int"
  coreMutex :: "nat option"
  livenessLoop :: "int option"
  selWatch :: "int option"
  ipResolve :: "int option"
  serverSel :: "int option"

datatype start_stage =
    Guarded | Waiting | Locked | Up | LivenessArmed | SelectionArmed
  | Finish | Publish | FailBump | FailSel | FailIP | FailServer | Done

datatype stop_stage = StopBump | StopSel | StopIP | StopServer | StopWait

datatype pc = Idle | Starting start_stage engine int | Stopping stop_stage engine int

datatype event =
    EngineConnecting engine | EngineConnected engine int | EngineError engine | EngineDisconnecting engine
  | EngineDisconnected engine int | EngineAlreadyRunning engine | EngineConflictOtherCore engine
  | EngineStopRejectedNotRunning engine

record sys = core +
  procs :: "nat \<Rightarrow> pc"
  events :: "event list"

section \<open>The session's operations\<close>

definition engaged :: "'a core_scheme \<Rightarrow> engine \<Rightarrow> bool" where
  "engaged s e \<longleftrightarrow> running s e \<or> startsInFlight s e > 0"

definition runsSession :: "'a core_scheme \<Rightarrow> engine \<Rightarrow> int \<Rightarrow> bool" where
  "runsSession s e gen \<longleftrightarrow> running s e \<and> instanceGen s e = gen"

definition supersedes :: "'a core_scheme \<Rightarrow> engine \<Rightarrow> int \<Rightarrow> bool" where
  "supersedes s e stopGen \<longleftrightarrow> running s e \<and> instanceGen s e \<ge> stopGen"

definition up :: "engine \<Rightarrow> int \<Rightarrow> 'a core_scheme \<Rightarrow> 'a core_scheme" where
  "up e mark s = s\<lparr>instanceGen := (instanceGen s)(e := mark), running := (running s)(e := True)\<rparr>"

text \<open>\<^verbatim>\<open>xrayStopLocked\<close>, \<^verbatim>\<open>awgStopLocked\<close>, \<^verbatim>\<open>mihomoStopLocked\<close> and \<^verbatim>\<open>xrayRollback\<close>, as the session sees them.\<close>

definition stopLocked :: "engine \<Rightarrow> 'a core_scheme \<Rightarrow> 'a core_scheme" where
  "stopLocked e s = s\<lparr>running := (running s)(e := False)\<rparr>"

definition other_running :: "'a core_scheme \<Rightarrow> engine \<Rightarrow> bool" where
  "other_running s e = (case e of
     EngineXray \<Rightarrow> running s EngineAwg \<or> running s EngineMihomo
   | EngineAwg \<Rightarrow> running s EngineXray \<or> running s EngineMihomo
   | EngineMihomo \<Rightarrow> running s EngineXray \<or> running s EngineAwg)"

definition beginStart :: "engine \<Rightarrow> 'a core_scheme \<Rightarrow> int \<times> 'a core_scheme" where
  "beginStart e s = (sessionGen s, s\<lparr>startsInFlight := (startsInFlight s)(e := startsInFlight s e + 1)\<rparr>)"

definition endSessionLoops :: "'a core_scheme \<Rightarrow> 'a core_scheme" where
  "endSessionLoops s = s\<lparr>livenessLoop := None, selWatch := None, ipResolve := None, serverSel := None\<rparr>"

datatype prepared = SessionEnded | Already | Clear

definition prepareStartLocked :: "engine \<Rightarrow> int \<Rightarrow> 'a core_scheme \<Rightarrow> prepared \<times> 'a core_scheme" where
  "prepareStartLocked e mark s =
     (if sessionGen s \<noteq> mark then (SessionEnded, s)
      else if running s e then
        (if instanceGen s e = mark then (Already, s) else (Clear, stopLocked e (endSessionLoops s)))
      else (Clear, s))"

definition abortStaleEngineSession :: "engine \<Rightarrow> int \<Rightarrow> 'a core_scheme \<Rightarrow> bool \<times> 'a core_scheme" where
  "abortStaleEngineSession e mark s =
     (if sessionGen s = mark then (False, s)
      else (True, if running s e \<and> instanceGen s e > mark then s else endSessionLoops s))"

text \<open>\<^verbatim>\<open>stopEngineInstance\<close> under the lock; true when a later start owns the engine.\<close>

definition stopEngineInstance :: "engine \<Rightarrow> int \<Rightarrow> 'a core_scheme \<Rightarrow> bool \<times> 'a core_scheme" where
  "stopEngineInstance e stopGen s = (if supersedes s e stopGen then (True, s) else (False, stopLocked e s))"

section \<open>The TUN descriptor's copy\<close>

text \<open>
  A start's own copy of the platform descriptor, -1 when there is none. \<open>dup\<close> is the system call; \<open>release\<close> returns
  what it closes.
\<close>

record tunCopy =
  fd :: int

definition copyRequestTun :: "(int \<Rightarrow> int option) \<Rightarrow> int \<Rightarrow> tunCopy option" where
  "copyRequestTun dup tunFd =
     (if tunFd \<le> 0 then Some \<lparr>fd = -1\<rparr>
      else (case dup tunFd of None \<Rightarrow> None | Some copy \<Rightarrow> Some \<lparr>fd = copy\<rparr>))"

definition take_copy :: "tunCopy \<Rightarrow> int \<times> tunCopy" where
  "take_copy t = (fd t, t\<lparr>fd := -1\<rparr>)"

definition release :: "tunCopy \<Rightarrow> int list \<times> tunCopy" where
  "release t = (if fd t \<ge> 0 then (case take_copy t of (closed, t') \<Rightarrow> ([closed], t')) else ([], t))"

text \<open>
  The copy of the platform descriptor is closed by one owner only: a copy the engine took is not closed by the
  start's own release, one it did not take is closed once however often it is released, and without a descriptor
  nothing is ever closed.
\<close>

theorem copy_closed_once:
  assumes "\<And>f c. dup f = Some c \<Longrightarrow> 0 \<le> c" and "copyRequestTun dup tunFd = Some t"
  shows "fst (release (snd (take_copy t))) = [] \<and>
    fst (release t) = (if tunFd \<le> 0 then [] else [fd t]) \<and> fst (release (snd (release t))) = []"
proof (cases "tunFd \<le> 0")
  case True
  with assms(2) show ?thesis by (auto simp: copyRequestTun_def release_def take_copy_def)
next
  case False
  with assms(2) obtain c where "dup tunFd = Some c" "t = \<lparr>fd = c\<rparr>"
    by (auto simp: copyRequestTun_def split: option.splits)
  with False assms(1) [of tunFd c] show ?thesis by (simp add: release_def take_copy_def)
qed

theorem copy_closed_once_witness:
  "fst (release (snd (take_copy \<lparr>fd = 12\<rparr>))) = [] \<and> fst (release \<lparr>fd = 12\<rparr>) = [12]"
proof -
  let ?dup = "\<lambda>f :: int. if 0 \<le> f then Some (f + 5) else None"
  have nonneg: "?dup f = Some c \<Longrightarrow> 0 \<le> c" for f c by (cases "0 \<le> f") simp_all
  have "copyRequestTun ?dup 7 = Some \<lparr>fd = 12\<rparr>" by (simp add: copyRequestTun_def)
  from copy_closed_once [of ?dup, OF nonneg this] show ?thesis by simp
qed

section \<open>Threads\<close>

datatype action =
    RequestStart nat engine bool | BeginStart nat bool | LockStart nat | PickFails nat | StartFails nat | BringUp nat
  | ArmLiveness nat | ArmSelection nat bool bool | ArmIPResolve nat | FinishStart nat | PublishStart nat
  | ClearFailed nat | EndStart nat
  | RequestStop nat engine | ClearStop nat | LockStop nat

definition goto :: "nat \<Rightarrow> pc \<Rightarrow> sys \<Rightarrow> sys" where
  "goto t p s = s\<lparr>procs := (procs s)(t := p)\<rparr>"

definition emit :: "event \<Rightarrow> sys \<Rightarrow> sys" where
  "emit ev s = s\<lparr>events := events s @ [ev]\<rparr>"

text \<open>
  The start handlers up to \<^verbatim>\<open>EngineConnecting\<close>: the guards, then the request itself, which \<open>valid\<close> says could be
  read (for awg that includes asking for no proxy port). \<^verbatim>\<open>xraySettledRunning\<close> makes the awg handler wait for the
  lock in its guard.
\<close>

definition replyAlreadyRunning :: "engine \<Rightarrow> sys \<Rightarrow> sys" where
  "replyAlreadyRunning e s = emit (EngineConnected e (sessionGen s)) (emit (EngineAlreadyRunning e) s)"

definition xraySettledRunning :: "sys \<Rightarrow> bool option" where
  "xraySettledRunning s = (if coreMutex s \<noteq> None then None else Some (running s EngineXray))"

definition HandleXrayStart :: "nat \<Rightarrow> bool \<Rightarrow> sys \<Rightarrow> sys" where
  "HandleXrayStart t valid s =
     (if running s EngineAwg \<or> running s EngineMihomo then emit (EngineConflictOtherCore EngineXray) s
      else if runsSession s EngineXray (sessionGen s) then replyAlreadyRunning EngineXray s
      else if \<not> valid then emit (EngineError EngineXray) s
      else goto t (Starting Guarded EngineXray 0) (emit (EngineConnecting EngineXray) s))"

definition HandleMihomoStart :: "nat \<Rightarrow> bool \<Rightarrow> sys \<Rightarrow> sys" where
  "HandleMihomoStart t valid s =
     (if running s EngineXray \<or> running s EngineAwg then emit (EngineConflictOtherCore EngineMihomo) s
      else if runsSession s EngineMihomo (sessionGen s) then replyAlreadyRunning EngineMihomo s
      else if \<not> valid then emit (EngineError EngineMihomo) s
      else goto t (Starting Guarded EngineMihomo 0) (emit (EngineConnecting EngineMihomo) s))"

definition HandleAwgStart :: "nat \<Rightarrow> bool \<Rightarrow> sys \<Rightarrow> sys option" where
  "HandleAwgStart t valid s = (case xraySettledRunning s of
     None \<Rightarrow> None
   | Some settled \<Rightarrow> Some
      (if settled \<or> running s EngineMihomo then emit (EngineConflictOtherCore EngineAwg) s
       else if runsSession s EngineAwg (sessionGen s) then replyAlreadyRunning EngineAwg s
       else if \<not> valid then emit (EngineError EngineAwg) s
       else goto t (Starting Guarded EngineAwg 0) (emit (EngineConnecting EngineAwg) s)))"

definition requestStart :: "nat \<Rightarrow> engine \<Rightarrow> bool \<Rightarrow> sys \<Rightarrow> sys option" where
  "requestStart t e valid s =
     (if procs s t \<noteq> Idle then None
      else (case e of EngineXray \<Rightarrow> Some (HandleXrayStart t valid s)
                    | EngineMihomo \<Rightarrow> Some (HandleMihomoStart t valid s)
                    | EngineAwg \<Rightarrow> HandleAwgStart t valid s))"

text \<open>The three handlers have the same shape.\<close>

lemma requestStart_engine:
  "requestStart t e valid s =
     (if procs s t \<noteq> Idle \<or> (e = EngineAwg \<and> coreMutex s \<noteq> None) then None
      else if other_running s e then Some (emit (EngineConflictOtherCore e) s)
      else if runsSession s e (sessionGen s) then Some (replyAlreadyRunning e s)
      else if \<not> valid then Some (emit (EngineError e) s)
      else Some (goto t (Starting Guarded e 0) (emit (EngineConnecting e) s)))"
  by (cases e) (simp_all add: requestStart_def HandleXrayStart_def HandleMihomoStart_def HandleAwgStart_def
      xraySettledRunning_def other_running_def)

text \<open>The head of \<^verbatim>\<open>xrayStart\<close>, \<^verbatim>\<open>awgStart\<close> and \<^verbatim>\<open>mihomoStart\<close>: the lock, \<^verbatim>\<open>prepareStartLocked\<close>, the other engines.\<close>

definition lockStart :: "nat \<Rightarrow> engine \<Rightarrow> int \<Rightarrow> sys \<Rightarrow> sys option" where
  "lockStart t e mark s =
     (if coreMutex s \<noteq> None then None
      else (case prepareStartLocked e mark s of
              (SessionEnded, s') \<Rightarrow> Some (goto t (Starting Done e mark) s')
            | (Already, s') \<Rightarrow> Some (goto t (Starting Finish e mark) s')
            | (Clear, s') \<Rightarrow>
                if other_running s' e then Some (goto t (Starting FailBump e mark) s')
                else Some (goto t (Starting Locked e mark) (s'\<lparr>coreMutex := Some t\<rparr>))))"

definition finishStart :: "nat \<Rightarrow> engine \<Rightarrow> int \<Rightarrow> sys \<Rightarrow> sys option" where
  "finishStart t e mark s =
     (if coreMutex s \<noteq> None then None
      else (case abortStaleEngineSession e mark s of
              (True, s') \<Rightarrow> Some (goto t (Starting Done e mark) s')
            | (False, s') \<Rightarrow> Some (goto t (Starting Publish e mark) s')))"

text \<open>The pieces of \<^verbatim>\<open>clearSessionState\<close>, in a failed start and in a stop.\<close>

definition clearFailed :: "nat \<Rightarrow> start_stage \<Rightarrow> engine \<Rightarrow> int \<Rightarrow> sys \<Rightarrow> sys option" where
  "clearFailed t st e mark s = (case st of
     FailBump \<Rightarrow> Some (goto t (Starting FailSel e mark) (s\<lparr>sessionGen := sessionGen s + 1\<rparr>))
   | FailSel \<Rightarrow> Some (goto t (Starting FailIP e mark) (s\<lparr>selWatch := None\<rparr>))
   | FailIP \<Rightarrow> Some (goto t (Starting FailServer e mark) (s\<lparr>ipResolve := None\<rparr>))
   | FailServer \<Rightarrow> Some (goto t (Starting Done e mark) (emit (EngineError e) (s\<lparr>serverSel := None\<rparr>)))
   | _ \<Rightarrow> None)"

definition clearStop :: "nat \<Rightarrow> stop_stage \<Rightarrow> engine \<Rightarrow> int \<Rightarrow> sys \<Rightarrow> sys option" where
  "clearStop t st e g s = (case st of
     StopBump \<Rightarrow> Some (goto t (Stopping StopSel e (sessionGen s + 1)) (s\<lparr>sessionGen := sessionGen s + 1\<rparr>))
   | StopSel \<Rightarrow> Some (goto t (Stopping StopIP e g) (s\<lparr>selWatch := None\<rparr>))
   | StopIP \<Rightarrow> Some (goto t (Stopping StopServer e g) (s\<lparr>ipResolve := None\<rparr>))
   | StopServer \<Rightarrow> Some (goto t (Stopping StopWait e g) (emit (EngineDisconnecting e) (s\<lparr>serverSel := None\<rparr>)))
   | StopWait \<Rightarrow> None)"

text \<open>\<^verbatim>\<open>stopEngineSession\<close> up to \<^verbatim>\<open>clearSessionState\<close>, and its goroutine.\<close>

definition stopEngineSession :: "nat \<Rightarrow> engine \<Rightarrow> sys \<Rightarrow> sys" where
  "stopEngineSession t e s =
     (if \<not> engaged s e then emit (EngineStopRejectedNotRunning e) s
      else goto t (Stopping StopBump e 0) (s\<lparr>livenessLoop := None\<rparr>))"

definition HandleXrayStop :: "nat \<Rightarrow> sys \<Rightarrow> sys" where
  "HandleXrayStop t = stopEngineSession t EngineXray"

definition HandleAwgStop :: "nat \<Rightarrow> sys \<Rightarrow> sys" where
  "HandleAwgStop t = stopEngineSession t EngineAwg"

definition HandleMihomoStop :: "nat \<Rightarrow> sys \<Rightarrow> sys" where
  "HandleMihomoStop t = stopEngineSession t EngineMihomo"

definition HandleXrayIsRunning :: "sys \<Rightarrow> bool" where
  "HandleXrayIsRunning s = engaged s EngineXray"

definition HandleAwgIsRunning :: "sys \<Rightarrow> bool" where
  "HandleAwgIsRunning s = engaged s EngineAwg"

definition HandleMihomoIsRunning :: "sys \<Rightarrow> bool" where
  "HandleMihomoIsRunning s = engaged s EngineMihomo"

definition requestStop :: "nat \<Rightarrow> engine \<Rightarrow> sys \<Rightarrow> sys option" where
  "requestStop t e s =
     (if procs s t \<noteq> Idle then None
      else Some (case e of EngineXray \<Rightarrow> HandleXrayStop t s | EngineMihomo \<Rightarrow> HandleMihomoStop t s | EngineAwg \<Rightarrow> HandleAwgStop t s))"

lemma requestStop_engine: "requestStop t e s = (if procs s t \<noteq> Idle then None else Some (stopEngineSession t e s))"
  by (cases e) (simp_all add: requestStop_def HandleXrayStop_def HandleAwgStop_def HandleMihomoStop_def)

definition lockStop :: "nat \<Rightarrow> engine \<Rightarrow> int \<Rightarrow> sys \<Rightarrow> sys option" where
  "lockStop t e stopGen s =
     (if coreMutex s \<noteq> None then None
      else (case stopEngineInstance e stopGen s of
              (True, s') \<Rightarrow> Some (goto t Idle s')
            | (False, s') \<Rightarrow> Some (goto t Idle (emit (EngineDisconnected e stopGen) s'))))"

fun exec :: "action \<Rightarrow> sys \<Rightarrow> sys option" where
  "exec (RequestStart t e valid) s = requestStart t e valid s"
| "exec (BeginStart t copied) s = (case procs s t of
     Starting Guarded e _ \<Rightarrow>
       (if copied then (case beginStart e s of (mark, s') \<Rightarrow> Some (goto t (Starting Waiting e mark) s'))
        else Some (goto t Idle (emit (EngineError e) s)))
   | _ \<Rightarrow> None)"
| "exec (LockStart t) s = (case procs s t of Starting Waiting e mark \<Rightarrow> lockStart t e mark s | _ \<Rightarrow> None)"
| "exec (PickFails t) s = (case procs s t of
     Starting Waiting EngineAwg mark \<Rightarrow> Some (goto t (Starting FailBump EngineAwg mark) s) | _ \<Rightarrow> None)"
| "exec (StartFails t) s = (case procs s t of
     Starting Locked e mark \<Rightarrow> Some (goto t (Starting FailBump e mark) (s\<lparr>coreMutex := None\<rparr>))
   | Starting Up EngineXray mark \<Rightarrow>
       Some (goto t (Starting FailBump EngineXray mark) ((stopLocked EngineXray s)\<lparr>coreMutex := None\<rparr>))
   | _ \<Rightarrow> None)"
| "exec (BringUp t) s = (case procs s t of
     Starting Locked e mark \<Rightarrow> Some (goto t (Starting Up e mark) (up e mark s)) | _ \<Rightarrow> None)"
| "exec (ArmLiveness t) s = (case procs s t of
     Starting Up e mark \<Rightarrow> Some (goto t (Starting LivenessArmed e mark) (s\<lparr>livenessLoop := Some mark\<rparr>)) | _ \<Rightarrow> None)"
| "exec (ArmSelection t known watch) s = (case procs s t of
     Starting LivenessArmed e mark \<Rightarrow> Some (goto t (Starting SelectionArmed e mark)
       (s\<lparr>serverSel := (if known then Some mark else serverSel s),
          selWatch := (if known \<and> watch \<and> e \<noteq> EngineAwg then Some mark else selWatch s)\<rparr>))
   | _ \<Rightarrow> None)"
| "exec (ArmIPResolve t) s = (case procs s t of
     Starting SelectionArmed e mark \<Rightarrow>
       Some (goto t (Starting Finish e mark) (s\<lparr>ipResolve := Some mark, coreMutex := None\<rparr>)) | _ \<Rightarrow> None)"
| "exec (FinishStart t) s = (case procs s t of Starting Finish e mark \<Rightarrow> finishStart t e mark s | _ \<Rightarrow> None)"
| "exec (PublishStart t) s = (case procs s t of
     Starting Publish e mark \<Rightarrow> Some (goto t (Starting Done e mark) (emit (EngineConnected e mark) s)) | _ \<Rightarrow> None)"
| "exec (ClearFailed t) s = (case procs s t of Starting st e mark \<Rightarrow> clearFailed t st e mark s | _ \<Rightarrow> None)"
| "exec (EndStart t) s = (case procs s t of
     Starting Done e _ \<Rightarrow> Some (goto t Idle (s\<lparr>startsInFlight := (startsInFlight s)(e := startsInFlight s e - 1)\<rparr>))
   | _ \<Rightarrow> None)"
| "exec (RequestStop t e) s = requestStop t e s"
| "exec (ClearStop t) s = (case procs s t of Stopping st e g \<Rightarrow> clearStop t st e g s | _ \<Rightarrow> None)"
| "exec (LockStop t) s = (case procs s t of Stopping StopWait e g \<Rightarrow> lockStop t e g s | _ \<Rightarrow> None)"

definition init :: sys where
  "init = \<lparr>sessionGen = 0, running = (\<lambda>_. False), instanceGen = (\<lambda>_. 0), startsInFlight = (\<lambda>_. 0),
           coreMutex = None, livenessLoop = None, selWatch = None, ipResolve = None, serverSel = None,
           procs = (\<lambda>_. Idle), events = []\<rparr>"

fun actor :: "action \<Rightarrow> nat" where
  "actor (RequestStart t _ _) = t" | "actor (BeginStart t _) = t" | "actor (LockStart t) = t" | "actor (PickFails t) = t"
| "actor (StartFails t) = t" | "actor (BringUp t) = t" | "actor (ArmLiveness t) = t" | "actor (ArmSelection t _ _) = t"
| "actor (ArmIPResolve t) = t" | "actor (FinishStart t) = t" | "actor (PublishStart t) = t" | "actor (ClearFailed t) = t"
| "actor (EndStart t) = t" | "actor (RequestStop t _) = t" | "actor (ClearStop t) = t" | "actor (LockStop t) = t"

abbreviation reachable :: "sys \<Rightarrow> bool" where
  "reachable \<equiv> reaches exec init"

section \<open>The transitions\<close>

text \<open>
  What a thread can do, one rule for each atomic transition. Every run of \<open>exec\<close> is one of them, so an
  invariant is proved by cases on the rules.
\<close>

definition connects_only :: "int \<Rightarrow> event list \<Rightarrow> bool" where
  "connects_only gen evs \<longleftrightarrow> (\<forall>e m. EngineConnected e m \<in> set evs \<longrightarrow> m = gen)"

inductive step :: "sys \<Rightarrow> sys \<Rightarrow> bool" where
  report: "connects_only (sessionGen s) evs \<Longrightarrow> step s (s\<lparr>events := events s @ evs\<rparr>)"
| guard: "procs s t = Idle \<Longrightarrow> step s (goto t (Starting Guarded e 0) (emit (EngineConnecting e) s))"
| refuse: "procs s t = Starting Guarded e m \<Longrightarrow> step s (goto t Idle (emit (EngineError e) s))"
| begin_start: "procs s t = Starting Guarded e m \<Longrightarrow>
    step s (goto t (Starting Waiting e (sessionGen s)) (s\<lparr>startsInFlight := (startsInFlight s)(e := startsInFlight s e + 1)\<rparr>))"
| lock_ended: "procs s t = Starting Waiting e m \<Longrightarrow> coreMutex s = None \<Longrightarrow> sessionGen s \<noteq> m \<Longrightarrow>
    step s (goto t (Starting Done e m) s)"
| lock_already: "procs s t = Starting Waiting e m \<Longrightarrow> coreMutex s = None \<Longrightarrow> sessionGen s = m \<Longrightarrow>
    runsSession s e m \<Longrightarrow> step s (goto t (Starting Finish e m) s)"
| lock_replace: "procs s t = Starting Waiting e m \<Longrightarrow> coreMutex s = None \<Longrightarrow> sessionGen s = m \<Longrightarrow>
    running s e \<Longrightarrow> instanceGen s e \<noteq> m \<Longrightarrow> \<not> other_running s e \<Longrightarrow>
    step s (goto t (Starting Locked e m) ((stopLocked e (endSessionLoops s))\<lparr>coreMutex := Some t\<rparr>))"
| lock_replace_conflict: "procs s t = Starting Waiting e m \<Longrightarrow> coreMutex s = None \<Longrightarrow> sessionGen s = m \<Longrightarrow>
    running s e \<Longrightarrow> instanceGen s e \<noteq> m \<Longrightarrow> other_running s e \<Longrightarrow>
    step s (goto t (Starting FailBump e m) (stopLocked e (endSessionLoops s)))"
| lock_clear: "procs s t = Starting Waiting e m \<Longrightarrow> coreMutex s = None \<Longrightarrow> sessionGen s = m \<Longrightarrow>
    \<not> running s e \<Longrightarrow> \<not> other_running s e \<Longrightarrow>
    step s (goto t (Starting Locked e m) (s\<lparr>coreMutex := Some t\<rparr>))"
| lock_conflict: "procs s t = Starting Waiting e m \<Longrightarrow> coreMutex s = None \<Longrightarrow> sessionGen s = m \<Longrightarrow>
    \<not> running s e \<Longrightarrow> other_running s e \<Longrightarrow> step s (goto t (Starting FailBump e m) s)"
| pick_fails: "procs s t = Starting Waiting e m \<Longrightarrow> step s (goto t (Starting FailBump e m) s)"
| fails_locked: "procs s t = Starting Locked e m \<Longrightarrow>
    step s (goto t (Starting FailBump e m) (s\<lparr>coreMutex := None\<rparr>))"
| fails_up: "procs s t = Starting Up e m \<Longrightarrow>
    step s (goto t (Starting FailBump e m) ((stopLocked e s)\<lparr>coreMutex := None\<rparr>))"
| bring_up: "procs s t = Starting Locked e m \<Longrightarrow> step s (goto t (Starting Up e m) (up e m s))"
| arm_liveness: "procs s t = Starting Up e m \<Longrightarrow>
    step s (goto t (Starting LivenessArmed e m) (s\<lparr>livenessLoop := Some m\<rparr>))"
| arm_selection: "procs s t = Starting LivenessArmed e m \<Longrightarrow>
    step s (goto t (Starting SelectionArmed e m) (s\<lparr>serverSel := x, selWatch := y\<rparr>))"
| arm_ip: "procs s t = Starting SelectionArmed e m \<Longrightarrow>
    step s (goto t (Starting Finish e m) (s\<lparr>ipResolve := Some m, coreMutex := None\<rparr>))"
| finish_publish: "procs s t = Starting Finish e m \<Longrightarrow> coreMutex s = None \<Longrightarrow> sessionGen s = m \<Longrightarrow>
    step s (goto t (Starting Publish e m) s)"
| finish_newer: "procs s t = Starting Finish e m \<Longrightarrow> coreMutex s = None \<Longrightarrow> sessionGen s \<noteq> m \<Longrightarrow>
    running s e \<Longrightarrow> instanceGen s e > m \<Longrightarrow> step s (goto t (Starting Done e m) s)"
| finish_stale: "procs s t = Starting Finish e m \<Longrightarrow> coreMutex s = None \<Longrightarrow> sessionGen s \<noteq> m \<Longrightarrow>
    \<not> (running s e \<and> instanceGen s e > m) \<Longrightarrow> step s (goto t (Starting Done e m) (endSessionLoops s))"
| publish: "procs s t = Starting Publish e m \<Longrightarrow> step s (goto t (Starting Done e m) (emit (EngineConnected e m) s))"
| fail_bump: "procs s t = Starting FailBump e m \<Longrightarrow>
    step s (goto t (Starting FailSel e m) (s\<lparr>sessionGen := sessionGen s + 1\<rparr>))"
| fail_sel: "procs s t = Starting FailSel e m \<Longrightarrow> step s (goto t (Starting FailIP e m) (s\<lparr>selWatch := None\<rparr>))"
| fail_ip: "procs s t = Starting FailIP e m \<Longrightarrow> step s (goto t (Starting FailServer e m) (s\<lparr>ipResolve := None\<rparr>))"
| fail_server: "procs s t = Starting FailServer e m \<Longrightarrow>
    step s (goto t (Starting Done e m) (emit (EngineError e) (s\<lparr>serverSel := None\<rparr>)))"
| end_start: "procs s t = Starting Done e m \<Longrightarrow>
    step s (goto t Idle (s\<lparr>startsInFlight := (startsInFlight s)(e := startsInFlight s e - 1)\<rparr>))"
| stop_request: "procs s t = Idle \<Longrightarrow> engaged s e \<Longrightarrow>
    step s (goto t (Stopping StopBump e 0) (s\<lparr>livenessLoop := None\<rparr>))"
| stop_bump: "procs s t = Stopping StopBump e g \<Longrightarrow>
    step s (goto t (Stopping StopSel e (sessionGen s + 1)) (s\<lparr>sessionGen := sessionGen s + 1\<rparr>))"
| stop_sel: "procs s t = Stopping StopSel e g \<Longrightarrow> step s (goto t (Stopping StopIP e g) (s\<lparr>selWatch := None\<rparr>))"
| stop_ip: "procs s t = Stopping StopIP e g \<Longrightarrow> step s (goto t (Stopping StopServer e g) (s\<lparr>ipResolve := None\<rparr>))"
| stop_server: "procs s t = Stopping StopServer e g \<Longrightarrow>
    step s (goto t (Stopping StopWait e g) (emit (EngineDisconnecting e) (s\<lparr>serverSel := None\<rparr>)))"
| stop_superseded: "procs s t = Stopping StopWait e g \<Longrightarrow> coreMutex s = None \<Longrightarrow> supersedes s e g \<Longrightarrow>
    step s (goto t Idle s)"
| stop_instance: "procs s t = Stopping StopWait e g \<Longrightarrow> coreMutex s = None \<Longrightarrow> \<not> supersedes s e g \<Longrightarrow>
    step s (goto t Idle (emit (EngineDisconnected e g) (stopLocked e s)))"

lemmas session_defs = prepareStartLocked_def abortStaleEngineSession_def stopEngineInstance_def beginStart_def
lemmas thread_defs = requestStart_engine replyAlreadyRunning_def lockStart_def finishStart_def clearFailed_def clearStop_def
  requestStop_engine stopEngineSession_def lockStop_def

lemma goto_fields [simp]:
  "procs (goto t p s) = (procs s)(t := p)" "sessionGen (goto t p s) = sessionGen s" "running (goto t p s) = running s"
  "instanceGen (goto t p s) = instanceGen s" "startsInFlight (goto t p s) = startsInFlight s"
  "coreMutex (goto t p s) = coreMutex s" "livenessLoop (goto t p s) = livenessLoop s" "selWatch (goto t p s) = selWatch s"
  "ipResolve (goto t p s) = ipResolve s" "serverSel (goto t p s) = serverSel s" "events (goto t p s) = events s"
  by (simp_all add: goto_def)

lemma emit_fields [simp]:
  "procs (emit ev s) = procs s" "sessionGen (emit ev s) = sessionGen s" "running (emit ev s) = running s"
  "instanceGen (emit ev s) = instanceGen s" "startsInFlight (emit ev s) = startsInFlight s"
  "coreMutex (emit ev s) = coreMutex s" "livenessLoop (emit ev s) = livenessLoop s" "selWatch (emit ev s) = selWatch s"
  "ipResolve (emit ev s) = ipResolve s" "serverSel (emit ev s) = serverSel s" "events (emit ev s) = events s @ [ev]"
  by (simp_all add: emit_def)

lemma stopLocked_fields [simp]:
  "running (stopLocked e s) = (running s)(e := False)" "sessionGen (stopLocked e s) = sessionGen s"
  "instanceGen (stopLocked e s) = instanceGen s" "startsInFlight (stopLocked e s) = startsInFlight s"
  "coreMutex (stopLocked e s) = coreMutex s" "livenessLoop (stopLocked e s) = livenessLoop s"
  "selWatch (stopLocked e s) = selWatch s" "ipResolve (stopLocked e s) = ipResolve s" "serverSel (stopLocked e s) = serverSel s"
  by (simp_all add: stopLocked_def)

lemma stopLocked_more [simp]: "procs (stopLocked e s) = procs s" "events (stopLocked e s) = events s"
  by (simp_all add: stopLocked_def)

lemma endSessionLoops_fields [simp]:
  "running (endSessionLoops s) = running s" "sessionGen (endSessionLoops s) = sessionGen s"
  "instanceGen (endSessionLoops s) = instanceGen s" "startsInFlight (endSessionLoops s) = startsInFlight s"
  "coreMutex (endSessionLoops s) = coreMutex s" "livenessLoop (endSessionLoops s) = None"
  "selWatch (endSessionLoops s) = None" "ipResolve (endSessionLoops s) = None" "serverSel (endSessionLoops s) = None"
  by (simp_all add: endSessionLoops_def)

lemma endSessionLoops_more [simp]: "procs (endSessionLoops s) = procs s" "events (endSessionLoops s) = events s"
  by (simp_all add: endSessionLoops_def)

lemma up_fields [simp]:
  "running (up e m s) = (running s)(e := True)" "instanceGen (up e m s) = (instanceGen s)(e := m)"
  "sessionGen (up e m s) = sessionGen s" "startsInFlight (up e m s) = startsInFlight s"
  "coreMutex (up e m s) = coreMutex s" "livenessLoop (up e m s) = livenessLoop s"
  "selWatch (up e m s) = selWatch s" "ipResolve (up e m s) = ipResolve s" "serverSel (up e m s) = serverSel s"
  by (simp_all add: up_def)

lemma up_more [simp]: "procs (up e m s) = procs s" "events (up e m s) = events s"
  by (simp_all add: up_def)

lemma other_running_iff: "other_running s e \<longleftrightarrow> (\<exists>e'. e' \<noteq> e \<and> running s e')"
  by (cases e) (simp_all add: other_running_def, (metis engine.exhaust engine.distinct)+)

lemma other_running_replaced [simp]: "other_running (stopLocked e (endSessionLoops s)) e = other_running s e"
  by (auto simp: other_running_iff)

lemma clearFailed_step: "procs s t = Starting st e m \<Longrightarrow> clearFailed t st e m s = Some s' \<Longrightarrow> step s s'"
  by (cases st) (auto simp: clearFailed_def intro: step.intros)

lemma clearStop_step: "procs s t = Stopping st e m \<Longrightarrow> clearStop t st e m s = Some s' \<Longrightarrow> step s s'"
  by (cases st) (auto simp: clearStop_def intro: step.intros)

lemma report_emit: "connects_only (sessionGen s) [ev] \<Longrightarrow> step s (emit ev s)"
  using report [of s "[ev]"] by (simp add: emit_def)

lemma replyAlreadyRunning_step: "step s (replyAlreadyRunning e s)"
  using report [of s "[EngineAlreadyRunning e, EngineConnected e (sessionGen s)]"]
  by (simp add: replyAlreadyRunning_def emit_def connects_only_def)

lemma requestStart_step: "requestStart t e valid s = Some s' \<Longrightarrow> step s s'"
  by (auto simp: requestStart_engine connects_only_def split: if_splits
      intro: step.intros report_emit replyAlreadyRunning_step)

lemma lockStart_step: "procs s t = Starting Waiting e m \<Longrightarrow> lockStart t e m s = Some s' \<Longrightarrow> step s s'"
  by (auto simp: lockStart_def prepareStartLocked_def runsSession_def split: if_splits intro: step.intros)

lemma finishStart_step: "procs s t = Starting Finish e m \<Longrightarrow> finishStart t e m s = Some s' \<Longrightarrow> step s s'"
  by (auto simp: finishStart_def abortStaleEngineSession_def split: if_splits intro: step.intros)

lemma requestStop_step: "requestStop t e s = Some s' \<Longrightarrow> step s s'"
  by (auto simp: requestStop_engine stopEngineSession_def connects_only_def split: if_splits intro: step.intros report_emit)

lemma lockStop_step: "procs s t = Stopping StopWait e g \<Longrightarrow> lockStop t e g s = Some s' \<Longrightarrow> step s s'"
  by (auto simp: lockStop_def stopEngineInstance_def split: if_splits intro: step.intros)

lemma exec_step: "exec a s = Some s' \<Longrightarrow> step s s'"
proof (cases a)
  case (RequestStart t e valid)
  then show "exec a s = Some s' \<Longrightarrow> ?thesis" by (simp add: requestStart_step)
next
  case (ArmSelection t known watch)
  then show "exec a s = Some s' \<Longrightarrow> ?thesis"
    by (auto intro!: arm_selection split: pc.splits start_stage.splits split del: if_split)
qed (auto simp: beginStart_def
      intro: clearFailed_step clearStop_step lockStart_step finishStart_step requestStop_step lockStop_step step.intros
      split: pc.splits start_stage.splits stop_stage.splits engine.splits if_splits)

lemma exec_others: "exec a s = Some s' \<Longrightarrow> t \<noteq> actor a \<Longrightarrow> procs s' t = procs s t"
  by (cases a) (auto simp: thread_defs session_defs split: pc.splits start_stage.splits stop_stage.splits engine.splits if_splits)

lemma run_others: "run exec as s = Some s' \<Longrightarrow> t \<notin> set (map actor as) \<Longrightarrow> procs s' t = procs s t"
proof (induction as arbitrary: s)
  case (Cons a as)
  then obtain s1 where "exec a s = Some s1" "run exec as s1 = Some s'" by (auto split: option.splits)
  with Cons exec_others [of a s s1 t] show ?case by simp
qed simp

interpretation session: machine exec init step
  by unfold_locales (rule exec_step)

end
