(* ===== verification/Session_Safety.thy ===== *)
theory Session_Safety
  imports Engine_Session
begin

text \<open>
  What holds in every reachable state of \<^verbatim>\<open>Engine_Session\<close>: at most one engine runs, marks and generations
  never run ahead of the session, the lock's holder knows what runs, and no exit-address resolution outlives its
  session. The last section has the interleavings in which a session's loops do survive it.
\<close>

section \<open>Invariants\<close>

text \<open>A start holds \<^verbatim>\<open>coreMutex\<close> from its admission until its loops are armed.\<close>

definition holding :: "pc \<Rightarrow> bool" where
  "holding p = (case p of Starting st _ _ \<Rightarrow> st \<in> {Locked, Up, LivenessArmed, SelectionArmed} | _ \<Rightarrow> False)"

definition counted :: "pc \<Rightarrow> engine \<Rightarrow> bool" where
  "counted p e = (case p of Starting st e' _ \<Rightarrow> st \<noteq> Guarded \<and> e' = e | _ \<Rightarrow> False)"

definition inv_lock :: "sys \<Rightarrow> bool" where
  "inv_lock s \<longleftrightarrow> (\<forall>t. holding (procs s t) \<longleftrightarrow> coreMutex s = Some t)"

definition inv_marks :: "sys \<Rightarrow> bool" where
  "inv_marks s \<longleftrightarrow>
     (\<forall>t st e m. procs s t = Starting st e m \<longrightarrow> st \<noteq> Guarded \<longrightarrow> m \<le> sessionGen s) \<and>
     (\<forall>t st e g. procs s t = Stopping st e g \<longrightarrow> st \<noteq> StopBump \<longrightarrow> g \<le> sessionGen s) \<and>
     (\<forall>e. running s e \<longrightarrow> instanceGen s e \<le> sessionGen s)"

definition inv_one :: "sys \<Rightarrow> bool" where
  "inv_one s \<longleftrightarrow> (\<forall>e e'. running s e \<longrightarrow> running s e' \<longrightarrow> e = e')"

definition inv_holder :: "sys \<Rightarrow> bool" where
  "inv_holder s \<longleftrightarrow> (\<forall>t st e m. procs s t = Starting st e m \<longrightarrow>
     (st = Locked \<longrightarrow> (\<forall>e'. \<not> running s e')) \<and>
     (st \<in> {Up, LivenessArmed, SelectionArmed} \<longrightarrow> runsSession s e m))"


lemma holding_simps [simp]:
  "\<not> holding Idle" "holding (Starting st e m) \<longleftrightarrow> st \<in> {Locked, Up, LivenessArmed, SelectionArmed}"
  "\<not> holding (Stopping sp e m)"
  by (simp_all add: holding_def)

lemma inv_lock: "reachable s \<Longrightarrow> inv_lock s"
proof (induction rule: session.invariant)
  case init
  show ?case by (simp add: inv_lock_def init_def)
next
  case (step s s')
  have all: "holding (procs s t) \<longleftrightarrow> coreMutex s = Some t" for t
    using step.IH by (simp add: inv_lock_def)
  have one: "holding p \<longleftrightarrow> coreMutex s = Some t" if "procs s t = p" for t p
    using all [of t] that by simp
  from step.hyps(2) show ?case
    by (cases rule: step.cases) (auto simp: inv_lock_def all dest: one)
qed

lemma inv_marks: "reachable s \<Longrightarrow> inv_marks s"
proof (induction rule: session.invariant)
  case init
  show ?case by (simp add: inv_marks_def init_def)
next
  case (step s s')
  note inv = step.IH [unfolded inv_marks_def]
  note starts = inv [THEN conjunct1, rule_format] and stops = inv [THEN conjunct2, THEN conjunct1, rule_format]
    and gens = inv [THEN conjunct2, THEN conjunct2, rule_format]
  from step.hyps(2) show ?case
    by (cases rule: step.cases) (auto simp: inv_marks_def dest: starts stops gens)
qed

text \<open>Two holders of the lock are the same thread.\<close>

lemma holder_unique:
  assumes "reachable s" "procs s t = Starting st e m" "procs s t' = Starting st' e' m'"
    "st \<in> {Locked, Up, LivenessArmed, SelectionArmed}" "st' \<in> {Locked, Up, LivenessArmed, SelectionArmed}"
  shows "t' = t"
proof -
  have "holding (procs s t)" "holding (procs s t')" using assms by simp_all
  with inv_lock [OF assms(1)] show ?thesis by (simp add: inv_lock_def)
qed

lemma free_no_holder:
  assumes "reachable s" "coreMutex s = None" "procs s t = Starting st e m"
  shows "st \<notin> {Locked, Up, LivenessArmed, SelectionArmed}"
  using inv_lock [OF assms(1)] assms(2,3) unfolding inv_lock_def
  by (metis holding_simps(2) option.distinct(1))

lemma inv_one_holder: "reachable s \<Longrightarrow> inv_one s \<and> inv_holder s"
proof (induction rule: session.invariant)
  case init
  show ?case by (simp add: inv_one_def inv_holder_def init_def)
next
  case (step s s')
  note one = step.IH [THEN conjunct1, unfolded inv_one_def, rule_format]
  note locked = step.IH [THEN conjunct2, unfolded inv_holder_def, rule_format, THEN conjunct1, rule_format]
  note ups = step.IH [THEN conjunct2, unfolded inv_holder_def, rule_format, THEN conjunct2, rule_format]
  note free = free_no_holder [OF step.hyps(1)] and uniq = holder_unique [OF step.hyps(1)]
  have alone: "\<not> running s e \<Longrightarrow> \<forall>e'. e' = e \<or> \<not> running s e' \<Longrightarrow> \<not> running s e'" for e e'
    by metis
  from step.hyps(2) have "inv_one s'"
    by (cases rule: step.cases) (auto simp: inv_one_def dest: one locked)
  moreover from step.hyps(2) have "inv_holder s'"
    by (cases rule: step.cases)
      (auto simp: inv_holder_def other_running_iff runsSession_def dest: alone locked ups free uniq)
  ultimately show ?case ..
qed

lemma up_alone:
  assumes "reachable s" "procs s t = Starting st e m" "st \<in> {Up, LivenessArmed, SelectionArmed}" "running s e'"
  shows "e' = e \<and> instanceGen s e' = m"
proof -
  have "runsSession s e m"
    using inv_one_holder [OF assms(1)] assms(2,3) unfolding inv_holder_def by blast
  then show ?thesis
    using inv_one_holder [OF assms(1)] assms(4) unfolding inv_one_def runsSession_def by blast
qed

lemma locked_alone:
  assumes "reachable s" "procs s t = Starting Locked e m"
  shows "\<not> running s e'"
  using inv_one_holder [OF assms(1)] assms(2) unfolding inv_holder_def by blast

lemma holder_locked:
  assumes "reachable s" "procs s t = Starting st e m" "st \<in> {Locked, Up, LivenessArmed, SelectionArmed}"
  shows "coreMutex s = Some t"
  using inv_lock [OF assms(1)] assms(2,3) unfolding inv_lock_def by (metis holding_simps(2))

section \<open>The exit-address resolution\<close>

definition ip_le :: "sys \<Rightarrow> bool" where
  "ip_le s \<longleftrightarrow> (\<forall>l. ipResolve s = Some l \<longrightarrow> l \<le> sessionGen s)"

definition ip_below :: "sys \<Rightarrow> bool" where
  "ip_below s \<longleftrightarrow> (\<forall>t st e m l. procs s t = Starting st e m \<longrightarrow>
     st \<in> {Locked, Up, LivenessArmed, SelectionArmed} \<longrightarrow> ipResolve s = Some l \<longrightarrow> l < m)"

definition ip_newest :: "sys \<Rightarrow> bool" where
  "ip_newest s \<longleftrightarrow> (\<forall>e l. running s e \<longrightarrow> coreMutex s = None \<longrightarrow> ipResolve s = Some l \<longrightarrow> instanceGen s e \<le> l)"

definition ip_current :: "sys \<Rightarrow> bool" where
  "ip_current s \<longleftrightarrow> (ipResolve s = Some (sessionGen s) \<longrightarrow> (\<exists>e. runsSession s e (sessionGen s)))"

text \<open>A thread that still has to run \<^verbatim>\<open>abortStaleEngineSession\<close> for the session, or \<^verbatim>\<open>stopIPResolve\<close>.\<close>

definition ends_ip :: "int \<Rightarrow> pc \<Rightarrow> bool" where
  "ends_ip l p = (case p of
     Starting st _ m \<Rightarrow> st = Finish \<and> m = l \<or> st \<in> {FailSel, FailIP}
   | Stopping st _ _ \<Rightarrow> st \<in> {StopSel, StopIP}
   | Idle \<Rightarrow> False)"

definition inv_ended :: "sys \<Rightarrow> bool" where
  "inv_ended s \<longleftrightarrow> (\<forall>l. ipResolve s = Some l \<longrightarrow> l < sessionGen s \<longrightarrow> (\<exists>t. ends_ip l (procs s t)))"

lemma ends_ip_simps [simp]:
  "\<not> ends_ip l Idle" "ends_ip l (Starting st e m) \<longleftrightarrow> st = Finish \<and> m = l \<or> st \<in> {FailSel, FailIP}"
  "ends_ip l (Stopping sp e m) \<longleftrightarrow> sp \<in> {StopSel, StopIP}"
  by (simp_all add: ends_ip_def)

lemma ends_ip_here: "ends_ip l p \<Longrightarrow> \<exists>t'. ends_ip l ((f(t := p)) t')"
  by (rule exI [of _ t]) simp

lemma ends_ip_kept: "\<exists>t'. ends_ip l (f t') \<Longrightarrow> (ends_ip l (f t) \<Longrightarrow> ends_ip l p) \<Longrightarrow> \<exists>t'. ends_ip l ((f(t := p)) t')"
  by (metis fun_upd_apply)

lemma ip_le: "reachable s \<Longrightarrow> ip_le s"
proof (induction rule: session.invariant)
  case init
  show ?case by (simp add: ip_le_def init_def)
next
  case (step s s')
  note le = step.IH [unfolded ip_le_def, rule_format]
  note starts = inv_marks [OF step.hyps(1), unfolded inv_marks_def, THEN conjunct1, rule_format]
  from step.hyps(2) show ?case
    by (cases rule: step.cases) (auto simp: ip_le_def dest: le starts)
qed

lemma ip_newest: "reachable s \<Longrightarrow> ip_newest s"
proof (induction rule: session.invariant)
  case init
  show ?case by (simp add: ip_newest_def init_def)
next
  case (step s s')
  note newest = step.IH [unfolded ip_newest_def, rule_format]
  note holder = locked_alone [OF step.hyps(1)] up_alone [OF step.hyps(1)] holder_locked [OF step.hyps(1)]
  from step.hyps(2) show ?case
    by (cases rule: step.cases) (auto simp: ip_newest_def dest: newest holder)
qed

lemma ip_below_current: "reachable s \<Longrightarrow> ip_below s \<and> ip_current s"
proof (induction rule: session.invariant)
  case init
  show ?case by (simp add: ip_below_def ip_current_def init_def)
next
  case (step s s')
  note below = step.IH [THEN conjunct1, unfolded ip_below_def, rule_format]
    and current = step.IH [THEN conjunct2, unfolded ip_current_def, rule_format]
  note le = ip_le [OF step.hyps(1), unfolded ip_le_def, rule_format]
  note marks = inv_marks [OF step.hyps(1), unfolded inv_marks_def]
  note starts = marks [THEN conjunct1, rule_format] and stops = marks [THEN conjunct2, THEN conjunct1, rule_format]
  note free = free_no_holder [OF step.hyps(1)] and uniq = holder_unique [OF step.hyps(1)]
  have fresh: "l < sessionGen s" if "\<not> running s e" "\<forall>e'. e' = e \<or> \<not> running s e'" "ipResolve s = Some l" for e l
    using le [OF that(3)] current that unfolding runsSession_def by (metis order_less_le)
  have not_armed: "ipResolve s \<noteq> Some (sessionGen s)"
    if "procs s t = Starting st e m" "st \<in> {Locked, Up, LivenessArmed, SelectionArmed}" for t st e m
    using below [OF that] starts [OF that(1)] that(2) by fastforce
  have runs: "\<exists>e. running s e \<and> instanceGen s e = sessionGen s" if "ipResolve s = Some (sessionGen s)"
    using current [OF that] by (simp add: runsSession_def)
  have kept: "\<exists>e'. e' \<noteq> e \<and> running s e' \<and> instanceGen s e' = sessionGen s"
    if "ipResolve s = Some (sessionGen s)" "procs s t = Stopping StopWait e g" "\<not> supersedes s e g" for t e g
    using runs [OF that(1)] stops [OF that(2)] that(3) by (metis stop_stage.distinct(7) supersedes_def)
  have armed: "\<exists>e'. running s e' \<and> instanceGen s e' = m" if "procs s t = Starting SelectionArmed e m" for t e m
    using inv_one_holder [OF step.hyps(1)] that unfolding inv_holder_def runsSession_def by blast
  from step.hyps(2) have "ip_below s'"
    by (cases rule: step.cases)
      (auto simp: ip_below_def other_running_iff dest: below free uniq intro: fresh)
  moreover from step.hyps(2) have "ip_current s'"
    by (cases rule: step.cases)
      (auto simp: ip_current_def runsSession_def dest: le not_armed kept armed intro: runs)
  ultimately show ?case ..
qed

lemma inv_ended: "reachable s \<Longrightarrow> inv_ended s"
proof (induction rule: session.invariant)
  case init
  show ?case by (simp add: inv_ended_def init_def)
next
  case (step s s')
  note ended = step.IH [unfolded inv_ended_def, rule_format]
  note newest = ip_newest [OF step.hyps(1), unfolded ip_newest_def, rule_format]
  have left: "\<exists>t'. ends_ip l (((procs s)(t := Starting Done e m)) t')"
    if "procs s t = Starting Finish e m" "running s e" "coreMutex s = None" "m < instanceGen s e"
      "ipResolve s = Some l" "l < sessionGen s" for t e m l
    using newest [OF that(2,3,5)] that by (intro ends_ip_kept [OF ended]) auto
  from step.hyps(2) show ?case
    by (cases rule: step.cases)
      (auto simp: inv_ended_def simp del: fun_upd_apply
         intro: ended ends_ip_here ends_ip_kept [OF ended] left)
qed

section \<open>Starts in flight\<close>

definition starters :: "sys \<Rightarrow> engine \<Rightarrow> nat set" where
  "starters s e = {t. counted (procs s t) e}"

definition inv_count :: "sys \<Rightarrow> bool" where
  "inv_count s \<longleftrightarrow> (\<forall>e. finite (starters s e) \<and> startsInFlight s e = int (card (starters s e)))"

lemma counted_simps [simp]:
  "\<not> counted Idle e" "counted (Starting st e' m) e \<longleftrightarrow> st \<noteq> Guarded \<and> e' = e" "\<not> counted (Stopping sp e' m) e"
  by (simp_all add: counted_def)

lemma inv_count_goto:
  assumes "inv_count s" "procs s' = procs s"
    "startsInFlight s' = (\<lambda>e. startsInFlight s e + of_bool (counted p e) - of_bool (counted (procs s t) e))"
  shows "inv_count (goto t p s')"
proof -
  have sets: "starters (goto t p s') e = (if counted p e then insert t (starters s e) else starters s e - {t})" for e
    using assms(2) by (auto simp: starters_def)
  have fin: "finite (starters s e)" and card: "startsInFlight s e = int (card (starters s e))" for e
    using assms(1) by (simp_all add: inv_count_def)
  have here: "t \<in> starters s e \<longleftrightarrow> counted (procs s t) e" for e by (simp add: starters_def)
  have pos: "counted (procs s t) e \<Longrightarrow> 0 < card (starters s e)" for e
    using fin [of e] here [of e] card_gt_0_iff by blast
  show ?thesis
    unfolding inv_count_def sets
    using fin by (auto simp: assms(3) card here card_insert_if card_Diff_singleton_if of_nat_diff Suc_le_eq dest: pos)
qed

lemma inv_count: "reachable s \<Longrightarrow> inv_count s"
proof (induction rule: session.invariant)
  case init
  show ?case by (simp add: inv_count_def init_def starters_def)
next
  case (step s s')
  from step.hyps(2) show ?case
  proof (cases rule: step.cases)
    case (report evs)
    with step.IH show ?thesis by (simp add: inv_count_def starters_def)
  qed (auto intro!: inv_count_goto [OF step.IH] simp: fun_eq_iff)
qed

section \<open>Runs\<close>

text \<open>The actions of a whole start, and those up to the loops that are armed after \<^verbatim>\<open>startLiveness\<close>.\<close>

definition start_until_up :: "nat \<Rightarrow> engine \<Rightarrow> action list" where
  "start_until_up t e = [RequestStart t e True, BeginStart t True, LockStart t, BringUp t]"

definition start_loops :: "nat \<Rightarrow> bool \<Rightarrow> action list" where
  "start_loops t watch = [ArmSelection t True watch, ArmIPResolve t]"

definition start_tail :: "nat \<Rightarrow> action list" where
  "start_tail t = [FinishStart t, PublishStart t, EndStart t]"

definition stop_clear :: "nat \<Rightarrow> action list" where
  "stop_clear t = [ClearStop t, ClearStop t, ClearStop t, ClearStop t]"

definition whole_start :: "nat \<Rightarrow> engine \<Rightarrow> action list" where
  "whole_start t e = start_until_up t e @ [ArmLiveness t] @ start_loops t True @ start_tail t"

definition conflict_run :: "action list" where
  "conflict_run = [RequestStart 1 EngineMihomo True, BeginStart 1 True] @
     whole_start 0 EngineXray @ [LockStart 1, ClearFailed 1, ClearFailed 1, ClearFailed 1, ClearFailed 1, EndStart 1]"

definition liveness_run :: "action list" where
  "liveness_run = start_until_up 0 EngineAwg @ [RequestStop 1 EngineAwg, ArmLiveness 0] @ start_loops 0 False @
     start_tail 0 @ stop_clear 1 @ [LockStop 1]"

definition watch_run :: "action list" where
  "watch_run = start_until_up 0 EngineXray @ [ArmLiveness 0, RequestStop 1 EngineXray] @ stop_clear 1 @
     start_loops 0 True @ [LockStop 1] @ start_until_up 2 EngineXray @ [ArmLiveness 2] @ start_loops 2 False @
     [FinishStart 0, EndStart 0] @ start_tail 2"

lemmas run_lists = conflict_run_def liveness_run_def watch_run_def whole_start_def start_until_up_def start_loops_def start_tail_def stop_clear_def

lemmas session_run_defs = init_def requestStart_engine replyAlreadyRunning_def lockStart_def finishStart_def clearFailed_def clearStop_def
  requestStop_engine stopEngineSession_def lockStop_def prepareStartLocked_def abortStaleEngineSession_def stopEngineInstance_def
  beginStart_def other_running_def runsSession_def supersedes_def engaged_def goto_def emit_def up_def
  stopLocked_def endSessionLoops_def

definition whole_stop :: "nat \<Rightarrow> engine \<Rightarrow> action list" where
  "whole_stop t e = RequestStop t e # stop_clear t"

definition no_engine :: "sys \<Rightarrow> bool" where
  "no_engine s \<longleftrightarrow> coreMutex s = None \<and> (\<forall>e. \<not> running s e)"

lemma start_run:
  assumes "no_engine s" "procs s t = Idle"
  shows "\<exists>s'. run exec (whole_start t e) s = Some s' \<and> procs s' = procs s \<and> coreMutex s' = None \<and>
    running s' = (running s)(e := True) \<and> instanceGen s' e = sessionGen s \<and> sessionGen s' = sessionGen s \<and>
    ipResolve s' = Some (sessionGen s) \<and> events s' = events s @ [EngineConnecting e, EngineConnected e (sessionGen s)]"
  using assms by (cases e) (simp_all add: no_engine_def run_lists session_run_defs fun_upd_idem)

lemma stop_clear_run:
  assumes "procs s t = Idle" "running s e"
  shows "\<exists>s'. run exec (whole_stop t e) s = Some s' \<and> procs s' = (procs s)(t := Stopping StopWait e (sessionGen s + 1)) \<and>
    coreMutex s' = coreMutex s \<and> running s' = running s \<and> instanceGen s' = instanceGen s \<and> sessionGen s' = sessionGen s + 1 \<and>
    livenessLoop s' = None \<and> selWatch s' = None \<and> ipResolve s' = None \<and> serverSel s' = None \<and>
    events s' = events s @ [EngineDisconnecting e]"
  using assms by (simp add: whole_stop_def run_lists session_run_defs)

lemma stop_lock_run:
  assumes "procs s t = Stopping StopWait e g" "coreMutex s = None" "instanceGen s e < g"
  shows "exec (LockStop t) s = Some (goto t Idle (emit (EngineDisconnected e g) (stopLocked e s)))"
  using assms by (simp add: lockStop_def stopEngineInstance_def supersedes_def)

lemma init_idle: "no_engine init" "procs init t = Idle" "sessionGen init = 0"
  by (simp_all add: no_engine_def init_def)

lemma started_run:
  obtains s where "reachable s" "\<forall>t. procs s t = Idle" "running s EngineXray" "ipResolve s = Some 0" "no_engine (stopLocked EngineXray s)"
    "instanceGen s EngineXray = 0" "sessionGen s = 0" "EngineConnected EngineXray 0 \<in> set (events s)"
proof -
  obtain s where s: "run exec (whole_start 0 EngineXray) init = Some s" "procs s = procs init" "coreMutex s = None"
    "running s = (running init)(EngineXray := True)" "instanceGen s EngineXray = sessionGen init" "sessionGen s = sessionGen init"
    "ipResolve s = Some (sessionGen init)"
    "events s = events init @ [EngineConnecting EngineXray, EngineConnected EngineXray (sessionGen init)]"
    using start_run [OF init_idle(1,2), of 0 EngineXray] by blast
  show thesis
    using run_reaches [OF s(1)] s(2-) init_idle by (intro that [of s]) (simp_all add: no_engine_def)
qed

lemma stopping_run:
  obtains s s' s'' where "reachable s" "procs s 1 = Stopping StopWait EngineXray 1" "exec (LockStop 1) s = Some s'"
    "run exec (whole_start 0 EngineXray) s' = Some s''" "running s'' EngineXray"
    "0 < sessionGen s" "\<forall>t e. procs s t \<noteq> Starting Publish e 0" "EngineConnected EngineXray 0 \<in> set (events s'')"
proof -
  obtain s0 where s0: "reachable s0" "\<forall>t. procs s0 t = Idle" "running s0 EngineXray" "ipResolve s0 = Some 0"
    "no_engine (stopLocked EngineXray s0)" "instanceGen s0 EngineXray = 0" "sessionGen s0 = 0" "EngineConnected EngineXray 0 \<in> set (events s0)"
    by (rule started_run)
  obtain s where s: "run exec (whole_stop 1 EngineXray) s0 = Some s" "procs s = (procs s0)(1 := Stopping StopWait EngineXray 1)"
    "coreMutex s = coreMutex s0" "running s = running s0" "instanceGen s = instanceGen s0" "sessionGen s = 1"
    "events s = events s0 @ [EngineDisconnecting EngineXray]"
    using stop_clear_run [OF spec [OF s0(2)] s0(3), of 1] s0(7) by auto
  let ?s' = "goto 1 Idle (emit (EngineDisconnected EngineXray 1) (stopLocked EngineXray s))"
  have quiet: "no_engine ?s'" "procs ?s' 0 = Idle" "coreMutex s = None"
    using s s0 by (simp_all add: no_engine_def)
  obtain s'' where s'': "run exec (whole_start 0 EngineXray) ?s' = Some s''" "running s'' EngineXray"
    "EngineConnected EngineXray 0 \<in> set (events s'')"
    using start_run [OF quiet(1,2), of EngineXray] s(7) s0(8) by auto
  show thesis
    using s s0(2) stop_lock_run [of s 1 EngineXray 1] quiet(3) s0(6)
    by (intro that [OF reaches_run [OF s0(1) s(1)] _ _ s''(1,2) _ _ s''(3)]) simp_all
qed

lemma starting_run:
  "\<exists>s. run exec (start_until_up 0 EngineMihomo) init = Some s \<and> procs s 0 = Starting Up EngineMihomo 0 \<and> procs s 1 = Idle"
  by (simp add: run_lists session_run_defs)

section \<open>Properties of the session protocol\<close>

text \<open>
  C5. Two engines never run at once: in every state that any interleaving of start and stop requests, their
  goroutines and their failures can reach, at most one of the three engines has a running instance.
\<close>

theorem at_most_one_engine:
  "reachable s \<Longrightarrow> running s e \<Longrightarrow> running s e' \<Longrightarrow> e = e'"
  using inv_one_holder [unfolded inv_one_def] by blast

theorem at_most_one_engine_witness:
  "\<exists>s. reachable s \<and> running s EngineXray \<and> \<not> running s EngineMihomo"
proof -
  obtain s where "reachable s" "running s EngineXray" by (rule started_run)
  with at_most_one_engine [of s EngineXray EngineMihomo] show ?thesis by auto
qed

text \<open>
  C17. The exit-address resolution never outlives its session: once every start and stop has run to its end, a
  resolution is armed only for the current session, and the instance it dials through is the running one. (While a
  stop is still clearing, or a stale start has yet to undo what it armed, it may be armed for an ended session.)
\<close>

theorem ip_resolution_never_leaks:
  assumes "reachable s" "\<And>t. procs s t = Idle" "ipResolve s = Some l"
  shows "l = sessionGen s \<and> (\<exists>e. runsSession s e l)"
proof -
  have "\<not> l < sessionGen s"
    using inv_ended [OF assms(1)] assms(2,3) by (auto simp: inv_ended_def)
  then have "l = sessionGen s"
    using ip_le [OF assms(1)] assms(3) by (fastforce simp: ip_le_def)
  then show ?thesis
    using ip_below_current [OF assms(1)] assms(3) by (simp add: ip_current_def)
qed

theorem ip_resolution_never_leaks_witness:
  "\<exists>s. reachable s \<and> (\<forall>t. procs s t = Idle) \<and> ipResolve s = Some 0 \<and> sessionGen s = 0 \<and> (\<exists>e. runsSession s e 0)"
proof -
  obtain s where s: "reachable s" "\<forall>t. procs s t = Idle" "ipResolve s = Some 0"
    by (rule started_run)
  with ip_resolution_never_leaks [OF s(1) spec [OF s(2)] s(3)] show ?thesis by auto
qed

text \<open>A stop's generation bounds the engine's instances from below, from the moment the stop has had the lock.\<close>

definition ended_before :: "engine \<Rightarrow> int \<Rightarrow> sys \<Rightarrow> bool" where
  "ended_before e g s \<longleftrightarrow> g \<le> sessionGen s \<and> (running s e \<longrightarrow> g \<le> instanceGen s e) \<and>
     (\<forall>t st m. procs s t = Starting st e m \<longrightarrow> st \<in> {Locked, Up, LivenessArmed, SelectionArmed} \<longrightarrow> g \<le> m)"

lemma ended_before_step:
  assumes "ended_before e g s" "step s s'"
  shows "ended_before e g s'"
proof -
  have gen: "g \<le> sessionGen s" and inst: "running s e \<Longrightarrow> g \<le> instanceGen s e"
    and holders: "procs s t = Starting st e m \<Longrightarrow> st \<in> {Locked, Up, LivenessArmed, SelectionArmed} \<Longrightarrow> g \<le> m" for t st m
    using assms(1) unfolding ended_before_def by blast+
  from assms(2) show ?thesis
    by (cases rule: step.cases) (use gen in \<open>auto simp: ended_before_def dest: inst holders split: if_splits\<close>)
qed

text \<open>
  C6. A stop that has had the lock is final for the sessions before it: whatever starts, stops and failures follow,
  in any interleaving, the engine it stopped never runs an instance of an earlier generation again. In particular a
  start requested before the stop cannot bring the engine up after it.
\<close>

theorem stopped_session_stays_down:
  assumes "reachable s" "procs s t = Stopping StopWait e g" "exec (LockStop t) s = Some s'"
    and "run exec as s' = Some s''" "running s'' e"
  shows "g \<le> instanceGen s'' e"
proof -
  have lock: "coreMutex s = None" using assms(2,3) by (auto simp: lockStop_def split: if_splits)
  have gen: "g \<le> sessionGen s" using inv_marks [OF assms(1)] assms(2) by (fastforce simp: inv_marks_def)
  have idle: "st \<notin> {Locked, Up, LivenessArmed, SelectionArmed}" if "procs s t' = Starting st e m" for t' st m
    using free_no_holder [OF assms(1) lock that] .
  have "ended_before e g s'"
    using assms(2,3) lock gen
    by (auto simp: lockStop_def stopEngineInstance_def supersedes_def ended_before_def split: if_splits dest: idle)
  then have "ended_before e g s''"
    by (rule session.stable [of "ended_before e g", rotated, OF _ assms(4)]) (rule ended_before_step)
  with assms(5) show ?thesis by (simp add: ended_before_def)
qed

theorem stopped_session_stays_down_witness:
  "\<exists>s s' s''. reachable s \<and> procs s 1 = Stopping StopWait EngineXray 1 \<and> exec (LockStop 1) s = Some s' \<and>
     run exec (whole_start 0 EngineXray) s' = Some s'' \<and> running s'' EngineXray \<and> 1 \<le> instanceGen s'' EngineXray"
proof -
  obtain s s' s'' where s: "reachable s" "procs s 1 = Stopping StopWait EngineXray 1" "exec (LockStop 1) s = Some s'"
    "run exec (whole_start 0 EngineXray) s' = Some s''" "running s'' EngineXray"
    "0 < sessionGen s" "\<forall>t e. procs s t \<noteq> Starting Publish e 0" "EngineConnected EngineXray 0 \<in> set (events s'')"
    by (rule stopping_run)
  have "1 \<le> instanceGen s'' EngineXray" by (rule stopped_session_stays_down [OF s(1-5)])
  with s(1-5) show ?thesis by (intro exI conjI)
qed

definition not_publishing :: "int \<Rightarrow> event list \<Rightarrow> sys \<Rightarrow> bool" where
  "not_publishing m evs s \<longleftrightarrow> m < sessionGen s \<and> (\<forall>t e. procs s t \<noteq> Starting Publish e m) \<and>
     (\<forall>e. EngineConnected e m \<in> set (events s) \<longrightarrow> EngineConnected e m \<in> set evs)"

lemma not_publishing_step:
  assumes "not_publishing m evs s" "step s s'"
  shows "not_publishing m evs s'"
proof -
  have gen: "m < sessionGen s" and none: "procs s t \<noteq> Starting Publish e m"
    and old: "EngineConnected e m \<in> set (events s) \<Longrightarrow> EngineConnected e m \<in> set evs" for t e
    using assms(1) by (auto simp: not_publishing_def)
  have other: "m' \<noteq> m" if "procs s t = Starting Publish e m'" for t e m' using none that by blast
  from assms(2) show ?thesis
    by (cases rule: step.cases) (use gen in \<open>auto simp: not_publishing_def none connects_only_def dest: other old split: if_splits\<close>)
qed



text \<open>
  A stop is taken from the moment a start is counted: while a start of the engine is anywhere between
  \<^verbatim>\<open>beginStart\<close> and the end of its goroutine, the engine is engaged, and a stop request goes through instead of
  being refused.
\<close>

theorem start_in_flight_is_stoppable:
  assumes "reachable s" "procs s t = Starting st e m" "st \<noteq> Guarded" "procs s t' = Idle"
  shows "engaged s e \<and> exec (RequestStop t' e) s = Some (goto t' (Stopping StopBump e 0) (s\<lparr>livenessLoop := None\<rparr>))"
proof -
  have "t \<in> starters s e" using assms(2,3) by (simp add: starters_def)
  then have "0 < startsInFlight s e"
    using inv_count [OF assms(1)] card_gt_0_iff unfolding inv_count_def by fastforce
  with assms(4) show ?thesis by (simp add: engaged_def requestStop_engine stopEngineSession_def)
qed

theorem start_in_flight_is_stoppable_witness:
  "\<exists>s. reachable s \<and> procs s 0 = Starting Up EngineMihomo 0 \<and> engaged s EngineMihomo"
proof -
  obtain s where s: "run exec (start_until_up 0 EngineMihomo) init = Some s" "procs s 0 = Starting Up EngineMihomo 0" "procs s 1 = Idle"
    using starting_run by (elim exE conjE)
  have "engaged s EngineMihomo"
    using start_in_flight_is_stoppable [OF run_reaches [OF s(1)] s(2) _ s(3)] by simp
  with run_reaches [OF s(1)] s(2) show ?thesis by blast
qed

text \<open>
  C30. Starts and stops that nothing disturbs do what they say: with no engine running and the lock free, a start of
  any engine brings it up under the current generation and reports connecting, then connected; a stop after it leaves
  no engine, no loop and no selection, reports disconnecting, then disconnected, and moves the generation by one.
\<close>

theorem start_stop_cycle:
  assumes "no_engine s" "procs s t = Idle"
  shows "\<exists>s1 s2. run exec (whole_start t e) s = Some s1 \<and> runsSession s1 e (sessionGen s) \<and>
     run exec (whole_stop t e @ [LockStop t]) s1 = Some s2 \<and> no_engine s2 \<and> procs s2 = procs s \<and>
     livenessLoop s2 = None \<and> selWatch s2 = None \<and> ipResolve s2 = None \<and> serverSel s2 = None \<and>
     sessionGen s2 = sessionGen s + 1 \<and>
     events s2 = events s @ [EngineConnecting e, EngineConnected e (sessionGen s),
       EngineDisconnecting e, EngineDisconnected e (sessionGen s + 1)]"
proof -
  obtain s1 where s1: "run exec (whole_start t e) s = Some s1" "procs s1 = procs s" "coreMutex s1 = None"
    "running s1 = (running s)(e := True)" "instanceGen s1 e = sessionGen s" "sessionGen s1 = sessionGen s"
    "events s1 = events s @ [EngineConnecting e, EngineConnected e (sessionGen s)]"
    using start_run [OF assms, of e] by auto
  have idle: "procs s1 t = Idle" and runs: "running s1 e" using s1 assms by simp_all
  obtain s2 where s2: "run exec (whole_stop t e) s1 = Some s2" "procs s2 = (procs s)(t := Stopping StopWait e (sessionGen s + 1))"
    "coreMutex s2 = None" "running s2 = running s1" "instanceGen s2 = instanceGen s1" "sessionGen s2 = sessionGen s + 1"
    "livenessLoop s2 = None" "selWatch s2 = None" "ipResolve s2 = None" "serverSel s2 = None" "events s2 = events s1 @ [EngineDisconnecting e]"
    using stop_clear_run [OF idle runs] s1(2,3,6) by auto
  have "exec (LockStop t) s2 = Some (goto t Idle (emit (EngineDisconnected e (sessionGen s + 1)) (stopLocked e s2)))"
    by (rule stop_lock_run) (simp_all add: s1 s2)
  with s1 s2 assms show ?thesis
    by (simp add: run_append runsSession_def no_engine_def fun_upd_idem del: exec.simps)
qed

theorem start_stop_cycle_witness:
  "\<exists>s. run exec (whole_start 0 EngineAwg @ whole_stop 0 EngineAwg @ [LockStop 0]) init = Some s \<and> no_engine s \<and>
     sessionGen s = 1"
  using start_stop_cycle [OF init_idle(1,2), of 0 EngineAwg] by (auto simp: run_append init_idle)

section \<open>Interleavings in which loops survive\<close>




end
