(* ===== verification/Log_Lines.thy ===== *)
theory Log_Lines
  imports Go_Net
begin

text \<open>
  Log lines, \<^verbatim>\<open>src/internal/logfmt/logfmt.go\<close>: the severity gate, the reader of a line's level and component, and
  the reader of xray's access log. \<^verbatim>\<open>BuildJSON\<close> (a timestamp and a JSON encoder) is left out.
\<close>

section \<open>Levels\<close>

type_synonym Level = string

definition Debug :: Level where "Debug = ''debug''"
definition Info :: Level where "Info = ''info''"
definition Warn :: Level where "Warn = ''warn''"
definition Error :: Level where "Error = ''error''"
definition Fatal :: Level where "Fatal = ''fatal''"

lemmas level_defs = Debug_def Info_def Warn_def Error_def Fatal_def

definition IsError :: "Level \<Rightarrow> bool" where
  "IsError l \<longleftrightarrow> l = Error \<or> l = Fatal"

definition Passes :: "int \<Rightarrow> Level \<Rightarrow> bool" where
  "Passes verbosity l =
     (if verbosity < 0 then False
      else if verbosity = 0 then IsError l
      else if verbosity = 1 then l \<noteq> Debug
      else True)"

definition severityTokens :: "string \<Rightarrow> Level option" where
  "severityTokens = map_of [(''trace'', Debug), (''debug'', Debug), (''info'', Info), (''warn'', Warn),
     (''warning'', Warn), (''error'', Error), (''fatal'', Fatal), (''panic'', Fatal)]"

section \<open>Reading a line\<close>

text \<open>The two loops of \<^verbatim>\<open>SplitLine\<close>: the leading severity tokens, then the leading bracketed components.\<close>

function strip_severity :: "Level \<Rightarrow> string \<Rightarrow> Level \<times> string" where
  "strip_severity level s = (case IndexByte s CHR '':'' of
     None \<Rightarrow> (level, s)
   | Some idx \<Rightarrow>
       if idx = 0 then (level, s)
       else (case severityTokens (ToLower (TrimSpace (take idx s))) of
               None \<Rightarrow> (level, s)
             | Some token \<Rightarrow> strip_severity token (TrimSpace (drop (idx + 1) s))))"
  by pat_completeness auto
termination
proof (relation "measure (\<lambda>(_, s). length s)")
  fix level s idx token
  assume "IndexByte s CHR '':'' = Some idx"
  then have "s \<noteq> []" by auto
  then show "((token, TrimSpace (drop (idx + 1) s)), level, s) \<in> measure (\<lambda>(_, s). length s)"
    using length_TrimSpace [of "drop (idx + 1) s"] by (simp add: le_less_trans)
qed simp

function strip_parts :: "string \<Rightarrow> string list \<times> string" where
  "strip_parts s =
     (if \<not> HasPrefix s ''['' then ([], s)
      else (case IndexByte s CHR '']'' of
              None \<Rightarrow> ([], s)
            | Some e \<Rightarrow>
                if e \<le> 1 then ([], s)
                else (case strip_parts (TrimSpace (drop (e + 1) s)) of
                        (parts, rest) \<Rightarrow> (TrimSpace (take (e - 1) (drop 1 s)) # parts, rest))))"
  by pat_completeness auto
termination
proof (relation "measure length")
  fix s e
  assume "\<not> \<not> HasPrefix s ''[''"
  then have "s \<noteq> []" by (auto simp: HasPrefix_iff)
  then show "(TrimSpace (drop (e + 1) s), s) \<in> measure length"
    using length_TrimSpace [of "drop (e + 1) s"] by (simp add: le_less_trans)
qed simp

declare strip_severity.simps [simp del] strip_parts.simps [simp del]

definition SplitLine :: "string \<Rightarrow> Level \<times> string \<times> string" where
  "SplitLine raw = (case strip_severity Info (TrimSpace raw) of
     (level, s) \<Rightarrow>
       (let s = (if \<not> HasPrefix s ''['' then (case IndexByte s CHR ''['' of None \<Rightarrow> s | Some i \<Rightarrow> TrimSpace (drop i s)) else s)
        in (case strip_parts s of
              (parts, msg) \<Rightarrow> (level, (if parts = [] then ''core'' else Join parts ''/''), msg))))"

text \<open>What \<^verbatim>\<open>Warnf\<close> and \<^verbatim>\<open>Errorf\<close> write: the level's token before the formatted text.\<close>

definition leveled :: "Level \<Rightarrow> string \<Rightarrow> string" where
  "leveled level text = level @ '': '' @ text"

section \<open>The access log\<close>

record Access =
  Src :: string
  Status :: string
  Network :: string
  Host :: string
  Port :: string
  Inbound :: string
  Outbound :: string

definition detourSeparators :: "string list" where
  "detourSeparators = ['' -> '', '' ==> '', '' >> '']"

fun split_at :: "string list \<Rightarrow> string \<Rightarrow> string \<times> string" where
  "split_at [] detour = ([], TrimSpace detour)"
| "split_at (sep # seps) detour = (case Index detour sep of
     Some k \<Rightarrow> (TrimSpace (take k detour), TrimSpace (drop (k + length sep) detour))
   | None \<Rightarrow> split_at seps detour)"

definition splitDetour :: "string \<Rightarrow> string \<times> string" where
  "splitDetour detour = split_at detourSeparators detour"

definition splitDest :: "string \<Rightarrow> string \<times> string \<times> string" where
  "splitDest d =
     (let (network, rest) = (case IndexByte d CHR '':'' of
            Some i \<Rightarrow> if i > 0 \<and> (take i d = ''tcp'' \<or> take i d = ''udp'') then (take i d, drop (i + 1) d) else ([], d)
          | None \<Rightarrow> ([], d))
      in (case SplitHostPort rest of Some (h, p) \<Rightarrow> (network, h, p) | None \<Rightarrow> (network, rest, [])))"

definition cut_detour :: "string \<Rightarrow> string \<times> string \<times> string" where
  "cut_detour s = (case Index s '' ['' of
     None \<Rightarrow> ([], [], s)
   | Some i \<Rightarrow> (case IndexByte (drop i s) CHR '']'' of
        Some j \<Rightarrow> if j > 1 then (case splitDetour (take (j - 2) (drop (i + 2) s)) of (ib, ob) \<Rightarrow> (ib, ob, TrimSpace (take i s)))
                  else ([], [], s)
      | None \<Rightarrow> ([], [], s)))"

definition ParseAccess :: "string \<Rightarrow> Access option" where
  "ParseAccess line =
     (let s = TrimSpace line in
      if \<not> HasPrefix s ''from '' then None
      else (case cut_detour s of (ib, ob, s) \<Rightarrow>
        (case Fields s of
           _ # src # status # rest \<Rightarrow>
             if status \<noteq> ''accepted'' \<and> status \<noteq> ''rejected'' then None
             else (case splitDest src of (_, sh, sp) \<Rightarrow>
               (let (net, host, port) = (case rest of [] \<Rightarrow> ([], [], []) | d # _ \<Rightarrow> splitDest d)
                in Some \<lparr>Src = (if sp \<noteq> [] then JoinHostPort sh sp else sh), Status = status, Network = net,
                         Host = host, Port = port, Inbound = ib, Outbound = ob\<rparr>))
         | _ \<Rightarrow> None)))"

section \<open>What a line's reader gives back\<close>

lemma severity_lower: "severityTokens t = Some l \<Longrightarrow> CHR ''['' \<notin> set t"
  by (auto simp: severityTokens_def split: if_splits)

lemma severity_bracket: "severityTokens (ToLower (TrimSpace (CHR ''['' # s))) = None"
proof -
  obtain r where "TrimSpace (CHR ''['' # s) = CHR ''['' # r"
    using TrimSpace_Cons [of "CHR ''[''" s] by (auto simp: is_space1_def)
  then have "CHR ''['' \<in> set (ToLower (TrimSpace (CHR ''['' # s)))"
    by (simp add: ToLower_def lower_char_def is_upper_def)
  then show ?thesis using severity_lower by (metis not_None_eq)
qed

lemma strip_severity_bracket: "strip_severity level (CHR ''['' # s) = (level, CHR ''['' # s)"
  by (subst strip_severity.simps) (auto simp: severity_bracket split: option.split)

definition bracketed :: "string list \<Rightarrow> string" where
  "bracketed parts = concat (map (\<lambda>p. ''['' @ p @ '']'') parts)"

text \<open>A component's name, and a message no component can be read from.\<close>

definition part_ok :: "string \<Rightarrow> bool" where
  "part_ok p \<longleftrightarrow> p \<noteq> [] \<and> CHR '']'' \<notin> set p \<and> trimmed_string p"

definition message_ok :: "string \<Rightarrow> bool" where
  "message_ok m \<longleftrightarrow> m \<noteq> [] \<and> trimmed_string m \<and> hd m \<noteq> CHR ''[''"

lemma bracketed_frame: "parts \<noteq> [] \<Longrightarrow> \<exists>q. bracketed parts = CHR ''['' # q @ '']''"
  by (cases parts rule: rev_cases; cases parts) (auto simp: bracketed_def Cons_eq_append_conv)

lemma bracketed_rest_trimmed:
  assumes "message_ok m"
  shows "TrimSpace (bracketed parts @ CHR '' '' # m) = (if parts = [] then m else bracketed parts @ CHR '' '' # m)"
proof (cases "parts = []")
  case True
  with assms show ?thesis by (simp add: bracketed_def message_ok_def TrimSpace_id)
next
  case False
  then obtain q where "bracketed parts = CHR ''['' # q @ '']''" using bracketed_frame by blast
  with assms False TrimSpace_framed [of "CHR ''[''" "CHR '']''" "CHR '' ''" m q] show ?thesis
    by (simp add: is_space1_def message_ok_def)
qed

lemma strip_parts_bracketed:
  assumes "list_all part_ok parts" "message_ok m"
  shows "strip_parts (if parts = [] then m else bracketed parts @ CHR '' '' # m) = (parts, m)"
  using assms(1)
proof (induction parts)
  case Nil
  with assms(2) show ?case
    by (subst strip_parts.simps) (cases m, auto simp: message_ok_def HasPrefix_def)
next
  case (Cons p ps)
  let ?rest = "bracketed ps @ CHR '' '' # m"
  have line: "bracketed (p # ps) @ CHR '' '' # m = CHR ''['' # p @ CHR '']'' # ?rest" by (simp add: bracketed_def)
  have p: "p \<noteq> []" "CHR '']'' \<notin> set p" "TrimSpace p = p" using Cons.prems by (simp_all add: part_ok_def TrimSpace_id)
  have "IndexByte (CHR ''['' # p @ CHR '']'' # ?rest) CHR '']'' = Some (length p + 1)"
    using IndexByte_append [of "CHR '']''" "CHR ''['' # p" ?rest] p(2) by simp
  moreover have "HasPrefix (CHR ''['' # p @ CHR '']'' # ?rest) ''[''" by (simp add: HasPrefix_def)
  moreover have "\<not> length p + 1 \<le> 1" using p(1) by simp
  ultimately have "strip_parts (CHR ''['' # p @ CHR '']'' # ?rest) =
      (case strip_parts (TrimSpace ?rest) of (parts, rest) \<Rightarrow> (p # parts, rest))"
    by (subst strip_parts.simps) (simp add: p(3))
  with Cons bracketed_rest_trimmed [OF assms(2), of ps] line show ?case by simp
qed

text \<open>
  A line the core writes is read back as it was written: for a warning or an error with one or more bracketed
  components in front of its message, \<^verbatim>\<open>SplitLine\<close> returns the level, the components joined by slashes and the
  message.
\<close>

theorem SplitLine_roundtrip:
  assumes "level \<in> {Warn, Error}" "parts \<noteq> []" "list_all part_ok parts" "message_ok m"
  shows "SplitLine (leveled level (bracketed parts @ '' '' @ m)) = (level, Join parts ''/'', m)"
proof -
  let ?body = "bracketed parts @ CHR '' '' # m"
  obtain q where q: "bracketed parts = CHR ''['' # q @ '']''" using bracketed_frame [OF assms(2)] by blast
  obtain c w where lv: "level = c # w" "byte c < 128" "\<not> is_space1 c" "CHR '':'' \<notin> set level" "level \<noteq> []"
      "severityTokens (ToLower (TrimSpace level)) = Some level"
  proof -
    have "severityTokens (ToLower (TrimSpace Warn)) = Some Warn" "severityTokens (ToLower (TrimSpace Error)) = Some Error"
      by code_simp+
    with assms(1) show thesis by (intro that [of "hd level" "tl level"]) (auto simp: level_defs is_space1_def)
  qed
  have trim: "TrimSpace (leveled level (bracketed parts @ '' '' @ m)) = level @ CHR '':'' # CHR '' '' # ?body"
    using TrimSpace_framed [of c "CHR '']''" "CHR '' ''" m "w @ '': ['' @ q"] assms(4) lv q
    by (simp add: leveled_def message_ok_def)
  have body: "TrimSpace ?body = ?body" using bracketed_rest_trimmed [OF assms(4), of parts] assms(2) by simp
  have "strip_severity Info (level @ CHR '':'' # CHR '' '' # ?body) = strip_severity level (TrimSpace ?body)"
    using lv(4-6) by (subst strip_severity.simps) simp
  also have "\<dots> = (level, ?body)" using strip_severity_bracket [of level "q @ CHR '']'' # CHR '' '' # m"] body q by simp
  finally show ?thesis
    using strip_parts_bracketed [OF assms(3,4)] assms(2) q trim by (simp add: SplitLine_def HasPrefix_def)
qed

theorem SplitLine_roundtrip_witness:
  "SplitLine ''error: [Xray][DNS] lookup failed: no such host'' = (Error, ''Xray/DNS'', ''lookup failed: no such host'')"
proof -
  have "list_all part_ok [''Xray'', ''DNS'']" "message_ok ''lookup failed: no such host''" by code_simp+
  from SplitLine_roundtrip [of Error, OF _ _ this] show ?thesis
    by (simp add: leveled_def bracketed_def Error_def)
qed

text \<open>
  A destination is split where it was joined: \<^verbatim>\<open>splitDest\<close> recovers the network, host and port of what xray
  writes as \<^verbatim>\<open>net:host:port\<close>, brackets around an IPv6 host included.
\<close>

theorem splitDest_roundtrip:
  assumes "net = ''tcp'' \<or> net = ''udp''" "set port \<inter> {CHR '':'', CHR ''['', CHR '']''} = {}" "set host \<inter> {CHR ''['', CHR '']''} = {}"
  shows "splitDest (net @ '':'' @ JoinHostPort host port) = (net, host, port)"
  using assms(1) SplitHostPort_JoinHostPort [OF assms(2,3)] by (auto simp: splitDest_def)

theorem splitDest_roundtrip_witness: "splitDest ''udp:[2001:db8::1]:443'' = (''udp'', ''2001:db8::1'', ''443'')"
  using splitDest_roundtrip [of "''udp''" "''443''" "''2001:db8::1''"] by (simp add: JoinHostPort_def Contains_def)

end
