(* ===== verification/Status_Queue.thy ===== *)
theory Status_Queue
  imports Machines Prelude "HOL-Library.Sublist"
begin

text \<open>
  Status events, \<^verbatim>\<open>src/internal/core/status_sink.go\<close> with \<^verbatim>\<open>emitStatus\<close> and \<^verbatim>\<open>updateConnectedAt\<close> of
  \<^verbatim>\<open>controller.go\<close>: the queue that delivers events emitted during an FFI call, its bound, and the order in which the
  host sees them. The host's callback is a number that names it.
\<close>

section \<open>Event codes\<close>

definition StatsEvent :: int where "StatsEvent = 300"
definition StatsError :: int where "StatsError = 301"
definition ServerEvent :: int where "ServerEvent = 302"
definition IPEvent :: int where "IPEvent = 303"
definition LogEvent :: int where "LogEvent = 400"
definition LogError :: int where "LogError = 401"
definition ConnEvent :: int where "ConnEvent = 402"
definition EngineConnectingCode :: int where "EngineConnectingCode = 500"
definition EngineConnectedCode :: int where "EngineConnectedCode = 501"
definition EngineErrorCode :: int where "EngineErrorCode = 502"
definition EngineDisconnectingCode :: int where "EngineDisconnectingCode = 503"
definition EngineDisconnectedCode :: int where "EngineDisconnectedCode = 504"
definition EngineAlreadyRunningCode :: int where "EngineAlreadyRunningCode = 505"
definition EngineConflictOtherCoreCode :: int where "EngineConflictOtherCoreCode = 506"
definition EngineStopRejectedNotRunningCode :: int where "EngineStopRejectedNotRunningCode = 507"

lemmas code_defs = StatsEvent_def StatsError_def ServerEvent_def IPEvent_def LogEvent_def LogError_def ConnEvent_def
  EngineConnectingCode_def EngineConnectedCode_def EngineErrorCode_def EngineDisconnectingCode_def
  EngineDisconnectedCode_def EngineAlreadyRunningCode_def EngineConflictOtherCoreCode_def EngineStopRejectedNotRunningCode_def

definition carriesErrorText :: "int \<Rightarrow> bool" where
  "carriesErrorText code \<longleftrightarrow> code \<in> {StatsError, EngineConnectingCode, EngineConnectedCode, EngineErrorCode,
     EngineDisconnectingCode, EngineDisconnectedCode, EngineAlreadyRunningCode, EngineConflictOtherCoreCode,
     EngineStopRejectedNotRunningCode}"

text \<open>The time of the session's connection, 0 when there is none; \<open>now\<close> is the clock's reading.\<close>

definition updateConnectedAt :: "int \<Rightarrow> int \<Rightarrow> int \<Rightarrow> int" where
  "updateConnectedAt now code at =
     (if code \<in> {EngineConnectedCode, EngineAlreadyRunningCode} then (if at = 0 then now else at)
      else if code \<in> {EngineDisconnectingCode, EngineDisconnectedCode, EngineErrorCode} then 0
      else at)"

section \<open>The queue\<close>

record statusEvent =
  callback :: nat
  code :: int
  message :: string

record statusQueue =
  pending :: "statusEvent list"
  draining :: bool

definition maxDeferredStatus :: nat where "maxDeferredStatus = 2048"

definition droppable :: "statusEvent \<Rightarrow> bool" where
  "droppable ev \<longleftrightarrow> code ev = LogEvent \<or> code ev = ConnEvent"

fun dropOldestDroppable :: "statusEvent list \<Rightarrow> statusEvent list" where
  "dropOldestDroppable [] = []"
| "dropOldestDroppable (ev # evs) = (if droppable ev then evs else ev # dropOldestDroppable evs)"

definition offer :: "statusQueue \<Rightarrow> statusEvent \<Rightarrow> bool \<Rightarrow> bool \<times> statusQueue" where
  "offer q ev mustDefer =
     (if \<not> mustDefer \<and> \<not> draining q then (False, q)
      else (let kept = (if length (pending q) \<ge> maxDeferredStatus then dropOldestDroppable (pending q) else pending q)
            in (True, q\<lparr>pending := kept @ [ev], draining := True\<rparr>)))"

text \<open>One round of \<^verbatim>\<open>drain\<close> under the queue's lock: the event to deliver, or the end of the goroutine.\<close>

definition drain_round :: "statusQueue \<Rightarrow> statusEvent option \<times> statusQueue" where
  "drain_round q = (case pending q of
     [] \<Rightarrow> (None, q\<lparr>pending := [], draining := False\<rparr>)
   | ev # evs \<Rightarrow> (Some ev, q\<lparr>pending := evs\<rparr>))"

text \<open>\<^verbatim>\<open>drain\<close> when nothing is offered meanwhile, with fuel for its rounds: \<open>None\<close> is fuel that ran out.\<close>

fun drain :: "('q \<Rightarrow> 'e option \<times> 'q) \<Rightarrow> nat \<Rightarrow> 'q \<Rightarrow> ('e list \<times> 'q) option" where
  "drain round 0 q = None"
| "drain round (Suc n) q = (case round q of
     (None, q') \<Rightarrow> Some ([], q')
   | (Some ev, q') \<Rightarrow> (case drain round n q' of None \<Rightarrow> None | Some (evs, q'') \<Rightarrow> Some (ev # evs, q'')))"

section \<open>The queue's contract\<close>

text \<open>What is left of a sequence of events when only events that may be shed are missing from it.\<close>

definition sheds :: "('e \<Rightarrow> bool) \<Rightarrow> 'e list \<Rightarrow> 'e list \<Rightarrow> bool" where
  "sheds may xs ys \<longleftrightarrow> subseq ys xs \<and> filter (\<lambda>e. \<not> may e) ys = filter (\<lambda>e. \<not> may e) xs"

lemma sheds_refl [simp]: "sheds may xs xs"
  by (simp add: sheds_def)

lemma sheds_trans: "sheds may xs ys \<Longrightarrow> sheds may ys zs \<Longrightarrow> sheds may xs zs"
  by (auto simp: sheds_def intro: subseq_order.order_trans)

lemma sheds_append: "sheds may xs ys \<Longrightarrow> sheds may xs' ys' \<Longrightarrow> sheds may (xs @ xs') (ys @ ys')"
  by (simp add: sheds_def list_emb_append_mono)

locale event_queue =
  fixes offer :: "'q \<Rightarrow> 'e \<Rightarrow> bool \<Rightarrow> bool \<times> 'q" and round :: "'q \<Rightarrow> 'e option \<times> 'q"
    and held :: "'q \<Rightarrow> 'e list" and busy :: "'q \<Rightarrow> bool" and may :: "'e \<Rightarrow> bool"
  assumes refused: "offer q e d = (False, q') \<Longrightarrow> q' = q \<and> \<not> busy q \<and> \<not> d"
    and taken: "offer q e d = (True, q') \<Longrightarrow> busy q' \<and> (\<exists>kept. held q' = kept @ [e] \<and> sheds may (held q) kept)"
    and next_round: "round q = (Some e, q') \<Longrightarrow> held q = e # held q' \<and> busy q' = busy q"
    and last_round: "round q = (None, q') \<Longrightarrow> held q = [] \<and> held q' = [] \<and> \<not> busy q'"
begin

text \<open>Left alone, the drain ends, having delivered exactly what was held, in order.\<close>

lemma drain_delivers:
  "length (held q) < n \<Longrightarrow> \<exists>q'. drain round n q = Some (held q, q') \<and> held q' = [] \<and> \<not> busy q'"
proof (induction n arbitrary: q)
  case (Suc n)
  show ?case
  proof (cases "round q")
    case (Pair r q')
    show ?thesis
    proof (cases r)
      case None
      with Pair last_round [of q q'] show ?thesis by simp
    next
      case (Some e)
      with Pair next_round [of q e q'] have held: "held q = e # held q'" by simp
      with Suc.prems have "length (held q') < n" by simp
      from Suc.IH [OF this] Pair Some held show ?thesis by auto
    qed
  qed
qed simp

end

lemma sheds_drop_oldest: "sheds droppable xs (dropOldestDroppable xs)"
  by (induction xs) (auto simp: sheds_def)

interpretation sq: event_queue offer drain_round pending draining droppable
proof
  fix q e d q'
  assume "offer q e d = (True, q')"
  then show "draining q' \<and> (\<exists>kept. pending q' = kept @ [e] \<and> sheds droppable (pending q) kept)"
    by (auto simp: offer_def Let_def sheds_drop_oldest split: if_splits)
qed (auto simp: offer_def drain_round_def Let_def split: if_splits list.splits)

section \<open>Emitting\<close>

text \<open>
  \<open>port\<close> is the host's side. \<open>scrub\<close> is \<^verbatim>\<open>logfmt.Scrub\<close>. An event the queue refuses is delivered by its emitter, later
  than the refusal when other threads get in between: it waits in \<open>direct\<close>.
\<close>

record port =
  sink :: "nat option"
  queue :: statusQueue
  connectedAt :: int
  inflight :: "statusEvent option"
  direct :: "statusEvent list"
  accepted :: "statusEvent list"
  handed :: "statusEvent list"

definition setStatusSink :: "nat option \<Rightarrow> port \<Rightarrow> port" where
  "setStatusSink fn s = s\<lparr>sink := fn\<rparr>"

definition deliver :: "statusEvent \<Rightarrow> bool \<Rightarrow> port \<Rightarrow> port" where
  "deliver ev mustDefer s = (case offer (queue s) ev mustDefer of
     (True, q) \<Rightarrow> s\<lparr>queue := q, accepted := accepted s @ [ev]\<rparr>
   | (False, q) \<Rightarrow> s\<lparr>queue := q, direct := direct s @ [ev]\<rparr>)"

definition emitStatus :: "(string \<Rightarrow> string) \<Rightarrow> int \<Rightarrow> bool \<Rightarrow> int \<Rightarrow> string \<Rightarrow> port \<Rightarrow> port" where
  "emitStatus scrub now inFFICall c msg s =
     (let s = s\<lparr>connectedAt := updateConnectedAt now c (connectedAt s)\<rparr>;
          msg = (if carriesErrorText c then scrub msg else msg)
      in (case sink s of
            None \<Rightarrow> s
          | Some cb \<Rightarrow> deliver \<lparr>callback = cb, code = c, message = msg\<rparr> inFFICall s))"

datatype port_action =
    SetSink "nat option" | Emit "string \<Rightarrow> string" int bool int string | DrainRound | DrainCall | DirectCall nat

fun exec_port :: "port_action \<Rightarrow> port \<Rightarrow> port option" where
  "exec_port (SetSink fn) s = Some (setStatusSink fn s)"
| "exec_port (Emit scrub now ffi c msg) s = Some (emitStatus scrub now ffi c msg s)"
| "exec_port DrainRound s =
     (if draining (queue s) \<and> inflight s = None then
        (case drain_round (queue s) of (next, q) \<Rightarrow> Some (s\<lparr>queue := q, inflight := next\<rparr>))
      else None)"
| "exec_port DrainCall s = (case inflight s of
     None \<Rightarrow> None | Some ev \<Rightarrow> Some (s\<lparr>inflight := None, handed := handed s @ [ev]\<rparr>))"
| "exec_port (DirectCall i) s =
     (if i < length (direct s) then Some (s\<lparr>direct := take i (direct s) @ drop (Suc i) (direct s)\<rparr>) else None)"

definition port0 :: port where
  "port0 = \<lparr>sink = None, queue = \<lparr>pending = [], draining = False\<rparr>, connectedAt = 0, inflight = None, direct = [],
            accepted = [], handed = []\<rparr>"

definition undelivered :: "port \<Rightarrow> statusEvent list" where
  "undelivered s = (case inflight s of None \<Rightarrow> [] | Some ev \<Rightarrow> [ev]) @ pending (queue s)"

definition port_trans :: "port \<Rightarrow> port \<Rightarrow> bool" where
  "port_trans s s' \<longleftrightarrow> (\<exists>a. exec_port a s = Some s')"

interpretation port: machine exec_port port0 port_trans
  by unfold_locales (auto simp: port_trans_def)

definition inv_port :: "port \<Rightarrow> bool" where
  "inv_port s \<longleftrightarrow> sheds droppable (accepted s) (handed s @ undelivered s) \<and>
     (\<not> draining (queue s) \<longrightarrow> undelivered s = [])"

lemma inv_port_deliver:
  assumes "inv_port s"
  shows "inv_port (deliver ev d s)"
proof (cases "offer (queue s) ev d")
  case (Pair taken q)
  show ?thesis
  proof (cases taken)
    case True
    then obtain kept where q: "draining q" "pending q = kept @ [ev]" "sheds droppable (pending (queue s)) kept"
      using sq.taken [of "queue s" ev d q] Pair by auto
    let ?fl = "case inflight s of None \<Rightarrow> [] | Some ev \<Rightarrow> [ev]"
    have "sheds droppable (handed s @ ?fl @ pending (queue s)) (handed s @ ?fl @ kept)"
      using q(3) by (intro sheds_append) simp_all
    with assms have "sheds droppable (accepted s) (handed s @ ?fl @ kept)"
      by (auto simp: inv_port_def undelivered_def intro: sheds_trans)
    then have "sheds droppable (accepted s @ [ev]) ((handed s @ ?fl @ kept) @ [ev])"
      by (rule sheds_append) simp
    with q(1,2) Pair True show ?thesis by (simp add: deliver_def inv_port_def undelivered_def)
  next
    case False
    with Pair sq.refused [of "queue s" ev d q] have "q = queue s" by simp
    with Pair False assms show ?thesis by (simp add: deliver_def inv_port_def undelivered_def)
  qed
qed

lemma inv_port_emit: "inv_port s \<Longrightarrow> inv_port (emitStatus scrub now ffi c msg s)"
proof -
  assume "inv_port s"
  then have "inv_port (s\<lparr>connectedAt := at\<rparr>)" for at by (simp add: inv_port_def undelivered_def)
  then show ?thesis by (simp add: emitStatus_def Let_def inv_port_deliver split: option.split)
qed

lemma inv_port_step: "inv_port s \<Longrightarrow> port_trans s s' \<Longrightarrow> inv_port s'"
proof -
  assume inv: "inv_port s" and "port_trans s s'"
  then obtain a where "exec_port a s = Some s'" by (auto simp: port_trans_def)
  with inv show ?thesis
    by (cases a) (auto simp: inv_port_emit, auto simp: inv_port_def undelivered_def setStatusSink_def drain_round_def
        split: if_splits option.splits list.splits)
qed

lemma inv_port: "reaches exec_port port0 s \<Longrightarrow> inv_port s"
  by (induction rule: port.invariant) (simp add: inv_port_def port0_def undelivered_def, blast intro: inv_port_step)



lemma droppable_count:
  "length (filter droppable (dropOldestDroppable xs)) = length (filter droppable xs) - 1"
  by (induction xs) auto

lemma length_drop_oldest: "filter droppable xs \<noteq> [] \<Longrightarrow> Suc (length (dropOldestDroppable xs)) = length xs"
  by (induction xs) auto

text \<open>
  The queue stays bounded by what it must keep: it never holds more than \<^verbatim>\<open>maxDeferredStatus\<close> events that may be
  shed, and an offer makes it longer than that only when none of its entries may be.
\<close>

theorem offer_bounded:
  assumes "length (filter droppable (pending q)) \<le> maxDeferredStatus" "offer q ev d = (True, q')"
  shows "length (filter droppable (pending q')) \<le> maxDeferredStatus \<and>
    (length (pending q') \<le> max maxDeferredStatus (length (pending q)) \<or> filter droppable (pending q) = [])"
proof (cases "maxDeferredStatus \<le> length (pending q)")
  case True
  with assms(2) have q': "pending q' = dropOldestDroppable (pending q) @ [ev]"
    by (auto simp: offer_def Let_def split: if_splits)
  show ?thesis
    using assms(1) droppable_count [of "pending q"] length_drop_oldest [of "pending q"]
    by (cases "filter droppable (pending q) = []") (auto simp: q' maxDeferredStatus_def)
next
  case False
  with assms(2) have q': "pending q' = pending q @ [ev]"
    by (auto simp: offer_def Let_def split: if_splits)
  have "length (filter droppable (pending q)) \<le> length (pending q)" by (rule length_filter_le)
  with False have "length (filter droppable (pending q)) < maxDeferredStatus" by linarith
  with False show ?thesis by (simp add: q')
qed

definition log_line :: statusEvent where
  "log_line = \<lparr>callback = 1, code = LogEvent, message = ''x''\<rparr>"

theorem offer_bounded_witness:
  "length (filter droppable (pending (snd (offer \<lparr>pending = replicate 3 log_line, draining = True\<rparr> log_line True)))) \<le> maxDeferredStatus"
proof -
  let ?q = "\<lparr>pending = replicate 3 log_line, draining = True\<rparr>"
  have "length (filter droppable (pending ?q)) \<le> maxDeferredStatus" by code_simp
  moreover have "offer ?q log_line True = (True, snd (offer ?q log_line True))" by (simp add: offer_def Let_def)
  ultimately show ?thesis using offer_bounded by blast
qed

text \<open>
  The drain goroutine ends and loses nothing: left alone, with as many rounds as events plus one, it delivers
  exactly the waiting events in their order and leaves the queue empty and idle.
\<close>

theorem drain_ends:
  "\<exists>q'. drain drain_round (Suc (length (pending q))) q = Some (pending q, q') \<and> pending q' = [] \<and> \<not> draining q'"
  by (rule sq.drain_delivers) simp

end
