(* ===== verification/Link_State.thy ===== *)
theory Link_State
  imports Prelude "HOL-Library.Word"
begin

text \<open>
  The link's state, \<^verbatim>\<open>src/internal/liveness/liveness.go\<close> and the loop of \<^verbatim>\<open>core/liveness.go\<close> that feeds it, with the
  parts of \<^verbatim>\<open>core/awg.go\<close> that measure and pick: the passive sampler, the log budget and the choice of a link.
  Durations are seconds, probe times milliseconds; byte counters are 64-bit words. Go's \<^verbatim>\<open>int\<close> counters are
  mathematical integers.
\<close>

section \<open>The tracker\<close>

datatype State = StateUnknown | StateUp | StateDown

fun State_String :: "State \<Rightarrow> string" where
  "State_String StateUp = ''up''"
| "State_String StateDown = ''down''"
| "State_String StateUnknown = ''unknown''"

definition HandshakeFresh :: int where "HandshakeFresh = 180"
definition DefaultDownAfter :: int where "DefaultDownAfter = 2"

record Tracker =
  DownAfter :: int
  tstate :: State
  fails :: int

definition downAfter :: "Tracker \<Rightarrow> int" where
  "downAfter t = (if DownAfter t > 0 then DownAfter t else DefaultDownAfter)"

definition ObserveSuccess :: "Tracker \<Rightarrow> (State \<times> bool) \<times> Tracker" where
  "ObserveSuccess t = ((StateUp, tstate t \<noteq> StateUp), t\<lparr>fails := 0, tstate := StateUp\<rparr>)"

definition ObserveFailure :: "Tracker \<Rightarrow> (State \<times> bool) \<times> Tracker" where
  "ObserveFailure t =
     (let t = t\<lparr>fails := fails t + 1\<rparr>
      in if fails t < downAfter t \<and> tstate t \<noteq> StateDown then ((tstate t, False), t)
         else ((StateDown, tstate t \<noteq> StateDown), t\<lparr>tstate := StateDown\<rparr>))"

record WGSample =
  RxDelta :: "64 word"
  TxDelta :: "64 word"
  HandshakeAge :: int
  HasHandshake :: bool

definition ObserveWG :: "WGSample \<Rightarrow> Tracker \<Rightarrow> (State \<times> bool) \<times> Tracker" where
  "ObserveWG s t =
     (if RxDelta s > 0 then ObserveSuccess t
      else if HasHandshake s \<and> HandshakeAge s < HandshakeFresh then ObserveSuccess t
      else if TxDelta s > 0 then ObserveFailure t
      else ((tstate t, False), t))"

definition tracker0 :: "int \<Rightarrow> Tracker" where
  "tracker0 n = \<lparr>DownAfter = n, tstate = StateUnknown, fails = 0\<rparr>"

text \<open>A history of conclusive observations, the newest first, and the verdict the tracker is to give on it.\<close>

fun observe :: "bool list \<Rightarrow> Tracker \<Rightarrow> Tracker" where
  "observe [] t = t"
| "observe (ok # obs) t = snd ((if ok then ObserveSuccess else ObserveFailure) (observe obs t))"

definition failures :: "bool list \<Rightarrow> int" where
  "failures obs = int (length (takeWhile Not obs))"

definition verdict :: "int \<Rightarrow> bool list \<Rightarrow> State" where
  "verdict n obs =
     (if n \<le> failures obs then StateDown else if True \<in> set obs then StateUp else StateUnknown)"

lemma failures_simps [simp]:
  "failures [] = 0" "failures (True # obs) = 0" "failures (False # obs) = failures obs + 1"
  by (simp_all add: failures_def)

lemma failures_nonneg [simp]: "0 \<le> failures obs"
  by (simp add: failures_def)

lemma observe_tracker:
  assumes "0 < downAfter (tracker0 n)"
  shows "observe obs (tracker0 n) =
    \<lparr>DownAfter = n, tstate = verdict (downAfter (tracker0 n)) obs, fails = failures obs\<rparr>"
proof (induction obs)
  case (Cons ok obs)
  have same: "downAfter \<lparr>DownAfter = n, tstate = x, fails = y\<rparr> = downAfter (tracker0 n)" for x y
    by (simp add: downAfter_def tracker0_def)
  from Cons assms show ?case
    by (cases ok) (auto simp: ObserveSuccess_def ObserveFailure_def Let_def verdict_def same)
qed (use assms in \<open>simp add: tracker0_def verdict_def\<close>)

text \<open>
  The debounced link state is a function of the history alone: after any sequence of probe outcomes the tracker
  says down exactly when the latest \<^verbatim>\<open>DownAfter\<close> outcomes (two by default) all failed, up when a success lies
  before fewer failures than that, and unknown while nothing has succeeded and too little has failed. Each
  observation reports a change exactly when the verdict changes.
\<close>

theorem tracker_implements_verdict:
  "tstate (observe obs (tracker0 n)) = verdict (downAfter (tracker0 n)) obs \<and>
   snd (fst (ObserveSuccess (observe obs (tracker0 n)))) =
     (verdict (downAfter (tracker0 n)) (True # obs) \<noteq> verdict (downAfter (tracker0 n)) obs) \<and>
   snd (fst (ObserveFailure (observe obs (tracker0 n)))) =
     (verdict (downAfter (tracker0 n)) (False # obs) \<noteq> verdict (downAfter (tracker0 n)) obs)"
proof -
  have pos: "0 < downAfter (tracker0 n)" by (simp add: downAfter_def tracker0_def DefaultDownAfter_def)
  have same: "downAfter \<lparr>DownAfter = n, tstate = x, fails = y\<rparr> = downAfter (tracker0 n)" for x y
    by (simp add: downAfter_def tracker0_def)
  show ?thesis
    using pos by (auto simp: observe_tracker [OF pos] ObserveSuccess_def ObserveFailure_def Let_def verdict_def same)
qed

section \<open>The liveness loop\<close>

definition defaultLivenessInterval :: int where "defaultLivenessInterval = 20"
definition quickLivenessInterval :: int where "quickLivenessInterval = 5"

definition livenessInterval :: "int \<Rightarrow> int" where
  "livenessInterval sec = (if 10 \<le> sec \<and> sec \<le> 300 then sec else defaultLivenessInterval)"

record link =
  linkState :: State
  linkProbeMs :: int
  tracker :: Tracker
  looping :: bool

text \<open>What one round observes: an active probe's time or failure, a passive sample, or counters that cannot be read.\<close>

datatype observation = ProbeOk int | ProbeFailed | Sampled WGSample | SampleFailed

definition stopLiveness :: "link \<Rightarrow> link" where
  "stopLiveness l =
     (if \<not> looping l then l else l\<lparr>looping := False, linkState := StateUnknown, linkProbeMs := -1\<rparr>)"

text \<open>\<open>probing\<close>: a probe or a sampler is set. A new loop has a tracker of its own.\<close>

definition startLiveness :: "bool \<Rightarrow> link \<Rightarrow> link" where
  "startLiveness probing l =
     (let l = stopLiveness l
      in if \<not> probing then l
         else l\<lparr>linkState := StateUnknown, linkProbeMs := -1, tracker := tracker0 0, looping := True\<rparr>)"

text \<open>
  The body of the loop for a round that no stop interrupts: the new state, the wait before the next round, and
  whether the exit address is asked for again.
\<close>

definition liveness_round :: "int \<Rightarrow> observation \<Rightarrow> link \<Rightarrow> link \<times> int \<times> bool" where
  "liveness_round interval ob l =
     (let (l, trigger) = (case ob of
            ProbeFailed \<Rightarrow> (l\<lparr>tracker := snd (ObserveFailure (tracker l))\<rparr>, False)
          | ProbeOk ms \<Rightarrow> (case ObserveSuccess (tracker l) of
              ((st, changed), tr) \<Rightarrow> (l\<lparr>linkProbeMs := ms, tracker := tr\<rparr>, changed))
          | SampleFailed \<Rightarrow> (l, False)
          | Sampled s \<Rightarrow> (case ObserveWG s (tracker l) of
              ((st, changed), tr) \<Rightarrow> (l\<lparr>tracker := tr\<rparr>, changed \<and> st = StateUp)));
          l = (if tstate (tracker l) \<noteq> StateUnknown then l\<lparr>linkState := tstate (tracker l)\<rparr> else l)
      in (l, (if tstate (tracker l) \<noteq> StateUp then quickLivenessInterval else interval), trigger))"

definition livenessSnapshot :: "link \<Rightarrow> bool \<times> int \<times> bool" where
  "livenessSnapshot l =
     (if linkState l = StateUnknown then (False, -1, False) else (linkState l = StateUp, linkProbeMs l, True))"

definition inv_link :: "link \<Rightarrow> bool" where
  "inv_link l \<longleftrightarrow> linkState l = tstate (tracker l)"

text \<open>
  Every round keeps the published link state equal to the tracker's verdict, waits either the quick interval
  (while the link is not up) or the configured one, always between 5 and 300 seconds, and asks for the exit address
  exactly on a change to up.
\<close>

theorem liveness_round_ok:
  assumes "inv_link l" "liveness_round (livenessInterval sec) ob l = (l', wait, trigger)"
  shows "inv_link l' \<and> 5 \<le> wait \<and> wait \<le> 300 \<and> (wait = quickLivenessInterval \<longleftrightarrow> linkState l' \<noteq> StateUp) \<and>
    (trigger \<longleftrightarrow> linkState l' = StateUp \<and> linkState l \<noteq> StateUp)"
  using assms
  by (auto simp: liveness_round_def inv_link_def livenessInterval_def quickLivenessInterval_def defaultLivenessInterval_def
      ObserveSuccess_def ObserveFailure_def ObserveWG_def Let_def split: observation.splits if_splits)

definition link0 :: link where
  "link0 = \<lparr>linkState = StateUnknown, linkProbeMs = -1, tracker = tracker0 0, looping = False\<rparr>"

theorem liveness_round_ok_witness:
  "inv_link (startLiveness True link0) \<and>
   (\<exists>l'. liveness_round (livenessInterval 60) (ProbeOk 31) (startLiveness True link0) = (l', 60, True) \<and> inv_link l')"
proof -
  let ?l = "startLiveness True link0"
  have inv: "inv_link ?l" by code_simp
  obtain l' where l': "liveness_round (livenessInterval 60) (ProbeOk 31) ?l = (l', 60, True)"
    by (simp add: liveness_round_def startLiveness_def stopLiveness_def link0_def ObserveSuccess_def tracker0_def livenessInterval_def)
  from liveness_round_ok [OF inv l'] inv l' show ?thesis by blast
qed

section \<open>The passive sampler\<close>

text \<open>The sampler's memory: the counters of the previous dump, once there was one. \<open>now\<close> and \<open>hs\<close> are Unix seconds.\<close>

record sampler =
  lastRx :: "64 word"
  lastTx :: "64 word"
  seeded :: bool

definition awgPassiveSampler :: "int \<Rightarrow> 64 word \<Rightarrow> 64 word \<Rightarrow> int \<Rightarrow> sampler \<Rightarrow> WGSample \<times> sampler" where
  "awgPassiveSampler now rx tx hs m =
     (\<lparr>RxDelta = (if seeded m \<and> rx \<ge> lastRx m then rx - lastRx m else 0),
       TxDelta = (if seeded m \<and> tx \<ge> lastTx m then tx - lastTx m else 0),
       HandshakeAge = (if hs > 0 then now - hs else 0),
       HasHandshake = hs > 0\<rparr>,
      \<lparr>lastRx = rx, lastTx = tx, seeded = True\<rparr>)"

text \<open>
  A passive sample never mistakes a counter for traffic: its deltas are the exact differences of two readings, 0
  on the first reading and 0 when a counter went back, so no 64-bit wrap-around ever reports received bytes.
\<close>

theorem sampler_deltas_exact:
  "unat (RxDelta (fst (awgPassiveSampler now rx tx hs m))) = (if seeded m then unat rx - unat (lastRx m) else 0) \<and>
   unat (TxDelta (fst (awgPassiveSampler now rx tx hs m))) = (if seeded m then unat tx - unat (lastTx m) else 0)"
  by (auto simp: awgPassiveSampler_def unat_sub word_le_nat_alt)

section \<open>The log budget\<close>

record lineBudget =
  perSecond :: int
  second :: int
  used :: int

definition take_line :: "int \<Rightarrow> lineBudget \<Rightarrow> bool \<times> lineBudget" where
  "take_line now b =
     (let b = (if now \<noteq> second b then b\<lparr>second := now, used := 0\<rparr> else b);
          b = b\<lparr>used := used b + 1\<rparr>
      in (used b \<le> perSecond b, b))"

fun take_lines :: "int list \<Rightarrow> lineBudget \<Rightarrow> bool list" where
  "take_lines [] b = []"
| "take_lines (now # ts) b = (case take_line now b of (ok, b') \<Rightarrow> ok # take_lines ts b')"

section \<open>Choosing an awg link\<close>

record Result =
  Alive :: bool
  DelayMs :: int

text \<open>\<open>rand n\<close> is \<^verbatim>\<open>rand.Intn(n)\<close>, a number below \<open>n\<close>.\<close>

fun best_of :: "Result list \<Rightarrow> nat \<Rightarrow> nat list \<Rightarrow> nat" where
  "best_of res best [] = best"
| "best_of res best (i # is) = best_of res (if DelayMs (res ! i) < DelayMs (res ! best) then i else best) is"

definition pickAwgWinner :: "(nat \<Rightarrow> nat) \<Rightarrow> Result list \<Rightarrow> string \<Rightarrow> nat" where
  "pickAwgWinner rand res strategy =
     (case filter (\<lambda>i. Alive (res ! i)) [0..<length res] of
        [] \<Rightarrow> 0
      | a # rest \<Rightarrow>
          (let s = ToLower (TrimSpace strategy)
           in if s = ''random'' then (a # rest) ! rand (length (a # rest))
              else if s = ''fallback'' \<or> s = ''roundrobin'' then a
              else best_of res a rest))"

definition pickAwgConfig :: "(nat \<Rightarrow> nat) \<Rightarrow> (string list \<Rightarrow> Result list) \<Rightarrow> string list \<Rightarrow> string \<Rightarrow> string \<times> nat" where
  "pickAwgConfig rand probe links strategy =
     (if links = [] then ([], 0)
      else if length links = 1 then (hd links, 0)
      else (let idx = pickAwgWinner rand (probe links) strategy;
                idx = (if idx \<ge> length links then 0 else idx)
            in (links ! idx, idx)))"

definition chooseAwgLink ::
  "(nat \<Rightarrow> nat) \<Rightarrow> (string list \<Rightarrow> Result list) \<Rightarrow> string list \<Rightarrow> string \<Rightarrow> string \<Rightarrow> (string \<times> nat) option" where
  "chooseAwgLink rand probe links strategy awgPicked =
     (if awgPicked = [] then Some (pickAwgConfig rand probe links strategy)
      else (case Atoi awgPicked of
              None \<Rightarrow> None
            | Some idx \<Rightarrow> if idx < 0 \<or> idx \<ge> int (length links) then None else Some (links ! nat idx, nat idx)))"

lemma best_of_least:
  "best_of res b is \<in> set (b # is) \<and> (\<forall>i \<in> set (b # is). DelayMs (res ! best_of res b is) \<le> DelayMs (res ! i))"
proof (induction "is" arbitrary: b)
  case (Cons i "is")
  have "DelayMs (res ! best_of res i is) \<le> DelayMs (res ! i)" "DelayMs (res ! best_of res b is) \<le> DelayMs (res ! b)"
    using Cons [of i] Cons [of b] by simp_all
  then show ?case using Cons [of i] Cons [of b] by auto
qed simp

lemma pickAwgWinner_ok:
  assumes "\<And>n. 0 < n \<Longrightarrow> rand n < n"
  shows "res \<noteq> [] \<Longrightarrow> pickAwgWinner rand res strategy < length res"
    and "\<exists>r \<in> set res. Alive r \<Longrightarrow> Alive (res ! pickAwgWinner rand res strategy)"
    and "\<exists>r \<in> set res. Alive r \<Longrightarrow> ToLower (TrimSpace strategy) \<notin> {''random'', ''fallback'', ''roundrobin''} \<Longrightarrow>
      r \<in> set res \<Longrightarrow> Alive r \<Longrightarrow> DelayMs (res ! pickAwgWinner rand res strategy) \<le> DelayMs r"
proof -
  let ?alive = "filter (\<lambda>i. Alive (res ! i)) [0..<length res]"
  have winner: "?alive = [] \<and> pickAwgWinner rand res strategy = 0 \<or> pickAwgWinner rand res strategy \<in> set ?alive"
  proof (cases ?alive)
    case (Cons a rest)
    have "(a # rest) ! rand (length (a # rest)) \<in> set (a # rest)" using assms [of "length (a # rest)"] by (intro nth_mem) simp
    with Cons best_of_least [of res a rest] show ?thesis by (simp only: pickAwgWinner_def list.case Let_def) auto
  qed (simp add: pickAwgWinner_def)
  show "res \<noteq> [] \<Longrightarrow> pickAwgWinner rand res strategy < length res" using winner by auto
  have some: "?alive \<noteq> []" if "\<exists>r \<in> set res. Alive r" using that by (auto simp: filter_empty_conv in_set_conv_nth Bex_def)
  then show "\<exists>r \<in> set res. Alive r \<Longrightarrow> Alive (res ! pickAwgWinner rand res strategy)" using winner by auto
  show "\<exists>r \<in> set res. Alive r \<Longrightarrow> ToLower (TrimSpace strategy) \<notin> {''random'', ''fallback'', ''roundrobin''} \<Longrightarrow>
      r \<in> set res \<Longrightarrow> Alive r \<Longrightarrow> DelayMs (res ! pickAwgWinner rand res strategy) \<le> DelayMs r"
  proof -
    assume "\<exists>r \<in> set res. Alive r" and strat: "ToLower (TrimSpace strategy) \<notin> {''random'', ''fallback'', ''roundrobin''}"
      and r: "r \<in> set res" "Alive r"
    then obtain a rest where alive: "?alive = a # rest" using some by (cases ?alive) auto
    obtain i where i: "i < length res" "res ! i = r" using r(1) by (auto simp: in_set_conv_nth)
    have "i \<in> set ?alive" using i r(2) by simp
    then have "i \<in> set (a # rest)" unfolding alive .
    with best_of_least [of res a rest] alive strat i show ?thesis by (auto simp: pickAwgWinner_def Let_def)
  qed
qed

text \<open>
  The link an awg start takes is an alive one whenever the probes found any, the least delayed one by default,
  and the first of the pool when none answered; a named choice is taken exactly when it is an index into the pool,
  and any other text is an error.
\<close>

theorem chooseAwgLink_ok:
  assumes "\<And>n. 0 < n \<Longrightarrow> rand n < n" "length (probe links) = length links" "links \<noteq> []"
  shows "(case chooseAwgLink rand probe links strategy awgPicked of
      Some (link, idx) \<Rightarrow> idx < length links \<and> link = links ! idx \<and>
        (awgPicked = [] \<and> length links > 1 \<and> (\<exists>r \<in> set (probe links). Alive r) \<longrightarrow>
           Alive (probe links ! idx) \<and>
           (ToLower (TrimSpace strategy) \<notin> {''random'', ''fallback'', ''roundrobin''} \<longrightarrow>
              (\<forall>r \<in> set (probe links). Alive r \<longrightarrow> DelayMs (probe links ! idx) \<le> DelayMs r)))
    | None \<Rightarrow> awgPicked \<noteq> [] \<and> \<not> (\<exists>i < length links. Atoi awgPicked = Some (int i)))"
proof (cases "awgPicked = []")
  case True
  let ?res = "probe links"
  show ?thesis
  proof (cases "length links = 1")
    case True
    with \<open>awgPicked = []\<close> assms(3) show ?thesis by (simp add: chooseAwgLink_def pickAwgConfig_def hd_conv_nth)
  next
    case False
    with assms(3) have more: "length links > 1" by (cases links) auto
    note w = pickAwgWinner_ok [of rand ?res strategy, OF assms(1)]
    have "?res \<noteq> []" using more assms(2) by auto
    then have idx: "pickAwgWinner rand ?res strategy < length links" using w(1) assms(2) by simp
    then have "chooseAwgLink rand probe links strategy awgPicked =
        Some (links ! pickAwgWinner rand ?res strategy, pickAwgWinner rand ?res strategy)"
      using \<open>awgPicked = []\<close> more assms(3) by (simp add: chooseAwgLink_def pickAwgConfig_def Let_def)
    with w(2,3) idx show ?thesis by auto
  qed
next
  case False
  show ?thesis
  proof (cases "Atoi awgPicked")
    case (Some n)
    with False show ?thesis
      by (auto simp: chooseAwgLink_def nat_less_iff)
  qed (simp add: chooseAwgLink_def False)
qed

definition example_probe :: "string list \<Rightarrow> Result list" where
  "example_probe links = map (\<lambda>l. \<lparr>Alive = (l \<noteq> ''a''), DelayMs = int (length l)\<rparr>) links"

theorem chooseAwgLink_ok_witness:
  "chooseAwgLink (\<lambda>n. 0) example_probe [''a'', ''bcd'', ''ef''] [] [] = Some (''ef'', 2) \<and>
   Alive (example_probe [''a'', ''bcd'', ''ef''] ! 2)"
proof -
  have pick: "chooseAwgLink (\<lambda>n. 0) example_probe [''a'', ''bcd'', ''ef''] [] [] = Some (''ef'', 2)" by code_simp
  have "\<exists>r \<in> set (example_probe [''a'', ''bcd'', ''ef'']). Alive r" by code_simp
  with pick chooseAwgLink_ok [of "\<lambda>n. 0" example_probe "[''a'', ''bcd'', ''ef'']" "[]" "[]"] show ?thesis
    by (simp add: example_probe_def)
qed

end
