(* ===== verification/Ip_Resolve.thy ===== *)
theory Ip_Resolve
  imports Machines Go_Net
begin

text \<open>
  The exit address, \<^verbatim>\<open>src/internal/core/ipresolve.go\<close>: its configuration, the generation that stops bump, and the one
  worker that fetches. Every access outside \<^verbatim>\<open>ipFetchMu\<close> is a step of its own. A dial names the session that made it;
  what it fetches is a parameter of the action that ends a fetch.
\<close>

section \<open>One fetch\<close>

record ipResolveConfig =
  enabled :: bool
  urlV4 :: string
  urlV6 :: string
  skipV6 :: bool
  dial :: "nat option"

record externalIPState =
  IPv4 :: string
  IPv6 :: string
  IPv4Error :: string
  IPv6Error :: string

definition defaultIPv4EchoURL :: string where "defaultIPv4EchoURL = ''https://api.ipify.org''"
definition defaultIPv6EchoURL :: string where "defaultIPv6EchoURL = ''https://api6.ipify.org''"
definition ipFetchAttempts :: nat where "ipFetchAttempts = 2"

text \<open>The answer of an echo: its status and body, or a transport error's text.\<close>

datatype echo = EchoError string | EchoResponse int string

definition is_v4_text :: "string \<Rightarrow> bool" where
  "is_v4_text s = (case ParseIP s of Some ip \<Rightarrow> is_v4 ip | None \<Rightarrow> False)"

text \<open>
  \<open>show_ip\<close> is \<^verbatim>\<open>net.IP.String\<close> and \<open>quote\<close> is \<^verbatim>\<open>fmt\<close>'s \<^verbatim>\<open>%q\<close>; the transport is read up to its answer.
\<close>

definition fetchIPEcho :: "(nat list \<Rightarrow> string) \<Rightarrow> (string \<Rightarrow> string) \<Rightarrow> bool \<Rightarrow> echo \<Rightarrow> string + string" where
  "fetchIPEcho show_ip quote wantV6 e = (case e of
     EchoError err \<Rightarrow> Inl err
   | EchoResponse status body \<Rightarrow>
       if status \<noteq> 200 then Inl (''echo status '' @ itoa status)
       else (let s = TrimSpace (take 256 body)
             in (case ParseIP s of
                   None \<Rightarrow> Inl (''echo returned '' @ quote (take 64 s))
                 | Some ip \<Rightarrow> if is_v4 ip = wantV6 then Inl (''echo returned wrong family: '' @ show_ip ip) else Inr (show_ip ip))))"

text \<open>The attempts' answers in order, at most \<^verbatim>\<open>ipFetchAttempts\<close> of them.\<close>

fun fetchIPEchoRetry :: "(nat list \<Rightarrow> string) \<Rightarrow> (string \<Rightarrow> string) \<Rightarrow> bool \<Rightarrow> echo list \<Rightarrow> string \<Rightarrow> string + string" where
  "fetchIPEchoRetry show_ip quote wantV6 [] lastErr = Inl lastErr"
| "fetchIPEchoRetry show_ip quote wantV6 (e # es) lastErr = (case fetchIPEcho show_ip quote wantV6 e of
     Inr ip \<Rightarrow> Inr ip
   | Inl err \<Rightarrow> fetchIPEchoRetry show_ip quote wantV6 es err)"

definition fetchExternalIPs ::
  "(nat list \<Rightarrow> string) \<Rightarrow> (string \<Rightarrow> string) \<Rightarrow> (string \<Rightarrow> string) \<Rightarrow> ipResolveConfig \<Rightarrow> echo list \<Rightarrow> echo list \<Rightarrow> externalIPState" where
  "fetchExternalIPs show_ip quote scrub cfg es4 es6 =
     (let (v4, e4) = (case fetchIPEchoRetry show_ip quote False (take ipFetchAttempts es4) [] of Inr ip \<Rightarrow> (ip, []) | Inl err \<Rightarrow> ([], scrub err));
          (v6, e6) = (if skipV6 cfg then ([], ''disabled'')
                      else (case fetchIPEchoRetry show_ip quote True (take ipFetchAttempts es6) [] of Inr ip \<Rightarrow> (ip, []) | Inl err \<Rightarrow> ([], scrub err)))
      in \<lparr>IPv4 = v4, IPv6 = v6, IPv4Error = e4, IPv6Error = e6\<rparr>)"

lemma fetchIPEchoRetry_family:
  "fetchIPEchoRetry show_ip quote wantV6 es lastErr = Inr a \<Longrightarrow> \<exists>ip. a = show_ip ip \<and> is_v4 ip = (\<not> wantV6)"
proof (induction es arbitrary: lastErr)
  case (Cons e es)
  show ?case
  proof (cases "fetchIPEcho show_ip quote wantV6 e")
    case (Inl err)
    with Cons show ?thesis by simp
  next
    case (Inr ip)
    with Cons.prems show ?thesis
      by (auto simp: fetchIPEcho_def Let_def split: echo.splits if_splits option.splits)
  qed
qed simp

text \<open>
  A reported exit address has the family of its field: whatever the echo servers answer, \<^verbatim>\<open>IPv4\<close> is empty or
  the text of an IPv4 address, \<^verbatim>\<open>IPv6\<close> empty or the text of an IPv6 one, and with IPv6 disabled the latter is never
  asked for.
\<close>

theorem fetched_address_family:
  "(IPv4 (fetchExternalIPs show_ip quote scrub cfg es4 es6) \<noteq> [] \<longrightarrow>
      (\<exists>ip. IPv4 (fetchExternalIPs show_ip quote scrub cfg es4 es6) = show_ip ip \<and> is_v4 ip)) \<and>
   (IPv6 (fetchExternalIPs show_ip quote scrub cfg es4 es6) \<noteq> [] \<longrightarrow>
      \<not> skipV6 cfg \<and> (\<exists>ip. IPv6 (fetchExternalIPs show_ip quote scrub cfg es4 es6) = show_ip ip \<and> \<not> is_v4 ip)) \<and>
   (skipV6 cfg \<longrightarrow> IPv6Error (fetchExternalIPs show_ip quote scrub cfg es4 es6) = ''disabled'')"
  by (auto simp: fetchExternalIPs_def Let_def split: sum.splits dest: fetchIPEchoRetry_family)

definition dotted :: "nat list \<Rightarrow> string" where
  "dotted ip = Join (map (\<lambda>b. itoa (int b)) (drop 12 ip)) ''.''"

definition echo_config :: ipResolveConfig where
  "echo_config = \<lparr>enabled = True, urlV4 = [], urlV6 = [], skipV6 = True, dial = Some 1\<rparr>"

theorem fetched_address_family_witness:
  "IPv4 (fetchExternalIPs dotted id id echo_config [EchoError ''timeout'', EchoResponse 200 ''203.0.113.7''] []) = ''203.0.113.7'' \<and>
   (\<exists>ip. dotted ip = ''203.0.113.7'' \<and> is_v4 ip)"
proof -
  have v4: "IPv4 (fetchExternalIPs dotted id id echo_config [EchoError ''timeout'', EchoResponse 200 ''203.0.113.7''] []) = ''203.0.113.7''"
    by code_simp
  with fetched_address_family [of dotted id id echo_config "[EchoError ''timeout'', EchoResponse 200 ''203.0.113.7'']" "[]"]
  show ?thesis by auto
qed

section \<open>The worker and the stops\<close>

text \<open>
  The fields under \<^verbatim>\<open>ipFetchMu\<close> with the worker's place in its loop: after each of its two lock-free loads, during
  the fetch, and at the test that ends the loop. \<open>stores\<close> are the results that \<^verbatim>\<open>configureIPResolve\<close> has yet to
  store itself. \<^verbatim>\<open>triggerIPResolve\<close>'s lock-free test of the configuration only decides whether it takes the lock
  and is one step with it.
\<close>

datatype worker = Idle | Start | GotConfig ipResolveConfig | GotGen ipResolveConfig int | Check

record resolver =
  ipGen :: int
  ipState :: "externalIPState option"
  ipConfig :: ipResolveConfig
  ipFetchBusy :: bool
  ipFetchAgain :: bool
  worker :: worker
  stores :: "(int \<times> externalIPState) list"
  ipEvents :: "externalIPState list"

definition noConfig :: ipResolveConfig where
  "noConfig = \<lparr>enabled = False, urlV4 = [], urlV6 = [], skipV6 = False, dial = None\<rparr>"

definition fetches :: "ipResolveConfig \<Rightarrow> bool" where
  "fetches cfg \<longleftrightarrow> enabled cfg \<and> dial cfg \<noteq> None"

definition unsupported :: externalIPState where
  "unsupported = \<lparr>IPv4 = [], IPv6 = [], IPv4Error = ''unsupported'', IPv6Error = ''unsupported''\<rparr>"

definition configureIPResolve :: "ipResolveConfig \<Rightarrow> resolver \<Rightarrow> resolver" where
  "configureIPResolve cfg s =
     (let cfg = cfg\<lparr>urlV4 := (if urlV4 cfg = [] then defaultIPv4EchoURL else urlV4 cfg),
                    urlV6 := (if urlV6 cfg = [] then defaultIPv6EchoURL else urlV6 cfg)\<rparr>;
          gen = ipGen s + 1
      in s\<lparr>ipGen := gen, ipState := None, ipConfig := cfg,
           stores := (if enabled cfg \<and> dial cfg = None then stores s @ [(gen, unsupported)] else stores s)\<rparr>)"

definition stopIPResolve :: "resolver \<Rightarrow> resolver" where
  "stopIPResolve s = s\<lparr>ipGen := ipGen s + 1, ipConfig := noConfig, ipState := None\<rparr>"

definition setExternalIPState :: "int \<Rightarrow> externalIPState \<Rightarrow> resolver \<Rightarrow> resolver" where
  "setExternalIPState gen st s =
     (if ipGen s \<noteq> gen \<or> ipState s = Some st then s
      else s\<lparr>ipState := Some st, ipEvents := ipEvents s @ [st]\<rparr>)"

definition triggerIPResolve :: "resolver \<Rightarrow> resolver" where
  "triggerIPResolve s =
     (if \<not> fetches (ipConfig s) then s
      else if ipFetchBusy s then s\<lparr>ipFetchAgain := True\<rparr>
      else s\<lparr>ipFetchBusy := True, worker := Start\<rparr>)"

datatype ip_action =
    Configure ipResolveConfig | StopResolve | Trigger | StoreUnsupported
  | LoadConfig | LoadGen | Fetched externalIPState | CheckAgain

fun exec_ip :: "ip_action \<Rightarrow> resolver \<Rightarrow> resolver option" where
  "exec_ip (Configure cfg) s = Some (configureIPResolve cfg s)"
| "exec_ip StopResolve s = Some (stopIPResolve s)"
| "exec_ip Trigger s = Some (triggerIPResolve s)"
| "exec_ip StoreUnsupported s = (case stores s of
     [] \<Rightarrow> None | (gen, st) # rest \<Rightarrow> Some (setExternalIPState gen st (s\<lparr>stores := rest\<rparr>)))"
| "exec_ip LoadConfig s = (if worker s = Start then Some (s\<lparr>worker := GotConfig (ipConfig s)\<rparr>) else None)"
| "exec_ip LoadGen s = (case worker s of
     GotConfig cfg \<Rightarrow> Some (s\<lparr>worker := (if fetches cfg then GotGen cfg (ipGen s) else Check)\<rparr>) | _ \<Rightarrow> None)"
| "exec_ip (Fetched st) s = (case worker s of
     GotGen cfg gen \<Rightarrow> Some (setExternalIPState gen st (s\<lparr>worker := Check\<rparr>)) | _ \<Rightarrow> None)"
| "exec_ip CheckAgain s =
     (if worker s \<noteq> Check then None
      else if \<not> ipFetchAgain s then Some (s\<lparr>ipFetchBusy := False, worker := Idle\<rparr>)
      else Some (s\<lparr>ipFetchAgain := False, worker := Start\<rparr>))"

fun configures :: "ip_action \<Rightarrow> bool" where
  "configures (Configure cfg) = True"
| "configures _ = False"

definition resolver0 :: resolver where
  "resolver0 = \<lparr>ipGen = 0, ipState = None, ipConfig = noConfig, ipFetchBusy = False, ipFetchAgain = False,
     worker = Idle, stores = [], ipEvents = []\<rparr>"

definition ip_trans :: "resolver \<Rightarrow> resolver \<Rightarrow> bool" where
  "ip_trans s s' \<longleftrightarrow> (\<exists>a. exec_ip a s = Some s')"

interpretation resolve: machine exec_ip resolver0 ip_trans
  by unfold_locales (auto simp: ip_trans_def)

lemmas ip_defs = configureIPResolve_def stopIPResolve_def setExternalIPState_def triggerIPResolve_def Let_def

definition inv_resolver :: "resolver \<Rightarrow> bool" where
  "inv_resolver s \<longleftrightarrow> (ipFetchBusy s \<longleftrightarrow> worker s \<noteq> Idle) \<and> (ipFetchAgain s \<longrightarrow> ipFetchBusy s) \<and>
     (\<forall>cfg g. worker s = GotGen cfg g \<longrightarrow> g \<le> ipGen s) \<and> (\<forall>(g, st) \<in> set (stores s). g \<le> ipGen s)"

lemma inv_resolver_parts:
  assumes "inv_resolver s"
  shows "inv_resolver (configureIPResolve cfg s)" "inv_resolver (stopIPResolve s)" "inv_resolver (triggerIPResolve s)"
    "inv_resolver (setExternalIPState g st s)" "stores s = x # rest \<Longrightarrow> inv_resolver (s\<lparr>stores := rest\<rparr>)"
    "worker s \<noteq> Idle \<Longrightarrow> inv_resolver (s\<lparr>worker := Check\<rparr>)" "worker s \<noteq> Idle \<Longrightarrow> inv_resolver (s\<lparr>worker := GotConfig c\<rparr>)"
    "worker s \<noteq> Idle \<Longrightarrow> inv_resolver (s\<lparr>worker := GotGen c (ipGen s)\<rparr>)"
    "worker s \<noteq> Idle \<Longrightarrow> inv_resolver (s\<lparr>ipFetchAgain := False, worker := Start\<rparr>)"
    "\<not> ipFetchAgain s \<Longrightarrow> inv_resolver (s\<lparr>ipFetchBusy := False, worker := Idle\<rparr>)"
  using assms
  unfolding inv_resolver_def configureIPResolve_def stopIPResolve_def triggerIPResolve_def setExternalIPState_def Let_def
  by auto

lemma inv_resolver_exec: "inv_resolver s \<Longrightarrow> exec_ip a s = Some s' \<Longrightarrow> inv_resolver s'"
  by (cases a) (auto simp: inv_resolver_parts split: if_splits list.splits worker.splits)

lemma inv_resolver: "reaches exec_ip resolver0 s \<Longrightarrow> inv_resolver s"
  by (induction rule: resolve.invariant)
    (simp add: inv_resolver_def resolver0_def, auto simp: ip_trans_def intro: inv_resolver_exec)

text \<open>Nothing a thread still holds can be stored before the next configuration.\<close>

definition silenced :: "externalIPState list \<Rightarrow> resolver \<Rightarrow> bool" where
  "silenced evs s \<longleftrightarrow> \<not> fetches (ipConfig s) \<and> ipState s = None \<and> ipEvents s = evs \<and>
     (\<forall>(g, st) \<in> set (stores s). g < ipGen s) \<and>
     (case worker s of GotConfig cfg \<Rightarrow> \<not> fetches cfg | GotGen cfg g \<Rightarrow> g < ipGen s | _ \<Rightarrow> True)"

lemma silenced_parts:
  assumes "silenced evs s"
  shows "silenced evs (stopIPResolve s)" "silenced evs (triggerIPResolve s)"
    "stores s = (g, st) # rest \<Longrightarrow> silenced evs (setExternalIPState g st (s\<lparr>stores := rest\<rparr>))"
    "worker s = GotGen c g \<Longrightarrow> silenced evs (setExternalIPState g st (s\<lparr>worker := Check\<rparr>))"
    "worker s = GotConfig c \<Longrightarrow> \<not> fetches c"
    "silenced evs (s\<lparr>worker := Check\<rparr>)" "silenced evs (s\<lparr>worker := GotConfig (ipConfig s)\<rparr>)"
    "silenced evs (s\<lparr>ipFetchAgain := False, worker := Start\<rparr>)" "silenced evs (s\<lparr>ipFetchBusy := False, worker := Idle\<rparr>)"
  using assms
  unfolding silenced_def stopIPResolve_def triggerIPResolve_def setExternalIPState_def
  by (auto simp: noConfig_def fetches_def split: worker.splits)

lemma silenced_exec: "silenced evs s \<Longrightarrow> exec_ip a s = Some s' \<Longrightarrow> \<not> configures a \<Longrightarrow> silenced evs s'"
  by (cases a) (auto simp: silenced_parts split: if_splits list.splits worker.splits)

lemma silenced_run:
  "silenced evs s \<Longrightarrow> run exec_ip as s = Some s' \<Longrightarrow> \<not> list_ex configures as \<Longrightarrow> silenced evs s'"
proof (induction as arbitrary: s)
  case (Cons a as)
  obtain s1 where s1: "exec_ip a s = Some s1" "run exec_ip as s1 = Some s'"
    using Cons.prems(2) by (auto split: option.splits)
  have "silenced evs s1"
    by (rule silenced_exec [OF Cons.prems(1) s1(1)]) (use Cons.prems(3) in simp)
  from Cons.IH [OF this s1(2)] Cons.prems(3) show ?case by simp
qed simp


definition example_config :: ipResolveConfig where
  "example_config = \<lparr>enabled = True, urlV4 = ''u'', urlV6 = ''w'', skipV6 = True, dial = Some 1\<rparr>"

definition an_address :: externalIPState where
  "an_address = \<lparr>IPv4 = ''203.0.113.7'', IPv6 = [], IPv4Error = [], IPv6Error = ''disabled''\<rparr>"



text \<open>A trigger's round is owed until the worker loads the configuration again.\<close>

definition owed :: "resolver \<Rightarrow> bool" where
  "owed s \<longleftrightarrow> inv_resolver s \<and> (ipFetchAgain s \<or> worker s = Start)"

lemma owed_exec: "owed s \<Longrightarrow> exec_ip a s = Some s' \<Longrightarrow> a \<noteq> LoadConfig \<Longrightarrow> owed s'"
  using inv_resolver_exec [of s a s']
  by (cases a) (auto simp: owed_def ip_defs split: if_splits list.splits worker.splits)

lemma owed_run: "owed s \<Longrightarrow> run exec_ip as s = Some s' \<Longrightarrow> LoadConfig \<notin> set as \<Longrightarrow> owed s'"
proof (induction as arbitrary: s)
  case (Cons a as)
  obtain s1 where s1: "exec_ip a s = Some s1" "run exec_ip as s1 = Some s'"
    using Cons.prems(2) by (auto split: option.splits)
  have "owed s1" by (rule owed_exec [OF Cons.prems(1) s1(1)]) (use Cons.prems(3) in auto)
  from Cons.IH [OF this s1(2)] Cons.prems(3) show ?case by simp
qed simp

text \<open>
  C38. No trigger is lost: after a trigger the worker never comes to rest before it has loaded the configuration
  again, whether a fetch was under way or not.
\<close>

theorem trigger_never_lost:
  assumes "reaches exec_ip resolver0 s" "fetches (ipConfig s)"
    and "run exec_ip as (triggerIPResolve s) = Some s'" "worker s' = Idle"
  shows "LoadConfig \<in> set as"
proof (rule ccontr)
  assume none: "LoadConfig \<notin> set as"
  have "owed (triggerIPResolve s)"
    using inv_resolver_parts(3) [OF inv_resolver [OF assms(1)]] assms(2)
    by (auto simp: owed_def triggerIPResolve_def)
  from owed_run [OF this assms(3) none] assms(4) show False by (auto simp: owed_def inv_resolver_def)
qed

theorem trigger_never_lost_witness:
  "\<exists>s s'. run exec_ip [Configure example_config] resolver0 = Some s \<and> fetches (ipConfig s) \<and>
     run exec_ip [LoadConfig, LoadGen, Fetched an_address, CheckAgain] (triggerIPResolve s) = Some s' \<and> worker s' = Idle \<and>
     LoadConfig \<in> set [LoadConfig, LoadGen, Fetched an_address, CheckAgain]"
proof -
  let ?as = "[LoadConfig, LoadGen, Fetched an_address, CheckAgain]"
  let ?s = "the (run exec_ip [Configure example_config] resolver0)"
  let ?s' = "the (run exec_ip ?as (triggerIPResolve ?s))"
  have s: "run exec_ip [Configure example_config] resolver0 = Some ?s" "fetches (ipConfig ?s)"
    "run exec_ip ?as (triggerIPResolve ?s) = Some ?s'" "worker ?s' = Idle"
    by (simp_all add: ip_defs resolver0_def example_config_def noConfig_def fetches_def)
  from trigger_never_lost [OF run_reaches [OF s(1)] s(2-4)] s show ?thesis by blast
qed

end
