(* ===== verification/Go_Encoding.thy ===== *)
theory Go_Encoding
  imports Prelude
begin

text \<open>
  The encoders of Go's standard library that links and keys use: \<^verbatim>\<open>encoding/base64\<close> in its four variants,
  \<^verbatim>\<open>encoding/hex\<close> and the path-segment escaping of \<^verbatim>\<open>net/url\<close>. Bytes are characters.
\<close>

section \<open>Base64\<close>

definition std_alphabet :: string where
  "std_alphabet = ''ABCDEFGHIJKLMNOPQRSTUVWXYZabcdefghijklmnopqrstuvwxyz0123456789+/''"

definition url_alphabet :: string where
  "url_alphabet = ''ABCDEFGHIJKLMNOPQRSTUVWXYZabcdefghijklmnopqrstuvwxyz0123456789-_''"

fun index_of :: "char \<Rightarrow> string \<Rightarrow> nat option" where
  "index_of c [] = None"
| "index_of c (d # ds) = (if c = d then Some 0 else map_option Suc (index_of c ds))"

definition b64_bytes :: "nat \<Rightarrow> nat \<Rightarrow> nat \<Rightarrow> nat \<Rightarrow> string" where
  "b64_bytes a b c d =
     (let n = a * 262144 + b * 4096 + c * 64 + d
      in [char_of (n div 65536), char_of (n div 256 mod 256), char_of (n mod 256)])"

text \<open>One quantum of four characters; padding stands only at the end of a padded encoding.\<close>

fun b64_decode :: "string \<Rightarrow> bool \<Rightarrow> string \<Rightarrow> string option" where
  "b64_decode alpha pad [] = Some []"
| "b64_decode alpha pad [a] = None"
| "b64_decode alpha pad [a, b] =
     (if pad then None
      else (case (index_of a alpha, index_of b alpha) of
              (Some x, Some y) \<Rightarrow> Some (take 1 (b64_bytes x y 0 0)) | _ \<Rightarrow> None))"
| "b64_decode alpha pad [a, b, c] =
     (if pad then None
      else (case (index_of a alpha, index_of b alpha, index_of c alpha) of
              (Some x, Some y, Some z) \<Rightarrow> Some (take 2 (b64_bytes x y z 0)) | _ \<Rightarrow> None))"
| "b64_decode alpha pad (a # b # c # d # rest) =
     (if pad \<and> rest = [] \<and> d = CHR ''='' then
        (if c = CHR ''='' then
           (case (index_of a alpha, index_of b alpha) of
              (Some x, Some y) \<Rightarrow> Some (take 1 (b64_bytes x y 0 0)) | _ \<Rightarrow> None)
         else (case (index_of a alpha, index_of b alpha, index_of c alpha) of
              (Some x, Some y, Some z) \<Rightarrow> Some (take 2 (b64_bytes x y z 0)) | _ \<Rightarrow> None))
      else (case (index_of a alpha, index_of b alpha, index_of c alpha, index_of d alpha) of
              (Some x, Some y, Some z, Some w) \<Rightarrow>
                (case b64_decode alpha pad rest of None \<Rightarrow> None | Some out \<Rightarrow> Some (b64_bytes x y z w @ out))
            | _ \<Rightarrow> None))"

text \<open>The decoder skips line breaks wherever they stand.\<close>

definition b64_DecodeString :: "string \<Rightarrow> bool \<Rightarrow> string \<Rightarrow> string option" where
  "b64_DecodeString alpha pad s = b64_decode alpha pad (filter (\<lambda>c. byte c \<noteq> 10 \<and> byte c \<noteq> 13) s)"

fun b64_encode :: "string \<Rightarrow> string \<Rightarrow> string" where
  "b64_encode alpha [] = []"
| "b64_encode alpha [x] = [alpha ! (byte x div 4), alpha ! (byte x mod 4 * 16)]"
| "b64_encode alpha [x, y] =
     [alpha ! (byte x div 4), alpha ! (byte x mod 4 * 16 + byte y div 16), alpha ! (byte y mod 16 * 4)]"
| "b64_encode alpha (x # y # z # rest) =
     [alpha ! (byte x div 4), alpha ! (byte x mod 4 * 16 + byte y div 16),
      alpha ! (byte y mod 16 * 4 + byte z div 64), alpha ! (byte z mod 64)] @ b64_encode alpha rest"

text \<open>Padding to a multiple of four, as the encodings with padding write it.\<close>

definition b64_pad :: "string \<Rightarrow> string" where
  "b64_pad s = s @ replicate ((4 - length s mod 4) mod 4) CHR ''=''"

definition alphabet_ok :: "string \<Rightarrow> bool" where
  "alphabet_ok alpha \<longleftrightarrow> length alpha = 64 \<and> distinct alpha \<and> list_all (\<lambda>c. 32 < byte c \<and> byte c < 127) alpha"

lemma url_alphabet_ok: "alphabet_ok url_alphabet"
  by code_simp

lemma index_of_nth: "distinct ds \<Longrightarrow> i < length ds \<Longrightarrow> index_of (ds ! i) ds = Some i"
  by (induction ds arbitrary: i) (auto simp: nth_Cons split: nat.splits)

lemma byte_less [simp]: "byte c < 256"
  using of_char_eq_iff [of c] by simp

lemma char_of_byte [simp]: "char_of (byte c) = c"
  by simp

lemma b64_sum:
  fixes a b c d e f :: nat
  assumes "x = 4 * a + b" "y = 16 * c + d" "z = 64 * e + f"
  shows "a * 262144 + (b * 16 + c) * 4096 + (d * 4 + e) * 64 + f = 65536 * x + 256 * y + z"
  using assms by simp

lemma b64_split:
  fixes x y z :: nat
  assumes "x < 256" "y < 256" "z < 256"
  shows "(65536 * x + 256 * y + z) div 65536 = x" "(65536 * x + 256 * y + z) div 256 mod 256 = y"
    "(65536 * x + 256 * y + z) mod 256 = z"
proof -
  have "(65536 * x + 256 * y + z) div 256 = 256 * x + y"
    using div_mult_self3 [of 256 z "256 * x + y"] assms(3) by (simp add: algebra_simps)
  then show "(65536 * x + 256 * y + z) div 256 mod 256 = y" using assms(2) by simp
  have "65536 * x + 256 * y + z = z + 256 * (256 * x + y)" by simp
  then show "(65536 * x + 256 * y + z) mod 256 = z" using assms(3) by (simp only: mod_mult_self2) simp
  have "256 * y + z < 65536" using assms(2,3) by simp
  then show "(65536 * x + 256 * y + z) div 65536 = x"
    using div_mult_self3 [of 65536 "256 * y + z" x] by (simp add: add.assoc)
qed

lemma b64_bytes_join:
  assumes "x < 256" "y < 256" "z < 256"
  shows "b64_bytes (x div 4) (x mod 4 * 16 + y div 16) (y mod 16 * 4 + z div 64) (z mod 64) = [char_of x, char_of y, char_of z]"
  using b64_sum [OF mult_div_mod_eq [symmetric] mult_div_mod_eq [symmetric] mult_div_mod_eq [symmetric], of x y z]
  by (simp only: b64_bytes_def Let_def b64_split [OF assms])

lemma sextets:
  fixes x y z :: nat
  assumes "x < 256" "y < 256" "z < 256"
  shows "x div 4 < 64" "x mod 4 * 16 + y div 16 < 64" "y mod 16 * 4 + z div 64 < 64" "x mod 4 * 16 < 64" "y mod 16 * 4 < 64" "z mod 64 < 64"
proof -
  have sum: "a < 4 \<Longrightarrow> b < 16 \<Longrightarrow> a * 16 + b < 64" "a < 16 \<Longrightarrow> b < 4 \<Longrightarrow> a * 4 + b < 64" for a b :: nat by linarith+
  show "x div 4 < 64" "z mod 64 < 64" using assms by (simp_all add: less_mult_imp_div_less)
  show "x mod 4 * 16 + y div 16 < 64" "x mod 4 * 16 < 64"
    using sum(1) [of "x mod 4" "y div 16"] sum(1) [of "x mod 4" 0] assms by (simp_all add: less_mult_imp_div_less)
  show "y mod 16 * 4 + z div 64 < 64" "y mod 16 * 4 < 64"
    using sum(2) [of "y mod 16" "z div 64"] sum(2) [of "y mod 16" 0] assms by (simp_all add: less_mult_imp_div_less)
qed

lemmas byte_sextets = sextets [OF byte_less byte_less byte_less]

lemma induct_list3 [case_names 1 2 3 4]:
  "P [] \<Longrightarrow> (\<And>x. P [x]) \<Longrightarrow> (\<And>x y. P [x, y]) \<Longrightarrow> (\<And>x y z rest. P rest \<Longrightarrow> P (x # y # z # rest)) \<Longrightarrow> P s"
  by (induction_schema, pat_completeness, lexicographic_order)

lemma b64_roundtrip:
  assumes "alphabet_ok alpha"
  shows "b64_decode alpha False (b64_encode alpha s) = Some s"
proof -
  have ix: "index_of (alpha ! i) alpha = Some i" if "i < 64" for i
    using assms that by (simp add: alphabet_ok_def index_of_nth)
  show ?thesis
  proof (induction s rule: induct_list3)
    case (2 x)
    show ?case using b64_bytes_join [of "byte x" 0 0] by (simp add: ix byte_sextets)
  next
    case (3 x y)
    show ?case using b64_bytes_join [of "byte x" "byte y" 0] by (simp add: ix byte_sextets)
  next
    case (4 x y z rest)
    then show ?case using b64_bytes_join [of "byte x" "byte y" "byte z"] by (simp add: ix byte_sextets)
  qed simp
qed

lemma b64_encode_set: "alphabet_ok alpha \<Longrightarrow> set (b64_encode alpha s) \<subseteq> set alpha"
proof -
  assume ok: "alphabet_ok alpha"
  have nth: "alpha ! i \<in> set alpha" if "i < 64" for i using ok that by (simp add: alphabet_ok_def)
  show ?thesis by (induction s rule: induct_list3) (simp_all add: nth byte_sextets)
qed

section \<open>Hexadecimal\<close>

definition hex_lower :: "nat \<Rightarrow> char" where
  "hex_lower n = (if n < 10 then char_of (48 + n) else char_of (87 + n))"

fun hex_EncodeToString :: "string \<Rightarrow> string" where
  "hex_EncodeToString [] = []"
| "hex_EncodeToString (c # cs) = hex_lower (byte c div 16) # hex_lower (byte c mod 16) # hex_EncodeToString cs"

fun hex_DecodeString :: "string \<Rightarrow> string option" where
  "hex_DecodeString [] = Some []"
| "hex_DecodeString [a] = None"
| "hex_DecodeString (a # b # cs) =
     (if is_hex a \<and> is_hex b then map_option (\<lambda>out. char_of (hex_val a * 16 + hex_val b) # out) (hex_DecodeString cs)
      else None)"

definition lower_hex :: "char \<Rightarrow> bool" where
  "lower_hex c \<longleftrightarrow> is_digit c \<or> 97 \<le> byte c \<and> byte c \<le> 102"

lemma hex_lower_ok: "n < 16 \<Longrightarrow> lower_hex (hex_lower n)"
  by (auto simp: lower_hex_def hex_lower_def is_digit_def)

lemma hex_EncodeToString_ok:
  "length (hex_EncodeToString s) = 2 * length s \<and> list_all lower_hex (hex_EncodeToString s)"
proof (induction s)
  case (Cons c cs)
  have "byte c div 16 < 16" using byte_less [of c] by (simp add: less_mult_imp_div_less)
  with Cons show ?case by (simp add: hex_lower_ok)
qed simp

lemma hex_DecodeString_length: "hex_DecodeString s = Some out \<Longrightarrow> length s = 2 * length out"
  by (induction s arbitrary: out rule: hex_DecodeString.induct) (auto split: if_splits)

section \<open>Path segments\<close>

text \<open>\<^verbatim>\<open>url.PathEscape\<close> and \<^verbatim>\<open>url.PathUnescape\<close>; \<open>None\<close> is a malformed escape.\<close>

definition segment_char :: "char \<Rightarrow> bool" where
  "segment_char c \<longleftrightarrow> is_digit c \<or> is_lower c \<or> is_upper c \<or> c \<in> set ''-_.~$&+=:@''"

definition hex_upper :: "nat \<Rightarrow> char" where
  "hex_upper n = (if n < 10 then char_of (48 + n) else char_of (55 + n))"

fun PathEscape :: "string \<Rightarrow> string" where
  "PathEscape [] = []"
| "PathEscape (c # cs) =
     (if segment_char c then c # PathEscape cs
      else CHR ''%'' # hex_upper (byte c div 16) # hex_upper (byte c mod 16) # PathEscape cs)"

fun PathUnescape :: "string \<Rightarrow> string option" where
  "PathUnescape [] = Some []"
| "PathUnescape (c # cs) =
     (if c = CHR ''%'' then
        (case cs of
           a # b # rest \<Rightarrow> if is_hex a \<and> is_hex b then map_option (\<lambda>out. char_of (hex_val a * 16 + hex_val b) # out) (PathUnescape rest) else None
         | _ \<Rightarrow> None)
      else map_option (\<lambda>out. c # out) (PathUnescape cs))"

text \<open>\<^verbatim>\<open>url.QueryUnescape\<close>: a plus sign is a space as well.\<close>

definition QueryUnescape :: "string \<Rightarrow> string option" where
  "QueryUnescape s = PathUnescape (map (\<lambda>c. if c = CHR ''+'' then CHR '' '' else c) s)"

lemma hex_upper_ok: "n < 16 \<Longrightarrow> is_hex (hex_upper n) \<and> hex_val (hex_upper n) = n \<and> 47 < byte (hex_upper n) \<and> byte (hex_upper n) < 127"
  by (auto simp: hex_upper_def is_hex_def hex_val_def is_digit_def)

lemma not_percent: "segment_char c \<Longrightarrow> c \<noteq> CHR ''%''"
  by (auto simp: segment_char_def is_digit_def is_lower_def is_upper_def)

lemma PathUnescape_PathEscape: "PathUnescape (PathEscape s) = Some s"
proof (induction s)
  case (Cons c cs)
  have lt: "byte c div 16 < 16" "byte c mod 16 < 16" using byte_less [of c] by (simp_all add: less_mult_imp_div_less)
  from Cons hex_upper_ok [OF lt(1)] hex_upper_ok [OF lt(2)] show ?case by (auto dest: not_percent)
qed simp

lemma segment_char_printable: "segment_char c \<Longrightarrow> 35 < byte c \<and> byte c < 127"
  by (auto simp: segment_char_def is_digit_def is_lower_def is_upper_def)

lemma PathEscape_printable: "c \<in> set (PathEscape s) \<Longrightarrow> 35 < byte c \<and> byte c < 127"
proof (induction s)
  case (Cons d cs)
  have lt: "byte d div 16 < 16" "byte d mod 16 < 16" using byte_less [of d] by (simp_all add: less_mult_imp_div_less)
  from Cons hex_upper_ok [OF lt(1)] hex_upper_ok [OF lt(2)] show ?case
    by (auto simp: segment_char_printable split: if_splits)
qed simp

lemma PathEscape_Nil [simp]: "PathEscape s = [] \<longleftrightarrow> s = []"
  by (cases s) auto

end
