(* ===== verification/Awg_Config.thy ===== *)
theory Awg_Config
  imports Go_Encoding Go_Net "HOL-Library.Word"
begin

text \<open>
  AmneziaWG configurations, \<^verbatim>\<open>src/internal/awgconfig/awgconfig.go\<close>: the share link, the keys, the INI reader that
  writes the device's line-based UAPI text, and the readers of addresses, endpoints and counters. Error texts are
  constructors. Key names are compared as ASCII, as in \<^verbatim>\<open>ToLower\<close> of the prelude.
\<close>

section \<open>Share links\<close>

definition LinkScheme :: string where "LinkScheme = ''awg://''"

definition EncodeLink :: "string \<Rightarrow> string \<Rightarrow> string" where
  "EncodeLink ini name =
     (let link = LinkScheme @ b64_encode url_alphabet ini
      in if name \<noteq> [] then link @ ''#'' @ PathEscape name else link)"

definition LinkName :: "string \<Rightarrow> string" where
  "LinkName link =
     (let s = TrimSpace link
      in if \<not> HasPrefix s LinkScheme then []
         else (case IndexByte s CHR ''#'' of
                 None \<Rightarrow> []
               | Some i \<Rightarrow>
                   if i = length s - 1 then []
                   else (case PathUnescape (drop (i + 1) s) of None \<Rightarrow> drop (i + 1) s | Some name \<Rightarrow> name)))"

text \<open>The first decoder that accepts the text; the order is the source's.\<close>

definition base64_encodings :: "(string \<times> bool) list" where
  "base64_encodings = [(url_alphabet, False), (url_alphabet, True), (std_alphabet, False), (std_alphabet, True)]"

fun decode_first :: "(string \<times> bool) list \<Rightarrow> string \<Rightarrow> string option" where
  "decode_first [] s = None"
| "decode_first ((alpha, pad) # encs) s =
     (case b64_DecodeString alpha pad s of Some b \<Rightarrow> Some b | None \<Rightarrow> decode_first encs s)"

definition DecodeBase64Flexible :: "string \<Rightarrow> string option" where
  "DecodeBase64Flexible s = decode_first base64_encodings (TrimSpace s)"

definition NormalizeToINI :: "string \<Rightarrow> string option" where
  "NormalizeToINI input =
     (let s = TrimSpace input
      in if \<not> HasPrefix s LinkScheme then Some input
         else (let payload = TrimPrefix s LinkScheme;
                   payload = (case IndexByte payload CHR ''#'' of None \<Rightarrow> payload | Some i \<Rightarrow> take i payload)
               in DecodeBase64Flexible payload))"

section \<open>Keys\<close>

datatype key_error = HexLength nat | NotHexNorBase64 | KeyLength nat

definition KeyBytes :: "string \<Rightarrow> key_error + string" where
  "KeyBytes s0 =
     (let s = TrimPrefix (TrimPrefix (TrimSpace s0) ''hex:'') ''0x''
      in if list_all is_hex s \<and> length s mod 2 = 0 then
           (if length s \<noteq> 64 then Inl (HexLength (length s))
            else (case hex_DecodeString s of Some b \<Rightarrow> Inr b | None \<Rightarrow> Inl NotHexNorBase64))
         else (case decode_first [(std_alphabet, True), (std_alphabet, False), (url_alphabet, False)] s of
                 None \<Rightarrow> Inl NotHexNorBase64
               | Some b \<Rightarrow> if length b \<noteq> 32 then Inl (KeyLength (length b)) else Inr b))"

definition normalizeKeyToHex :: "string \<Rightarrow> key_error + string" where
  "normalizeKeyToHex s = (case KeyBytes s of Inl err \<Rightarrow> Inl err | Inr b \<Rightarrow> Inr (hex_EncodeToString b))"

section \<open>Device values\<close>

definition AWG15Keys :: "string list" where
  "AWG15Keys = [''j1'', ''j2'', ''j3'', ''itime'']"

definition AWG3Keys :: "(string \<times> string) list" where
  "AWG3Keys =
     [(''headerprotectionkey'', ''header_protection_key''), (''contentpaddingaddition'', ''content_padding_addition''),
      (''rekeyaftertime'', ''rekey_after_time''), (''rekeytimeout'', ''rekey_timeout''),
      (''rejectaftertime'', ''reject_after_time''), (''keepalivetimeout'', ''keepalive_timeout''),
      (''maxhandshakeattempts'', ''max_handshake_attempts''), (''randomtrailers'', ''random_trailers''),
      (''disablecookies'', ''disable_cookies'')]"

definition deviceKeys :: "(string \<times> string) list" where
  "deviceKeys =
     map (\<lambda>k. (k, k)) [''jc'', ''jmin'', ''jmax'', ''s1'', ''s2'', ''s3'', ''s4'', ''h1'', ''h2'', ''h3'', ''h4'',
       ''i1'', ''i2'', ''i3'', ''i4'', ''i5''] @ AWG3Keys"

definition ParseBool :: "string \<Rightarrow> bool option" where
  "ParseBool v =
     (let s = ToLower (TrimSpace v)
      in if s = ''on'' \<or> s = ''true'' then Some True
         else if s = ''off'' \<or> s = ''false'' then Some False
         else map_option (\<lambda>n. n \<noteq> 0) (ParseUint (TrimSpace v) 32))"

definition CheckRange :: "string \<Rightarrow> bool" where
  "CheckRange v = (case Cut v CHR ''-'' of (lo, hi, isRange) \<Rightarrow>
     (case ParseUint lo 32 of
        None \<Rightarrow> False
      | Some low \<Rightarrow> \<not> isRange \<or> (case ParseUint hi 32 of None \<Rightarrow> False | Some high \<Rightarrow> low \<le> high)))"

datatype value_error = BadKey key_error | BadBool | BadRange

definition AWG3Value :: "string \<Rightarrow> string \<Rightarrow> value_error + string" where
  "AWG3Value key val =
     (if key = ''headerprotectionkey'' then (case normalizeKeyToHex val of Inl e \<Rightarrow> Inl (BadKey e) | Inr h \<Rightarrow> Inr h)
      else if key = ''randomtrailers'' \<or> key = ''disablecookies'' then
        (case ParseBool val of None \<Rightarrow> Inl BadBool | Some b \<Rightarrow> Inr (if b then ''true'' else ''false''))
      else if CheckRange val then Inr val else Inl BadRange)"

definition deviceValue :: "string \<Rightarrow> string \<Rightarrow> value_error + string" where
  "deviceValue key val = (if map_of AWG3Keys key \<noteq> None then AWG3Value key val else Inr val)"

text \<open>
  \<^verbatim>\<open>unicode.IsControl\<close> on UTF-8 text: a byte below 32 or 127, or the two-byte runes U+0080 to U+009F, whose lead byte
  194 is never inside another rune.
\<close>

fun hasControl :: "string \<Rightarrow> bool" where
  "hasControl [] = False"
| "hasControl (c # cs) \<longleftrightarrow>
     (byte c \<noteq> 9 \<and> (byte c < 32 \<or> byte c = 127)) \<or>
     (byte c = 194 \<and> cs \<noteq> [] \<and> 128 \<le> byte (hd cs) \<and> byte (hd cs) \<le> 159) \<or> hasControl cs"

section \<open>From INI to UAPI\<close>

record peer =
  pub :: string
  psk :: string
  endpoint :: string
  keepalive :: string
  allowed :: "string list"

definition no_peer :: peer where
  "no_peer = \<lparr>pub = [], psk = [], endpoint = [], keepalive = [], allowed = []\<rparr>"

text \<open>\<^verbatim>\<open>peers\<close> and \<^verbatim>\<open>curPeer\<close> together: the current peer is the last one while a peer section is open.\<close>

datatype ini_section = NoSection | Interface | Peer

record ini =
  cur_section :: ini_section
  devicePriv :: string
  deviceListen :: string
  deviceExtras :: "(string \<times> string) list"
  peers :: "peer list"

definition ini0 :: ini where
  "ini0 = \<lparr>cur_section = NoSection, devicePriv = [], deviceListen = [], deviceExtras = [], peers = []\<rparr>"

datatype uapi_error =
    ControlCharacter ini_section string | PrivateKey key_error | AWG15Key string | DeviceValue string value_error
  | PublicKey key_error | PresharedKey key_error | MissingPrivateKey | NoPeers | MissingPublicKey nat

definition interface_key :: "string \<Rightarrow> string \<Rightarrow> ini \<Rightarrow> uapi_error + ini" where
  "interface_key key val st =
     (if key = ''privatekey'' then
        (case normalizeKeyToHex val of Inl e \<Rightarrow> Inl (PrivateKey e) | Inr h \<Rightarrow> Inr (st\<lparr>devicePriv := h\<rparr>))
      else if key = ''listenport'' then Inr (st\<lparr>deviceListen := val\<rparr>)
      else if key \<in> set AWG15Keys then Inl (AWG15Key key)
      else (case map_of deviceKeys key of
              None \<Rightarrow> Inr st
            | Some uapiKey \<Rightarrow>
                (case deviceValue key val of
                   Inl e \<Rightarrow> Inl (DeviceValue uapiKey e)
                 | Inr v \<Rightarrow> Inr (st\<lparr>deviceExtras := deviceExtras st @ [(uapiKey, v)]\<rparr>))))"

definition peer_key :: "string \<Rightarrow> string \<Rightarrow> peer \<Rightarrow> uapi_error + peer" where
  "peer_key key val p =
     (if key = ''publickey'' then
        (case normalizeKeyToHex val of Inl e \<Rightarrow> Inl (PublicKey e) | Inr h \<Rightarrow> Inr (p\<lparr>pub := h\<rparr>))
      else if key = ''presharedkey'' then
        (case normalizeKeyToHex val of Inl e \<Rightarrow> Inl (PresharedKey e) | Inr h \<Rightarrow> Inr (p\<lparr>psk := h\<rparr>))
      else if key = ''endpoint'' then Inr (p\<lparr>endpoint := val\<rparr>)
      else if key = ''persistentkeepalive'' \<or> key = ''persistent_keepalive'' then
        Inr (if EqualFold val ''off'' then p else p\<lparr>keepalive := val\<rparr>)
      else if key = ''allowedips'' then
        Inr (p\<lparr>allowed := allowed p @ filter (\<lambda>ip. ip \<noteq> []) (map TrimSpace (Split val CHR '',''))\<rparr>)
      else Inr p)"

definition section_line :: "string \<Rightarrow> ini \<Rightarrow> ini" where
  "section_line line st =
     (let name = ToLower (Trim line (''[] '' @ [CHR 0x09]))
      in if name = ''interface'' then st\<lparr>cur_section := Interface\<rparr>
         else if name = ''peer'' then st\<lparr>cur_section := Peer, peers := peers st @ [no_peer]\<rparr>
         else st\<lparr>cur_section := NoSection\<rparr>)"

definition ini_line :: "string \<Rightarrow> ini \<Rightarrow> uapi_error + ini" where
  "ini_line rawLine st =
     (let line = TrimSpace rawLine
      in if line = [] \<or> HasPrefix line ''#'' \<or> HasPrefix line '';'' then Inr st
         else if HasPrefix line ''['' \<and> HasSuffix line '']'' then Inr (section_line line st)
         else (case Cut line CHR ''='' of (k, v, found) \<Rightarrow>
           if \<not> found then Inr st
           else (let key = ToLower (TrimSpace k); val = TrimSpace v
                 in if hasControl val then Inl (ControlCharacter (cur_section st) key)
                    else (case cur_section st of
                            NoSection \<Rightarrow> Inr st
                          | Interface \<Rightarrow> interface_key key val st
                          | Peer \<Rightarrow>
                              if peers st = [] then Inr st
                              else (case peer_key key val (last (peers st)) of
                                      Inl e \<Rightarrow> Inl e
                                    | Inr p \<Rightarrow> Inr (st\<lparr>peers := butlast (peers st) @ [p]\<rparr>))))))"

fun ini_lines :: "string list \<Rightarrow> ini \<Rightarrow> uapi_error + ini" where
  "ini_lines [] st = Inr st"
| "ini_lines (l # ls) st = (case ini_line l st of Inl e \<Rightarrow> Inl e | Inr st' \<Rightarrow> ini_lines ls st')"

text \<open>The pairs written for the device, in the source's order.\<close>

definition optional :: "string \<Rightarrow> string \<Rightarrow> (string \<times> string) list" where
  "optional k v = (if v \<noteq> [] then [(k, v)] else [])"

definition peer_pairs :: "peer \<Rightarrow> (string \<times> string) list" where
  "peer_pairs p =
     [(''public_key'', pub p)] @ optional ''preshared_key'' (psk p) @ optional ''endpoint'' (endpoint p) @
     optional ''persistent_keepalive_interval'' (keepalive p) @ [(''replace_allowed_ips'', ''true'')] @
     map (\<lambda>ip. (''allowed_ip'', ip)) (allowed p)"

fun missing_pub :: "nat \<Rightarrow> peer list \<Rightarrow> nat option" where
  "missing_pub i [] = None"
| "missing_pub i (p # ps) = (if pub p = [] then Some i else missing_pub (i + 1) ps)"

definition uapi_pairs :: "ini \<Rightarrow> uapi_error + (string \<times> string) list" where
  "uapi_pairs st =
     (if devicePriv st = [] then Inl MissingPrivateKey
      else if peers st = [] then Inl NoPeers
      else (case missing_pub 0 (peers st) of
              Some i \<Rightarrow> Inl (MissingPublicKey i)
            | None \<Rightarrow> Inr ([(''replace_peers'', ''true''), (''private_key'', devicePriv st)] @
                optional ''listen_port'' (deviceListen st) @ deviceExtras st @ concat (map peer_pairs (peers st)))))"

definition uapi_text :: "(string \<times> string) list \<Rightarrow> string" where
  "uapi_text kvs = concat (map (\<lambda>(k, v). k @ ''='' @ v @ [CHR 0x0A]) kvs)"

definition ParseToUAPI :: "string \<Rightarrow> uapi_error + string" where
  "ParseToUAPI cfg = (case ini_lines (Split cfg (CHR 0x0A)) ini0 of
     Inl e \<Rightarrow> Inl e
   | Inr st \<Rightarrow> (case uapi_pairs st of Inl e \<Rightarrow> Inl e | Inr kvs \<Rightarrow> Inr (uapi_text kvs)))"

section \<open>Reading single keys\<close>

definition section_name :: "string \<Rightarrow> string option" where
  "section_name line =
     (if HasPrefix line ''['' \<and> HasSuffix line '']'' then Some (ToLower (Trim line (''[] '' @ [CHR 0x09]))) else None)"

fun address_lines :: "string \<Rightarrow> string list \<Rightarrow> string" where
  "address_lines sec [] = []"
| "address_lines sec (l # ls) =
     (let line = TrimSpace l
      in if line = [] \<or> HasPrefix line ''#'' \<or> HasPrefix line '';'' then address_lines sec ls
         else (case section_name line of
                 Some name \<Rightarrow> address_lines name ls
               | None \<Rightarrow>
                   if sec \<noteq> ''interface'' \<or> \<not> HasPrefix (ToLower line) ''address'' then address_lines sec ls
                   else (case IndexByte line CHR ''='' of
                           None \<Rightarrow> address_lines sec ls
                         | Some idx \<Rightarrow>
                             (case Fields (ReplaceByte (TrimSpace (drop (idx + 1) line)) CHR '','' '' '') of
                                [] \<Rightarrow> address_lines sec ls
                              | f # _ \<Rightarrow> f))))"

definition Address :: "string \<Rightarrow> string" where
  "Address cfg = address_lines [] (Split cfg (CHR 0x0A))"

definition is_list_sep :: "char \<Rightarrow> bool" where
  "is_list_sep r \<longleftrightarrow> r = CHR '','' \<or> r = CHR '';'' \<or> r = CHR '' '' \<or> r = CHR 0x09"

fun key_lines :: "string \<Rightarrow> string \<Rightarrow> string \<Rightarrow> string list \<Rightarrow> string list list" where
  "key_lines wantSection wantKey sec [] = []"
| "key_lines wantSection wantKey sec (l # ls) =
     (let line = TrimSpace l;
          line = (case IndexByte line CHR ''#'' of None \<Rightarrow> line | Some i \<Rightarrow> TrimSpace (take i line))
      in if line = [] \<or> HasPrefix line '';'' then key_lines wantSection wantKey sec ls
         else (case section_name line of
                 Some name \<Rightarrow> key_lines wantSection wantKey name ls
               | None \<Rightarrow> (case Cut line CHR ''='' of (key, val, ok) \<Rightarrow>
                   if \<not> ok \<or> sec \<noteq> wantSection \<or> ToLower (TrimSpace key) \<noteq> wantKey
                   then key_lines wantSection wantKey sec ls
                   else FieldsFunc val is_list_sep # key_lines wantSection wantKey sec ls)))"

text \<open>The callback's arguments in order, which its callers fold over.\<close>

definition forEachKey :: "string \<Rightarrow> string \<Rightarrow> string \<Rightarrow> string list list" where
  "forEachKey cfg wantSection wantKey = key_lines wantSection wantKey [] (Split cfg (CHR 0x0A))"

definition Addresses :: "string \<Rightarrow> string list" where
  "Addresses cfg = concat (forEachKey cfg ''interface'' ''address'')"

definition PeersCarryIPv6 :: "string \<Rightarrow> bool" where
  "PeersCarryIPv6 cfg \<longleftrightarrow>
     list_ex (\<lambda>fields. list_ex (\<lambda>f. Contains f '':'') fields) (forEachKey cfg ''peer'' ''allowedips'')"

text \<open>\<^verbatim>\<open>net/netip\<close>: the class tests look through an IPv4-mapped address, the unspecified one does not.\<close>

fun Unmap :: "ip \<Rightarrow> ip" where
  "Unmap (IP4 b) = IP4 b"
| "Unmap (IP6 b z) = (if take 12 b = v4_mapped_prefix then IP4 (drop 12 b) else IP6 b z)"

definition IsUnspecified :: "ip \<Rightarrow> bool" where
  "IsUnspecified a \<longleftrightarrow> list_all (\<lambda>n. n = 0) (ip_bytes a) \<and> \<not> zoned a"

definition IsLoopback :: "ip \<Rightarrow> bool" where
  "IsLoopback a = (case Unmap a of
     IP4 b \<Rightarrow> b ! 0 = 127 | IP6 b z \<Rightarrow> z = [] \<and> b = replicate 15 0 @ [1])"

definition IsMulticast :: "ip \<Rightarrow> bool" where
  "IsMulticast a = (case Unmap a of IP4 b \<Rightarrow> 224 \<le> b ! 0 \<and> b ! 0 \<le> 239 | IP6 b _ \<Rightarrow> b ! 0 = 255)"

definition IsLinkLocalUnicast :: "ip \<Rightarrow> bool" where
  "IsLinkLocalUnicast a = (case Unmap a of
     IP4 b \<Rightarrow> b ! 0 = 169 \<and> b ! 1 = 254 | IP6 b _ \<Rightarrow> b ! 0 = 254 \<and> 128 \<le> b ! 1 \<and> b ! 1 \<le> 191)"

definition tunnel_address :: "string \<Rightarrow> bool" where
  "tunnel_address a = (case ParsePrefix a of
     None \<Rightarrow> False
   | Some (ip, bits) \<Rightarrow> \<not> (IsLoopback ip \<or> IsUnspecified ip \<or> IsMulticast ip \<or> IsLinkLocalUnicast ip))"

definition TunnelAddresses :: "string \<Rightarrow> string list" where
  "TunnelAddresses cfg = filter tunnel_address (Addresses cfg)"

fun first_key :: "string \<Rightarrow> string list \<Rightarrow> string" where
  "first_key key [] = []"
| "first_key key (l # ls) =
     (let line = TrimSpace l
      in if HasPrefix (ToLower line) key
         then (case IndexByte line CHR ''='' of
                 None \<Rightarrow> first_key key ls | Some idx \<Rightarrow> TrimSpace (drop (idx + 1) line))
         else first_key key ls)"

definition endpointValue :: "string \<Rightarrow> string" where
  "endpointValue cfg = first_key ''endpoint'' (Split cfg (CHR 0x0A))"

definition DNS :: "string \<Rightarrow> string" where
  "DNS cfg = first_key ''dns'' (Split cfg (CHR 0x0A))"

definition EndpointHost :: "string \<Rightarrow> string" where
  "EndpointHost cfg =
     (let val = endpointValue cfg
      in case LastIndexByte val CHR '':'' of Some colon \<Rightarrow> take colon val | None \<Rightarrow> val)"

text \<open>\<^verbatim>\<open>Atoi\<close>'s value on failure is 0 or an extreme of int64, and each leaves port 0.\<close>

definition EndpointHostPort :: "string \<Rightarrow> string \<times> int" where
  "EndpointHostPort cfg =
     (let val = endpointValue cfg
      in if val = [] then ([], 0)
         else (case SplitHostPort val of
                 Some (h, p) \<Rightarrow>
                   (h, case Atoi p of None \<Rightarrow> 0 | Some port \<Rightarrow> if port < 0 \<or> 65535 < port then 0 else port)
               | None \<Rightarrow> (Trim val ''[]'', 0)))"

section \<open>Counters of the device's dump\<close>

definition dump_fields :: "string \<Rightarrow> (string \<times> string) list" where
  "dump_fields dump =
     concat (map (\<lambda>line. concat (map (\<lambda>f. case Cut f CHR ''='' of (k, v, found) \<Rightarrow> if found then [(k, v)] else [])
       (Fields line))) (Split dump (CHR 0x0A)))"

definition add_counter :: "string \<times> string \<Rightarrow> 64 word \<times> 64 word \<Rightarrow> 64 word \<times> 64 word" where
  "add_counter kv acc = (case (kv, acc) of ((key, val), (rx, tx)) \<Rightarrow>
     (case ParseUint val 64 of
        None \<Rightarrow> (rx, tx)
      | Some n \<Rightarrow> if key = ''rx_bytes'' then (rx + of_nat n, tx)
                 else if key = ''tx_bytes'' then (rx, tx + of_nat n) else (rx, tx)))"

definition SumRxTx :: "string \<Rightarrow> 64 word \<times> 64 word" where
  "SumRxTx dump = fold add_counter (dump_fields dump) (0, 0)"

definition newer_handshake :: "string \<times> string \<Rightarrow> int \<Rightarrow> int" where
  "newer_handshake kv newest =
     (if fst kv \<noteq> ''last_handshake_time_sec'' then newest
      else (case ParseInt64 (snd kv) of None \<Rightarrow> newest | Some n \<Rightarrow> if newest < n then n else newest))"

definition LastHandshakeUnix :: "string \<Rightarrow> int" where
  "LastHandshakeUnix dump = fold newer_handshake (dump_fields dump) 0"

section \<open>The share link round trip\<close>

definition link_char :: "char \<Rightarrow> bool" where
  "link_char c \<longleftrightarrow> byte c < 128 \<and> \<not> is_space1 c"

lemma url_alphabet_printable: "list_all (\<lambda>c. c \<noteq> CHR ''#'' \<and> link_char c) url_alphabet"
  by code_simp

lemma link_scheme_char: "list_all link_char LinkScheme \<and> list_all link_char ''#''"
  by code_simp

lemma payload_char: "c \<in> set (b64_encode url_alphabet s) \<Longrightarrow> c \<noteq> CHR ''#'' \<and> link_char c"
  using b64_encode_set [OF url_alphabet_ok, of s] url_alphabet_printable unfolding list_all_iff by blast

lemma printable_link_char: "35 < byte c \<Longrightarrow> byte c < 127 \<Longrightarrow> link_char c"
  by (simp add: link_char_def is_space1_def)

lemma escaped_char: "c \<in> set (PathEscape s) \<Longrightarrow> link_char c"
  using PathEscape_printable [of c s] printable_link_char by simp

lemma trimmed_ascii: "\<forall>c \<in> set s. link_char c \<Longrightarrow> trimmed_string s"
proof -
  have *: "space_len t = 0 \<and> rspace_len t = 0" if "\<forall>c \<in> set t. link_char c" for t
    using that by (cases t) (auto simp: space_len_ascii rspace_len_ascii link_char_def)
  show "\<forall>c \<in> set s. link_char c \<Longrightarrow> ?thesis"
    using * [of s] * [of "rev s"] by (simp add: trimmed_string_def)
qed

lemma link_char_not_break: "link_char c \<Longrightarrow> byte c \<noteq> 10 \<and> byte c \<noteq> 13"
  by (auto simp: link_char_def is_space1_def)

lemma EncodeLink_shape:
  obtains frag where "EncodeLink ini name = LinkScheme @ b64_encode url_alphabet ini @ frag"
    and "frag = (if name = [] then [] else CHR ''#'' # PathEscape name)"
    and "TrimSpace (EncodeLink ini name) = EncodeLink ini name"
proof (rule that)
  have "set (EncodeLink ini name) \<subseteq>
      set LinkScheme \<union> set (b64_encode url_alphabet ini) \<union> set ''#'' \<union> set (PathEscape name)"
    by (auto simp: EncodeLink_def Let_def split: if_splits)
  hence "\<forall>c \<in> set (EncodeLink ini name). link_char c"
    using payload_char [of _ ini] escaped_char [of _ name] link_scheme_char unfolding list_all_iff by blast
  thus "TrimSpace (EncodeLink ini name) = EncodeLink ini name" by (intro TrimSpace_id trimmed_ascii)
qed (auto simp: EncodeLink_def)

text \<open>
  C35. A configuration packed into a share link is read back byte for byte, and so is its name, whatever bytes the two
  hold.
\<close>

theorem awg_link_roundtrip:
  "NormalizeToINI (EncodeLink ini name) = Some ini \<and> LinkName (EncodeLink ini name) = name"
proof -
  obtain frag where link: "EncodeLink ini name = LinkScheme @ b64_encode url_alphabet ini @ frag"
    and frag: "frag = (if name = [] then [] else CHR ''#'' # PathEscape name)"
    and trim: "TrimSpace (EncodeLink ini name) = EncodeLink ini name"
    by (rule EncodeLink_shape)
  let ?p = "b64_encode url_alphabet ini"
  have hash: "CHR ''#'' \<notin> set ?p" and hash': "CHR ''#'' \<notin> set (LinkScheme @ ?p)"
    using payload_char [of "CHR ''#''" ini] by (auto simp: LinkScheme_def)
  have "TrimSpace ?p = ?p"
    using payload_char [of _ ini] by (intro TrimSpace_id trimmed_ascii) blast
  moreover have "b64_DecodeString url_alphabet False ?p = Some ini"
    unfolding b64_DecodeString_def using b64_roundtrip [OF url_alphabet_ok, of ini] payload_char link_char_not_break
    by (subst filter_True) blast+
  ultimately have dec: "DecodeBase64Flexible ?p = Some ini"
    by (simp add: DecodeBase64Flexible_def base64_encodings_def)
  have index: "IndexByte (?p @ frag) CHR ''#'' = (if name = [] then None else Some (length ?p))"
    "IndexByte (LinkScheme @ ?p @ frag) CHR ''#'' = (if name = [] then None else Some (length (LinkScheme @ ?p)))"
    using hash hash' IndexByte_append [OF hash, of "PathEscape name"]
      IndexByte_append [OF hash', of "PathEscape name"]
    by (auto simp: frag IndexByte_None)
  have "NormalizeToINI (EncodeLink ini name) = Some ini"
    unfolding NormalizeToINI_def trim unfolding link using index dec frag by (cases "name = []") (simp_all add: Let_def)
  moreover have "LinkName (EncodeLink ini name) = name"
    unfolding LinkName_def trim unfolding link using index frag by (cases "name = []") (simp_all add: Let_def PathUnescape_PathEscape)
  ultimately show ?thesis ..
qed

section \<open>What reaches the device\<close>

lemma KeyBytes_length: "KeyBytes s = Inr b \<Longrightarrow> length b = 32"
  by (auto simp: KeyBytes_def Let_def dest!: hex_DecodeString_length split: if_splits option.splits)

definition hex_key :: "string \<Rightarrow> bool" where
  "hex_key h \<longleftrightarrow> length h = 64 \<and> list_all lower_hex h"

lemma normalizeKeyToHex_ok: "normalizeKeyToHex s = Inr h \<Longrightarrow> hex_key h"
  using hex_EncodeToString_ok
  by (auto simp: normalizeKeyToHex_def hex_key_def dest!: KeyBytes_length split: sum.splits)

lemma hasControl_infix: "hasControl s \<Longrightarrow> hasControl (p @ s @ q)"
proof (induction p)
  case Nil
  thus ?case by (induction s) (auto simp: hd_append)
qed auto

lemma hasControl_TrimSpace: "\<not> hasControl s \<Longrightarrow> \<not> hasControl (TrimSpace s)"
proof -
  obtain p q where "s = p @ TrimSpace s @ q" using TrimSpace_infix by blast
  thus "\<not> hasControl s \<Longrightarrow> ?thesis" using hasControl_infix [of "TrimSpace s" p q] by auto
qed

lemma Split_parts: "Split s c = y # ys \<Longrightarrow> (\<exists>b. s = y @ b) \<and> (\<forall>p \<in> set ys. \<exists>a b. s = a @ p @ b)"
proof (induction s arbitrary: y ys)
  case (Cons x xs)
  obtain z zs where xs: "Split xs c = z # zs" by (cases "Split xs c") auto
  from Cons.IH [OF this] obtain b where b: "xs = z @ b" and zs: "\<forall>p \<in> set zs. \<exists>a b. xs = a @ p @ b" by blast
  have "\<forall>p \<in> set zs. \<exists>a b. x # xs = a @ p @ b" using zs by (metis append_Cons)
  moreover have "\<exists>a b'. x # xs = a @ z @ b'" using b by (metis append_Cons append_Nil)
  moreover have "y = [] \<and> ys = z # zs \<or> y = x # z \<and> ys = zs" using Cons.prems by (auto simp: xs split: if_splits)
  ultimately show ?case using b by (metis append_Cons append_Nil set_ConsD)
qed auto

lemma hasControl_Split: "p \<in> set (Split s c) \<Longrightarrow> \<not> hasControl s \<Longrightarrow> \<not> hasControl p"
proof -
  assume p: "p \<in> set (Split s c)" and s: "\<not> hasControl s"
  obtain y ys where ys: "Split s c = y # ys" by (cases "Split s c") auto
  obtain a b where "s = a @ p @ b"
    using Split_parts [OF ys] p ys by (metis append_Nil set_ConsD)
  thus ?thesis using s hasControl_infix [of p a b] by auto
qed

lemma hasControl_hex: "list_all lower_hex h \<Longrightarrow> \<not> hasControl h"
  by (induction h) (auto simp: lower_hex_def is_digit_def)

definition uapi_keys :: "string list" where
  "uapi_keys =
     [''replace_peers'', ''private_key'', ''listen_port'', ''public_key'', ''preshared_key'', ''endpoint'',
      ''persistent_keepalive_interval'', ''replace_allowed_ips'', ''allowed_ip''] @ map snd deviceKeys"

definition key_material :: "string list" where
  "key_material = [''private_key'', ''public_key'', ''preshared_key'', ''header_protection_key'']"

text \<open>One pair the device may be given: a key it knows, one line, and 64 hex digits where it expects a key.\<close>

definition pair_ok :: "string \<times> string \<Rightarrow> bool" where
  "pair_ok kv \<longleftrightarrow> fst kv \<in> set uapi_keys \<and> \<not> hasControl (snd kv) \<and> (fst kv \<in> set key_material \<longrightarrow> hex_key (snd kv))"

definition peer_ok :: "peer \<Rightarrow> bool" where
  "peer_ok p \<longleftrightarrow>
     (pub p \<noteq> [] \<longrightarrow> hex_key (pub p)) \<and> (psk p \<noteq> [] \<longrightarrow> hex_key (psk p)) \<and> \<not> hasControl (endpoint p) \<and>
     \<not> hasControl (keepalive p) \<and> list_all (\<lambda>ip. \<not> hasControl ip) (allowed p)"

definition ini_ok :: "ini \<Rightarrow> bool" where
  "ini_ok st \<longleftrightarrow>
     (devicePriv st \<noteq> [] \<longrightarrow> hex_key (devicePriv st)) \<and> \<not> hasControl (deviceListen st) \<and>
     list_all pair_ok (deviceExtras st) \<and> list_all peer_ok (peers st)"

lemma hex_key_plain: "hex_key h \<Longrightarrow> \<not> hasControl h"
  by (simp add: hex_key_def hasControl_hex)

lemma uapi_keys_listed: "list_all (\<lambda>k. k \<in> set uapi_keys)
  ([''replace_peers'', ''private_key'', ''listen_port'', ''public_key'', ''preshared_key'', ''endpoint'',
    ''persistent_keepalive_interval'', ''replace_allowed_ips'', ''allowed_ip''] @ map snd deviceKeys)"
  by (simp add: uapi_keys_def list_all_iff)

text \<open>The only key material among the device keys is the header protection key.\<close>

lemma device_keys_material:
  "list_all (\<lambda>(k, u). (u \<in> set key_material \<longleftrightarrow> k = ''headerprotectionkey'') \<and> CHR ''='' \<notin> set u) deviceKeys"
  by code_simp

lemma deviceValue_ok:
  assumes "deviceValue key val = Inr v" and "\<not> hasControl val"
  shows "\<not> hasControl v \<and> (key = ''headerprotectionkey'' \<longrightarrow> hex_key v)"
proof (cases "key = ''headerprotectionkey''")
  case True
  have "map_of AWG3Keys key \<noteq> None" unfolding True by code_simp
  hence "normalizeKeyToHex val = Inr v"
    using assms(1) True by (auto simp: deviceValue_def AWG3Value_def split: sum.splits)
  thus ?thesis using normalizeKeyToHex_ok hex_key_plain by blast
next
  case False
  have "\<not> hasControl ''true'' \<and> \<not> hasControl ''false''" by code_simp
  thus ?thesis
    using assms False by (auto simp: deviceValue_def AWG3Value_def split: if_splits option.splits sum.splits)
qed

lemma device_pair_ok:
  assumes "map_of deviceKeys key = Some u" and "deviceValue key val = Inr v" and "\<not> hasControl val"
  shows "pair_ok (u, v)"
proof -
  have mem: "(key, u) \<in> set deviceKeys" by (rule map_of_SomeD) (rule assms(1))
  hence "u \<in> set uapi_keys" by (force simp: uapi_keys_def)
  moreover have "u \<in> set key_material \<longleftrightarrow> key = ''headerprotectionkey''"
    using device_keys_material mem by (auto simp: list_all_iff)
  ultimately show ?thesis using deviceValue_ok [OF assms(2,3)] by (simp add: pair_ok_def)
qed

lemma interface_key_ok:
  assumes "interface_key key val st = Inr st'" and "ini_ok st" and "\<not> hasControl val"
  shows "ini_ok st'"
  using assms normalizeKeyToHex_ok [of val] device_pair_ok [of key _ val]
  unfolding interface_key_def
  by (auto simp: ini_ok_def split: if_splits sum.splits option.splits)

lemma peer_key_ok:
  assumes "peer_key key val p = Inr p'" and "peer_ok p" and "\<not> hasControl val"
  shows "peer_ok p'"
proof -
  define more where "more = filter (\<lambda>ip. ip \<noteq> []) (map TrimSpace (Split val CHR '',''))"
  have more: "list_all (\<lambda>ip. \<not> hasControl ip) more"
    using hasControl_Split [OF _ assms(3)] hasControl_TrimSpace by (auto simp: more_def list_all_iff)
  have hex: "\<forall>h. normalizeKeyToHex val = Inr h \<longrightarrow> hex_key h" using normalizeKeyToHex_ok by blast
  show ?thesis
    using assms more hex unfolding peer_key_def more_def [symmetric]
    by (simp add: peer_ok_def split: if_splits sum.splits) (hypsubst, simp)+
qed

lemma section_line_ok: "ini_ok st \<Longrightarrow> ini_ok (section_line line st)"
  by (simp add: section_line_def Let_def ini_ok_def peer_ok_def no_peer_def)

lemma ini_line_cases:
  assumes "ini_line l st = Inr st'"
  shows "st' = st \<or> (\<exists>line. st' = section_line line st) \<or>
    (\<exists>k v. \<not> hasControl v \<and> interface_key k v st = Inr st') \<or>
    (\<exists>k v p. \<not> hasControl v \<and> peers st \<noteq> [] \<and> peer_key k v (last (peers st)) = Inr p \<and>
      st' = st\<lparr>peers := butlast (peers st) @ [p]\<rparr>)"
  using assms unfolding ini_line_def Let_def
  by (simp split: if_splits prod.splits ini_section.splits sum.splits) blast+

lemma peer_update_ok:
  assumes "ini_ok st" and "peers st \<noteq> []" and "peer_key k v (last (peers st)) = Inr p" and "\<not> hasControl v"
  shows "ini_ok (st\<lparr>peers := butlast (peers st) @ [p]\<rparr>)"
proof -
  have "peer_ok (last (peers st))" and "list_all peer_ok (butlast (peers st))"
    using assms(1,2) by (auto simp: ini_ok_def list_all_iff dest: in_set_butlastD)
  thus ?thesis using peer_key_ok [OF assms(3) _ assms(4)] assms(1) by (simp add: ini_ok_def)
qed

lemma ini_line_ok: "ini_line l st = Inr st' \<Longrightarrow> ini_ok st \<Longrightarrow> ini_ok st'"
  using ini_line_cases [of l st st'] interface_key_ok section_line_ok peer_update_ok by metis

lemma ini_lines_ok: "ini_lines ls st = Inr st' \<Longrightarrow> ini_ok st \<Longrightarrow> ini_ok st'"
  by (induction ls arbitrary: st) (auto dest: ini_line_ok split: sum.splits)

lemma missing_pub_None: "missing_pub i ps = None \<longleftrightarrow> (\<forall>p \<in> set ps. pub p \<noteq> [])"
  by (induction ps arbitrary: i) auto

text \<open>How a line-based reader sees the text: each line cut at its first equals sign.\<close>

definition uapi_read :: "string \<Rightarrow> (string \<times> string) list" where
  "uapi_read out = map (\<lambda>l. case Cut l CHR ''='' of (k, v, _) \<Rightarrow> (k, v)) (butlast (Split out (CHR 0x0A)))"

lemma hasControl_line: "\<not> hasControl v \<Longrightarrow> CHR 0x0A \<notin> set v"
  by (induction v) auto

lemma uapi_keys_plain: "list_all (\<lambda>k. CHR ''='' \<notin> set k \<and> CHR 0x0A \<notin> set k) uapi_keys"
  by code_simp

lemma pair_ok_line:
  assumes "pair_ok (k, v)"
  shows "CHR 0x0A \<notin> set (k @ ''='' @ v) \<and> Cut (k @ ''='' @ v) CHR ''='' = (k, v, True)"
proof -
  have "CHR ''='' \<notin> set k" "CHR 0x0A \<notin> set k" "CHR 0x0A \<notin> set v"
    using assms uapi_keys_plain hasControl_line by (auto simp: pair_ok_def list_all_iff)
  thus ?thesis using Cut_found [of "CHR ''=''" k v] by simp
qed

lemma uapi_read_text: "list_all pair_ok kvs \<Longrightarrow> uapi_read (uapi_text kvs) = kvs"
proof (induction kvs)
  case Nil
  thus ?case by (simp add: uapi_read_def uapi_text_def)
next
  case (Cons kv kvs)
  obtain k v where kv: "kv = (k, v)" by (cases kv)
  have line: "CHR 0x0A \<notin> set (k @ ''='' @ v)" and cut: "Cut (k @ ''='' @ v) CHR ''='' = (k, v, True)"
    using pair_ok_line [of k v] Cons.prems kv by simp_all
  have "Split (uapi_text (kv # kvs)) (CHR 0x0A) = (k @ ''='' @ v) # Split (uapi_text kvs) (CHR 0x0A)"
    using Split_append [OF line, of "uapi_text kvs"] by (simp add: uapi_text_def kv)
  thus ?case using Cons cut by (simp add: uapi_read_def kv)
qed

lemma optional_ok: "(v \<noteq> [] \<Longrightarrow> pair_ok (k, v)) \<Longrightarrow> list_all pair_ok (optional k v)"
  by (simp add: optional_def)

lemma pair_ok_literal:
  "pair_ok (''replace_peers'', ''true'')" "pair_ok (''replace_allowed_ips'', ''true'')"
  by code_simp+

lemma pair_ok_key: "k \<in> set [''private_key'', ''public_key'', ''preshared_key''] \<Longrightarrow> hex_key h \<Longrightarrow> pair_ok (k, h)"
  using uapi_keys_listed by (auto simp: pair_ok_def hex_key_plain)

lemma pair_ok_plain:
  assumes "k \<in> set [''listen_port'', ''endpoint'', ''persistent_keepalive_interval'', ''allowed_ip'']"
    and "\<not> hasControl v"
  shows "pair_ok (k, v)"
proof -
  have "list_all (\<lambda>k. k \<in> set uapi_keys \<and> k \<notin> set key_material)
      [''listen_port'', ''endpoint'', ''persistent_keepalive_interval'', ''allowed_ip'']"
    by code_simp
  thus ?thesis using assms unfolding list_all_iff pair_ok_def by auto
qed

lemma peer_pairs_ok: "peer_ok p \<Longrightarrow> pub p \<noteq> [] \<Longrightarrow> list_all pair_ok (peer_pairs p)"
  by (auto simp: peer_pairs_def peer_ok_def list_all_iff optional_def pair_ok_literal pair_ok_key pair_ok_plain)

lemma uapi_pairs_ok:
  assumes "uapi_pairs st = Inr kvs" and "ini_ok st"
  shows "list_all pair_ok kvs \<and> map fst (take 2 kvs) = [''replace_peers'', ''private_key''] \<and>
    ''public_key'' \<in> set (map fst kvs)"
proof -
  have kvs: "kvs = [(''replace_peers'', ''true''), (''private_key'', devicePriv st)] @
      optional ''listen_port'' (deviceListen st) @ deviceExtras st @ concat (map peer_pairs (peers st))"
    and priv: "devicePriv st \<noteq> []" and peers: "peers st \<noteq> []" "\<forall>p \<in> set (peers st). pub p \<noteq> []"
    using assms(1) by (auto simp: uapi_pairs_def missing_pub_None split: if_splits option.splits)
  have "list_all pair_ok (concat (map peer_pairs (peers st)))"
    using peers(2) assms(2) peer_pairs_ok by (simp add: ini_ok_def list_all_iff) blast
  moreover have "pair_ok (''private_key'', devicePriv st)"
    using assms(2) priv by (simp add: ini_ok_def pair_ok_key)
  moreover have "list_all pair_ok (optional ''listen_port'' (deviceListen st))"
    using assms(2) by (intro optional_ok pair_ok_plain) (simp_all add: ini_ok_def)
  ultimately have "list_all pair_ok kvs"
    using assms(2) by (simp add: kvs ini_ok_def pair_ok_literal)
  moreover have "''public_key'' \<in> set (map fst kvs)"
    using peers(1) by (cases "peers st") (simp_all add: kvs peer_pairs_def)
  moreover have "map fst (take 2 kvs) = [''replace_peers'', ''private_key'']" by (simp add: kvs)
  ultimately show ?thesis by simp
qed

text \<open>
  C34. Whatever an AmneziaWG configuration holds, the text written for the device reads back line by line as pairs the
  device knows: no value carries a line break or another control character, so no value can add a line of its own; every
  private, public, preshared and header-protection key is 64 lowercase hex digits; the device is reset first and given its
  private key before anything else, and at least one peer follows.
\<close>

theorem ParseToUAPI_lines:
  assumes "ParseToUAPI cfg = Inr out"
  shows "list_all pair_ok (uapi_read out) \<and> uapi_text (uapi_read out) = out \<and>
    map fst (take 2 (uapi_read out)) = [''replace_peers'', ''private_key''] \<and>
    ''public_key'' \<in> set (map fst (uapi_read out))"
proof -
  obtain st kvs where st: "ini_lines (Split cfg (CHR 0x0A)) ini0 = Inr st"
    and kvs: "uapi_pairs st = Inr kvs" and out: "out = uapi_text kvs"
    using assms by (auto simp: ParseToUAPI_def split: sum.splits)
  have "ini_ok ini0" by (simp add: ini_ok_def ini0_def)
  hence "ini_ok st" by (rule ini_lines_ok [OF st])
  note ok = uapi_pairs_ok [OF kvs this]
  have "uapi_read out = kvs" unfolding out using ok by (intro uapi_read_text) simp
  thus ?thesis using ok out by simp
qed

definition sample_cfg :: string where
  "sample_cfg = Join
     [''[Interface]'', ''PrivateKey = aaaaaaaaaaaaaaaaaaaaaaaaaaaaaaaaaaaaaaaaaaaaaaaaaaaaaaaaaaaaaaaa'',
      ''Jc = 4'', ''RandomTrailers = on'', ''[Peer]'',
      ''PublicKey = 0B0B0B0B0B0B0B0B0B0B0B0B0B0B0B0B0B0B0B0B0B0B0B0B0B0B0B0B0B0B0B0B'', ''AllowedIPs = 0.0.0.0/0, ::/0'']
     [CHR 0x0A]"

lemma sample_cfg_parses: "\<exists>out. ParseToUAPI sample_cfg = Inr out \<and> length (uapi_read out) = 8"
proof -
  have "(case ParseToUAPI sample_cfg of Inl _ \<Rightarrow> False | Inr out \<Rightarrow> length (uapi_read out) = 8)"
    by code_simp
  thus ?thesis by (simp split: sum.splits)
qed

theorem ParseToUAPI_lines_witness:
  "\<exists>out. ParseToUAPI sample_cfg = Inr out \<and> length (uapi_read out) = 8 \<and> list_all pair_ok (uapi_read out)"
  using sample_cfg_parses ParseToUAPI_lines by blast

section \<open>Endpoints and counters\<close>

lemma EndpointHostPort_port: "0 \<le> snd (EndpointHostPort cfg) \<and> snd (EndpointHostPort cfg) \<le> 65535"
  by (auto simp: EndpointHostPort_def Let_def split: option.splits)

definition counter_total :: "string \<Rightarrow> (string \<times> string) list \<Rightarrow> nat" where
  "counter_total key fs =
     sum_list (map (\<lambda>(k, v). if k = key then (case ParseUint v 64 of None \<Rightarrow> 0 | Some n \<Rightarrow> n) else 0) fs)"

lemma fold_add_counter:
  "fold add_counter fs (rx, tx) =
     (rx + of_nat (counter_total ''rx_bytes'' fs), tx + of_nat (counter_total ''tx_bytes'' fs))"
  by (induction fs arbitrary: rx tx) (auto simp: add_counter_def counter_total_def split: option.splits)

text \<open>The two sums are exact modulo \<open>2 ^ 64\<close>, whatever the order of the peers in the dump.\<close>

lemma SumRxTx_total:
  "unat (fst (SumRxTx dump)) = counter_total ''rx_bytes'' (dump_fields dump) mod 2 ^ 64 \<and>
   unat (snd (SumRxTx dump)) = counter_total ''tx_bytes'' (dump_fields dump) mod 2 ^ 64"
  by (simp add: SumRxTx_def fold_add_counter unat_of_nat)

definition handshake_times :: "(string \<times> string) list \<Rightarrow> int set" where
  "handshake_times fs = {n. \<exists>v. (''last_handshake_time_sec'', v) \<in> set fs \<and> ParseInt64 v = Some n}"

lemma fold_newer_handshake:
  "fold newer_handshake fs t = Max (insert t (handshake_times fs)) \<and> finite (handshake_times fs)"
proof (induction fs arbitrary: t)
  case Nil
  show ?case by (simp add: handshake_times_def)
next
  case (Cons kv fs)
  obtain k v where kv: "kv = (k, v)" by (cases kv)
  have "handshake_times (kv # fs) =
      (if k = ''last_handshake_time_sec'' then set_option (ParseInt64 v) else {}) \<union> handshake_times fs"
    by (auto simp: handshake_times_def kv)
  moreover have "newer_handshake kv t =
      (if k = ''last_handshake_time_sec'' then (case ParseInt64 v of None \<Rightarrow> t | Some n \<Rightarrow> max t n) else t)"
    by (simp add: newer_handshake_def kv max_def split: option.splits)
  ultimately show ?case using Cons.IH
    by (cases "handshake_times fs = {}") (simp_all add: max.assoc split: option.splits)
qed

lemma LastHandshakeUnix_newest: "LastHandshakeUnix dump = Max (insert 0 (handshake_times (dump_fields dump)))"
  by (simp add: LastHandshakeUnix_def fold_newer_handshake)

end
