(* ===== verification/Share_Links.thy ===== *)
theory Share_Links
  imports Awg_Config "HOL-Library.AList"
begin

text \<open>
  Share links as both engines read them: \<^verbatim>\<open>src/internal/sharelink\<close>, \<^verbatim>\<open>src/internal/vmesslink\<close> and
  \<^verbatim>\<open>src/internal/vlessencryption\<close>.

  What \<^verbatim>\<open>net/url\<close> and \<^verbatim>\<open>encoding/json\<close> find in a text is a parameter of the definitions, with nothing assumed of it; the
  curve and lattice checks of a key are one too. \<^verbatim>\<open>url.Values\<close> is what its \<^verbatim>\<open>Get\<close> returns, the empty string where the key is
  absent.
\<close>

section \<open>Results\<close>

fun and_then :: "'e + 'a \<Rightarrow> ('a \<Rightarrow> 'e + 'b) \<Rightarrow> 'e + 'b" where
  "and_then (Inl e) f = Inl e"
| "and_then (Inr x) f = f x"

definition require :: "bool \<Rightarrow> 'e \<Rightarrow> 'e + unit" where
  "require b e = (if b then Inr () else Inl e)"

definition or_fail :: "'e \<Rightarrow> 'a option \<Rightarrow> 'e + 'a" where
  "or_fail e r = (case r of None \<Rightarrow> Inl e | Some x \<Rightarrow> Inr x)"

lemma or_fail_Inr [simp]: "or_fail e r = Inr x \<longleftrightarrow> r = Some x"
  by (simp add: or_fail_def split: option.split)

lemma and_then_Inr [simp]: "and_then r f = Inr y \<longleftrightarrow> (\<exists>x. r = Inr x \<and> f x = Inr y)"
  by (cases r) auto

lemma require_Inr [simp]: "require b e = Inr u \<longleftrightarrow> b"
  by (simp add: require_def)

section \<open>URLs\<close>

type_synonym url_values = "string \<Rightarrow> string"

record URL =
  u_Scheme :: string
  u_Text :: string  \<comment> \<open>what \<^verbatim>\<open>String\<close> writes\<close>
  u_Hostname :: string
  u_Port :: string
  u_User :: "(string \<times> string option) option"
  u_Query :: url_values
  u_Fragment :: string

type_synonym url_parser = "string \<Rightarrow> URL option"

datatype link_error =
    MalformedLink | MissingHost | BadPort string | MissingUser | Unsupported string string | BadEncryption
  | TooManyPins | TooManyNames | BadEch | MissingKey | BadLink

definition Username :: "URL \<Rightarrow> string" where
  "Username u = (case u_User u of None \<Rightarrow> [] | Some (name, _) \<Rightarrow> name)"

definition Password :: "URL \<Rightarrow> string option" where
  "Password u = (case u_User u of None \<Rightarrow> None | Some (_, pw) \<Rightarrow> pw)"

definition sharelink_ParseURL :: "url_parser \<Rightarrow> string \<Rightarrow> link_error + URL" where
  "sharelink_ParseURL parse link = (case parse link of None \<Rightarrow> Inl MalformedLink | Some u \<Rightarrow> Inr u)"

definition flagSet :: "string \<Rightarrow> bool" where
  "flagSet v = (let s = ToLower (TrimSpace v) in s = ''1'' \<or> s = ''true'')"

definition SkipsVerification :: "url_values \<Rightarrow> bool" where
  "SkipsVerification q = list_ex (\<lambda>k. flagSet (q k)) [''allowInsecure'', ''insecure'', ''allow_insecure'']"

section \<open>vmess links\<close>

definition vmess_scheme :: string where "vmess_scheme = ''vmess://''"
definition maxSharedJSON :: nat where "maxSharedJSON = 65536"

record vmessLink =
  vl_Name :: string
  vl_Host :: string
  vl_Port :: int
  vl_ID :: string
  vl_AlterID :: int
  vl_Cipher :: string
  vl_Params :: url_values

definition no_vmess :: vmessLink where
  "no_vmess = \<lparr>vl_Name = [], vl_Host = [], vl_Port = 0, vl_ID = [], vl_AlterID = 0, vl_Cipher = [],
     vl_Params = (\<lambda>_. [])\<rparr>"

definition IsLink :: "string \<Rightarrow> bool" where
  "IsLink link = HasPrefix (ToLower (TrimSpace link)) vmess_scheme"

definition canonicalNetwork :: "string \<Rightarrow> string" where
  "canonicalNetwork network0 =
     (let network = ToLower (TrimSpace network0)
      in if network = [] \<or> network = ''raw'' then ''tcp''
         else if network = ''http'' then ''h2''
         else if network = ''mkcp'' then ''kcp''
         else if network = ''websocket'' then ''ws''
         else if network = ''splithttp'' then ''xhttp''
         else network)"

definition normalizeNetwork :: "url_values \<Rightarrow> url_values" where
  "normalizeNetwork p0 =
     (let p1 = p0(''type'' := canonicalNetwork (p0 ''type''));
          lower = (\<lambda>k p. if p k \<noteq> [] then p(k := ToLower (TrimSpace (p k))) else p)
      in lower ''security'' (lower ''headerType'' p1))"

text \<open>The port, and whether it was readable; an unreadable one is 0.\<close>

definition vmess_port :: "string \<Rightarrow> int \<times> link_error list" where
  "vmess_port s = (case Atoi (TrimSpace s) of
     None \<Rightarrow> (0, [BadPort s])
   | Some n \<Rightarrow> if n \<le> 0 \<or> 65535 < n then (0, [BadPort s]) else (n, []))"

definition vmess_parseURI :: "url_parser \<Rightarrow> string \<Rightarrow> vmessLink \<times> link_error list" where
  "vmess_parseURI parse link = (case sharelink_ParseURL parse link of
     Inl e \<Rightarrow> (no_vmess, [e])
   | Inr u \<Rightarrow>
       (let c = TrimSpace (u_Query u ''encryption''); (n, errs) = vmess_port (u_Port u)
        in (\<lparr>vl_Name = TrimSpace (ReplaceByte (u_Fragment u) CHR ''+'' '' ''), vl_Host = u_Hostname u, vl_Port = n,
             vl_ID = Username u, vl_AlterID = 0, vl_Cipher = (if c \<noteq> [] then c else ''auto''),
             vl_Params = normalizeNetwork (u_Query u)\<rparr>, errs)))"

text \<open>
  A member of the JSON object: absent or null, a string, a number as written, or anything else. \<^verbatim>\<open>json\<close> stands for
  \<^verbatim>\<open>json.Unmarshal\<close> into an object, None where it fails.
\<close>

datatype json_field = Absent | JsonString string | JsonNumber string | JsonOther

type_synonym json_parser = "string \<Rightarrow> (string \<Rightarrow> json_field) option"

fun field_text :: "json_field \<Rightarrow> string" where
  "field_text Absent = []"
| "field_text (JsonString s) = TrimSpace s"
| "field_text (JsonNumber n) = n"
| "field_text JsonOther = []"

definition set_param :: "string \<Rightarrow> string \<Rightarrow> url_values \<Rightarrow> url_values" where
  "set_param k v p = (if v \<noteq> [] then p(k := v) else p)"

definition json_params :: "(string \<Rightarrow> string) \<Rightarrow> url_values" where
  "json_params field =
     (let network = canonicalNetwork (field ''net'');
          p = (if network = ''grpc'' then
                 set_param ''mode'' (field ''type'') (set_param ''authority'' (field ''host'')
                   (set_param ''serviceName'' (field ''path'') (\<lambda>_. [])))
               else if network = ''kcp'' then
                 set_param ''headerType'' (field ''type'') (set_param ''seed'' (field ''path'') (\<lambda>_. []))
               else if network = ''xhttp'' then
                 set_param ''mode'' (field ''type'') (set_param ''path'' (field ''path'')
                   (set_param ''host'' (field ''host'') (\<lambda>_. [])))
               else
                 set_param ''path'' (field ''path'') (set_param ''host'' (field ''host'')
                   (set_param ''headerType'' (field ''type'') (\<lambda>_. []))));
          p = set_param ''security'' (field ''tls'') p;
          p = fold (\<lambda>k. set_param k (field k)) [''sni'', ''alpn'', ''fp''] p;
          p = set_param ''allowInsecure'' (field ''insecure'') p;
          p = fold (\<lambda>k. set_param k (field k)) [''pcs'', ''vcn''] p
      in normalizeNetwork (set_param ''type'' network p))"

definition json_used :: "string \<Rightarrow> string list" where
  "json_used network =
     [''ps'', ''add'', ''id'', ''scy'', ''aid'', ''port'', ''net'', ''path'', ''type'', ''tls'', ''sni'', ''alpn'', ''fp'',
      ''insecure'', ''pcs'', ''vcn''] @ (if network = ''kcp'' then [] else [''host''])"

definition vmess_parseJSON :: "json_parser \<Rightarrow> string \<Rightarrow> vmessLink \<times> link_error list" where
  "vmess_parseJSON json payload0 =
     (let payload = TrimSpace payload0
      in if maxSharedJSON < length payload then (no_vmess, [BadLink])
         else (case DecodeBase64Flexible payload of
                 None \<Rightarrow> (no_vmess, [BadLink])
               | Some decoded \<Rightarrow> (case json decoded of
                   None \<Rightarrow> (no_vmess, [BadLink])
                 | Some members \<Rightarrow>
                     (let field = (\<lambda>k. field_text (members k));
                          aid = field ''aid'';
                          (n, perr) = vmess_port (field ''port'')
                      in (\<lparr>vl_Name = field ''ps'', vl_Host = field ''add'', vl_Port = n, vl_ID = field ''id'',
                           vl_AlterID = (if aid = [] then 0 else case Atoi aid of Some a \<Rightarrow> a | None \<Rightarrow> 0),
                           vl_Cipher = (if field ''scy'' \<noteq> [] then field ''scy'' else ''auto''),
                           vl_Params = json_params field\<rparr>,
                          (if aid \<noteq> [] \<and> (case Atoi aid of Some a \<Rightarrow> a < 0 | None \<Rightarrow> True) then [BadLink] else []) @ perr @
                          (if list_ex (\<lambda>k. members k = JsonOther) (json_used (canonicalNetwork (field ''net'')))
                           then [BadLink] else []))))))"

text \<open>Both forms; the errors are those \<^verbatim>\<open>errors.Join\<close> collects, and an empty list is success.\<close>

definition vmess_Parse :: "url_parser \<Rightarrow> json_parser \<Rightarrow> string \<Rightarrow> vmessLink \<times> link_error list" where
  "vmess_Parse parse json link0 =
     (let link = TrimSpace link0
      in if \<not> IsLink link then (no_vmess, [BadLink])
         else (case Cut (drop (length vmess_scheme) link) CHR ''#'' of (payload, _, _) \<Rightarrow>
                 if Contains payload ''@'' then vmess_parseURI parse link else vmess_parseJSON json payload))"

section \<open>VLESS encryption\<close>

definition NoEncryption :: string where "NoEncryption = ''none''"
definition vless_scheme :: string where "vless_scheme = ''mlkem768x25519plus''"
definition paddingLimit :: nat where "paddingLimit = 20"
definition maxTotalPadding :: int where "maxTotalPadding = 18 + 65535"

definition checkKey :: "(string \<Rightarrow> bool) \<Rightarrow> string \<Rightarrow> bool" where
  "checkKey valid field = (case b64_DecodeString url_alphabet False field of
     None \<Rightarrow> False
   | Some key \<Rightarrow> (length key = 32 \<or> length key = 1184) \<and> valid key)"

definition padding_numbers :: "string \<Rightarrow> (int \<times> int \<times> int) option" where
  "padding_numbers segment = (case Split segment CHR ''-'' of
     a # b # c # _ \<Rightarrow>
       if a = [] \<or> b = [] \<or> c = [] then None
       else (case (Atoi a, Atoi b, Atoi c) of (Some x, Some y, Some z) \<Rightarrow> Some (x, y, z) | _ \<Rightarrow> None)
   | _ \<Rightarrow> None)"

fun padding_total :: "nat \<Rightarrow> string list \<Rightarrow> int option" where
  "padding_total index [] = Some 0"
| "padding_total index (segment # segments) =
     (case padding_numbers segment of
        None \<Rightarrow> None
      | Some (chance, lo, hi) \<Rightarrow>
          if index = 0 \<and> (chance < 100 \<or> lo < 35 \<or> hi < 35) then None
          else map_option (\<lambda>rest. (if index mod 2 = 0 then max lo hi else 0) + rest) (padding_total (index + 1) segments))"

definition checkPadding :: "string list \<Rightarrow> bool" where
  "checkPadding paddings = (case padding_total 0 paddings of None \<Rightarrow> False | Some n \<Rightarrow> n \<le> maxTotalPadding)"

text \<open>The loop over the fields after the third: the paddings so far and the number of keys.\<close>

fun encryption_fields :: "(string \<Rightarrow> bool) \<Rightarrow> string list \<Rightarrow> string list \<Rightarrow> nat \<Rightarrow> (string list \<times> nat) option" where
  "encryption_fields valid [] paddings keys = Some (paddings, keys)"
| "encryption_fields valid (field # rest) paddings keys =
     (if field = [] then encryption_fields valid rest paddings keys
      else if length field < paddingLimit then
        (if 0 < keys then None else encryption_fields valid rest (paddings @ [field]) keys)
      else if checkKey valid field then encryption_fields valid rest paddings (keys + 1)
      else None)"

definition Normalize_encryption :: "(string \<Rightarrow> bool) \<Rightarrow> string \<Rightarrow> string option" where
  "Normalize_encryption valid raw =
     (let val = TrimSpace raw
      in if val = [] \<or> EqualFold val NoEncryption then Some NoEncryption
         else (case Split val CHR ''.'' of
                 a # b # c # d # rest \<Rightarrow>
                   if a = vless_scheme \<and> b \<in> set [''native'', ''xorpub'', ''random''] \<and> c \<in> set [''0rtt'', ''1rtt'']
                   then (case encryption_fields valid (d # rest) [] 0 of
                           None \<Rightarrow> None
                         | Some (paddings, keys) \<Rightarrow> if 0 < keys \<and> checkPadding paddings then Some val else None)
                   else None
               | _ \<Rightarrow> None))"

section \<open>What an accepted encryption value holds\<close>

lemma encryption_fields_ok:
  "encryption_fields valid fs ps keys = Some (ps', keys') \<Longrightarrow>
     keys' = keys + length (filter (\<lambda>f. paddingLimit \<le> length f) fs) \<and>
     list_all (\<lambda>f. paddingLimit \<le> length f \<longrightarrow> checkKey valid f) fs \<and>
     ps' = ps @ filter (\<lambda>f. f \<noteq> [] \<and> length f < paddingLimit) fs"
proof (induction fs arbitrary: ps keys)
  case (Cons f fs)
  have pos: "0 < paddingLimit" by (simp add: paddingLimit_def)
  consider (blank) "f = []" | (padding) "f \<noteq> []" "length f < paddingLimit" | (key) "paddingLimit \<le> length f"
    by linarith
  thus ?case
  proof cases
    case blank
    thus ?thesis using Cons.prems Cons.IH [of ps keys] pos by simp
  next
    case padding
    hence "encryption_fields valid fs (ps @ [f]) keys = Some (ps', keys')" using Cons.prems by (simp split: if_splits)
    from Cons.IH [OF this] show ?thesis using padding by simp
  next
    case key
    hence "f \<noteq> []" using pos by auto
    hence "checkKey valid f" "encryption_fields valid fs ps (keys + 1) = Some (ps', keys')"
      using Cons.prems key by (simp_all split: if_splits)
    from Cons.IH [OF this(2)] this(1) show ?thesis using key by simp
  qed
qed simp

text \<open>
  An encryption value of a VLESS link that passes the check is handed to the engine unchanged but for outer blanks,
  and holds what both engines need: at least one key, every key the base64url text of 32 or 1184 bytes that its curve or
  lattice accepts, and paddings whose lengths sum within the engines' limit. Checking the result again accepts it.
\<close>

theorem encryption_checked:
  assumes "Normalize_encryption valid raw = Some v" and "v \<noteq> NoEncryption"
  shows "v = TrimSpace raw \<and> Normalize_encryption valid v = Some v \<and>
    (let parts = drop 3 (Split v CHR ''.'');
         keys = filter (\<lambda>f. paddingLimit \<le> length f) parts;
         paddings = filter (\<lambda>f. f \<noteq> [] \<and> length f < paddingLimit) parts
     in keys \<noteq> [] \<and> list_all (checkKey valid) keys \<and> checkPadding paddings)"
proof -
  have v: "v = TrimSpace raw"
    using assms by (auto simp: Normalize_encryption_def Let_def split: if_splits list.splits option.splits)
  have again: "Normalize_encryption valid v = Some v" using assms(1) v by (simp add: Normalize_encryption_def)
  then obtain a b c d rest ps n where parts: "Split v CHR ''.'' = a # b # c # d # rest"
    and ps: "encryption_fields valid (d # rest) [] 0 = Some (ps, n)" "0 < n" "checkPadding ps"
    using assms(2) v
    by (auto simp: Normalize_encryption_def Let_def split: if_splits list.splits option.splits)
  define keys where "keys = filter (\<lambda>f. paddingLimit \<le> length f) (d # rest)"
  note fields = encryption_fields_ok [OF ps(1)]
  have "keys \<noteq> []" using fields ps(2) unfolding keys_def by (metis add_0 length_0_conv less_numeral_extra(3))
  moreover have "list_all (checkKey valid) keys" using fields by (auto simp: keys_def list_all_iff)
  moreover have "ps = filter (\<lambda>f. f \<noteq> [] \<and> length f < paddingLimit) (d # rest)" using fields by simp
  moreover have "drop 3 (Split v CHR ''.'') = d # rest" by (simp add: parts)
  ultimately show ?thesis using v again ps(3) unfolding keys_def Let_def by simp
qed

definition sample_encryption :: string where
  "sample_encryption = ''mlkem768x25519plus.native.0rtt.100-50-60.'' @ replicate 43 CHR ''A''"

theorem encryption_checked_witness:
  "sample_encryption = TrimSpace sample_encryption \<and>
   Normalize_encryption (\<lambda>_. True) sample_encryption = Some sample_encryption \<and>
   filter (\<lambda>f. paddingLimit \<le> length f) (drop 3 (Split sample_encryption CHR ''.'')) \<noteq> []"
proof -
  have "Normalize_encryption (\<lambda>_. True) sample_encryption = Some sample_encryption" by code_simp
  moreover have "sample_encryption \<noteq> NoEncryption" by code_simp
  ultimately show ?thesis
    using encryption_checked [of "\<lambda>_. True" sample_encryption sample_encryption] by (simp add: Let_def)
qed

end
