(* ===== verification/Mihomo_Syntax.thy ===== *)
theory Mihomo_Syntax
  imports Routing
begin

text \<open>
  The rule language of mihomo, as its documentation gives it and as the comments of
  \<^verbatim>\<open>src/internal/mihomoconfig/mihomoconfig.go\<close> rely on it: what a rule is, how it is written on a line, and which policy a
  list of rules gives a flow. mihomo itself is outside the sources, so its reader and its matchers stay parameters of what
  is stated about the core's lines; \<open>read_rule\<close> is one reader that honours the syntax, so the syntax is unambiguous.
\<close>

section \<open>Rules and their text\<close>

text \<open>
  A condition is a rule type with its payload (and whether \<^verbatim>\<open>no-resolve\<close> follows), or a logic rule over conditions. A line
  gives the policy for a condition, hands the flow to a named list of rules, or takes every flow.
\<close>

datatype cond = Atom string string bool | AnyCond "cond list" | BothCond cond cond | NegCond cond

datatype mrule = Rule cond string | SubRule cond string | MatchRule string

definition group_text :: "string \<Rightarrow> string" where
  "group_text s = ''('' @ s @ '')''"

fun cond_text :: "cond \<Rightarrow> string" where
  "cond_text (Atom T v n) = T @ '','' @ v @ (if n then '',no-resolve'' else [])"
| "cond_text (AnyCond cs) = ''OR,'' @ group_text (Join (map (\<lambda>c. group_text (cond_text c)) cs) '','')"
| "cond_text (BothCond c d) = ''AND,'' @ group_text (group_text (cond_text c) @ '','' @ group_text (cond_text d))"
| "cond_text (NegCond c) = ''NOT,'' @ group_text (group_text (cond_text c))"

fun rule_text :: "mrule \<Rightarrow> string" where
  "rule_text (Rule (Atom T v n) t) = T @ '','' @ v @ '','' @ t @ (if n then '',no-resolve'' else [])"
| "rule_text (Rule c t) = cond_text c @ '','' @ t"
| "rule_text (SubRule c t) = ''SUB-RULE,'' @ group_text (cond_text c) @ '','' @ t"
| "rule_text (MatchRule t) = ''MATCH,'' @ t"

text \<open>
  What the syntax can carry: a payload is one comma-separated field, without white space at its ends, which mihomo trims;
  the regex types rejoin their fields, so their payload may hold commas, with nothing to trim beside one. Inside a logic
  rule the parentheses of a payload pair up.
\<close>

definition plain_types :: "string list" where
  "plain_types = [''GEOSITE'', ''GEOIP'', ''DOMAIN-SUFFIX'', ''DOMAIN'', ''DOMAIN-KEYWORD'', ''IP-CIDR'', ''PROCESS-NAME'',
     ''IN-NAME'', ''NETWORK'', ''DST-PORT'']"

definition regex_types :: "string list" where
  "regex_types = [''DOMAIN-REGEX'', ''PROCESS-NAME-REGEX'']"

definition rule_field :: "string \<Rightarrow> bool" where
  "rule_field s \<longleftrightarrow> s \<noteq> [] \<and> CHR '','' \<notin> set s \<and> TrimSpace s = s"

definition tight :: "string \<Rightarrow> bool" where
  "tight s \<longleftrightarrow> s \<noteq> [] \<and> list_all (\<lambda>f. TrimSpace f = f) (Split s CHR '','')"

definition wf_atom :: "string \<Rightarrow> string \<Rightarrow> bool \<Rightarrow> bool" where
  "wf_atom T v n \<longleftrightarrow> T \<in> set plain_types \<and> rule_field v \<or> T \<in> set regex_types \<and> tight v \<and> \<not> n"

fun wf_cond :: "cond \<Rightarrow> bool" where
  "wf_cond (Atom T v n) \<longleftrightarrow> wf_atom T v n \<and> parenthesesPair v"
| "wf_cond (AnyCond cs) \<longleftrightarrow> list_all wf_cond cs"
| "wf_cond (BothCond c d) \<longleftrightarrow> wf_cond c \<and> wf_cond d"
| "wf_cond (NegCond c) \<longleftrightarrow> wf_cond c"

fun wf_rule :: "mrule \<Rightarrow> bool" where
  "wf_rule (Rule (Atom T v n) t) \<longleftrightarrow> wf_atom T v n \<and> rule_field t"
| "wf_rule (Rule c t) \<longleftrightarrow> wf_cond c \<and> rule_field t"
| "wf_rule (SubRule c t) \<longleftrightarrow> wf_cond c \<and> rule_field t"
| "wf_rule (MatchRule t) \<longleftrightarrow> rule_field t"

text \<open>A reader of rule lines honours the syntax when it reads every rule the syntax can carry back from its text.\<close>

definition documented_reader :: "(string \<Rightarrow> mrule option) \<Rightarrow> bool" where
  "documented_reader rd \<longleftrightarrow> (\<forall>r. wf_rule r \<longrightarrow> rd (rule_text r) = Some r)"

lemma documented_reader_list:
  "documented_reader rd \<Longrightarrow> list_all wf_rule rs \<Longrightarrow> those (map rd (map rule_text rs)) = Some rs"
  by (induction rs) (simp_all add: documented_reader_def)

section \<open>What a list of rules decides\<close>

text \<open>\<open>h T v n\<close> is whether mihomo's matcher of type \<open>T\<close> and payload \<open>v\<close> takes the flow.\<close>

type_synonym matcher = "string \<Rightarrow> string \<Rightarrow> bool \<Rightarrow> bool"

fun cond_holds :: "matcher \<Rightarrow> cond \<Rightarrow> bool" where
  "cond_holds h (Atom T v n) \<longleftrightarrow> h T v n"
| "cond_holds h (AnyCond cs) \<longleftrightarrow> list_ex (cond_holds h) cs"
| "cond_holds h (BothCond c d) \<longleftrightarrow> cond_holds h c \<and> cond_holds h d"
| "cond_holds h (NegCond c) \<longleftrightarrow> \<not> cond_holds h c"

text \<open>
  The policy a rule names for the flow. A list a rule hands the flow to gives the policy of its first rule that matches,
  and is passed over when none does; such a list hands nothing on itself.
\<close>

fun own_policy :: "matcher \<Rightarrow> mrule \<Rightarrow> string option" where
  "own_policy h (Rule c t) = (if cond_holds h c then Some t else None)"
| "own_policy h (SubRule c t) = None"
| "own_policy h (MatchRule t) = Some t"

definition sub_policy :: "matcher \<Rightarrow> mrule list \<Rightarrow> string option" where
  "sub_policy h rs = first_match (\<lambda>r. own_policy h r \<noteq> None) (\<lambda>r. the (own_policy h r)) rs"

fun rule_policy :: "matcher \<Rightarrow> (string \<Rightarrow> mrule list) \<Rightarrow> mrule \<Rightarrow> string option" where
  "rule_policy h subs (SubRule c n) = (if cond_holds h c then sub_policy h (subs n) else None)"
| "rule_policy h subs r = own_policy h r"

text \<open>
  The first rule that matches decides, but a rule whose policy cannot carry the flow is skipped, as one whose proxy has no
  UDP is for a UDP flow. \<open>None\<close> is a flow no rule takes.
\<close>

definition decides :: "matcher \<Rightarrow> (string \<Rightarrow> mrule list) \<Rightarrow> (string \<Rightarrow> bool) \<Rightarrow> mrule \<Rightarrow> bool" where
  "decides h subs carries r = (case rule_policy h subs r of None \<Rightarrow> False | Some t \<Rightarrow> carries t)"

definition policy_of :: "matcher \<Rightarrow> (string \<Rightarrow> mrule list) \<Rightarrow> mrule \<Rightarrow> string" where
  "policy_of h subs r = the (rule_policy h subs r)"

definition walk_rules :: "matcher \<Rightarrow> (string \<Rightarrow> mrule list) \<Rightarrow> (string \<Rightarrow> bool) \<Rightarrow> mrule list \<Rightarrow> string option" where
  "walk_rules h subs carries = first_match (decides h subs carries) (policy_of h subs)"

text \<open>
  A configuration's rule lines with one named list beside them: \<open>None\<close> when a line cannot be read, which refuses the
  configuration, otherwise what the rules decide.
\<close>

definition route_lines ::
  "(string \<Rightarrow> mrule option) \<Rightarrow> matcher \<Rightarrow> (string \<Rightarrow> bool) \<Rightarrow> string \<times> string list \<Rightarrow> string list \<Rightarrow> string option option" where
  "route_lines rd h carries named lines =
     (case (those (map rd lines), those (map rd (snd named))) of
        (Some rules, Some sub) \<Rightarrow> Some (walk_rules h (\<lambda>n. if n = fst named then sub else []) carries rules)
      | _ \<Rightarrow> None)"

section \<open>A reader that honours the syntax\<close>

text \<open>The texts of the parenthesised paren_groups at the top of a comma-separated list of them.\<close>

fun paren_groups :: "nat \<Rightarrow> string \<Rightarrow> string \<Rightarrow> string list" where
  "paren_groups d acc [] = []"
| "paren_groups 0 acc (c # cs) = (if c = CHR ''('' then paren_groups 1 [] cs else paren_groups 0 acc cs)"
| "paren_groups (Suc d) acc (c # cs) =
     (if c = CHR '')'' then (if d = 0 then acc # paren_groups 0 [] cs else paren_groups d (acc @ [c]) cs)
      else paren_groups (if c = CHR ''('' then Suc (Suc d) else Suc d) (acc @ [c]) cs)"

fun read_cond :: "nat \<Rightarrow> string \<Rightarrow> cond option" where
  "read_cond 0 s = None"
| "read_cond (Suc k) s =
     (case Cut s CHR '','' of (T, rest, _) \<Rightarrow>
        if T \<in> set [''OR'', ''AND'', ''NOT''] then
          (case those (map (read_cond k) (paren_groups 0 [] (butlast (tl rest)))) of
             None \<Rightarrow> None
           | Some cs \<Rightarrow>
               if T = ''OR'' then Some (AnyCond cs)
               else (case cs of [c] \<Rightarrow> if T = ''NOT'' then Some (NegCond c) else None
                     | [c, d] \<Rightarrow> if T = ''AND'' then Some (BothCond c d) else None
                     | _ \<Rightarrow> None))
        else if T \<in> set regex_types then Some (Atom T rest False)
        else (case Cut rest CHR '','' of (v, _, found) \<Rightarrow> Some (Atom T v found)))"

definition read_rule :: "string \<Rightarrow> mrule option" where
  "read_rule s =
     (case Split s CHR '','' of
        [m, t] \<Rightarrow> if m = ''MATCH'' then Some (MatchRule t) else None
      | fs \<Rightarrow>
          (case LastIndexByte s CHR '','' of
             None \<Rightarrow> None
           | Some i \<Rightarrow>
               let body = take i s; t = drop (Suc i) s
               in if hd fs = ''SUB-RULE''
                  then map_option (\<lambda>c. SubRule c t) (read_cond (length s) (butlast (drop 10 body)))
                  else if hd fs \<in> set plain_types then Some (Rule (Atom (fs ! 0) (fs ! 1) (length fs = 4)) (fs ! 2))
                  else map_option (\<lambda>c. Rule c t) (read_cond (length s) body)))"

lemma paren_groups_balanced:
  "paren_scan k a \<Longrightarrow> paren_groups (Suc d + k) acc (a @ rest) = paren_groups (Suc d) (acc @ a) rest"
proof (induction a arbitrary: k acc)
  case (Cons c a)
  show ?case
  proof (cases "c = CHR '')''")
    case True
    with Cons.prems obtain j where "k = Suc j" "paren_scan j a" by (cases k) auto
    with True Cons.IH [of j "acc @ [c]"] show ?thesis by simp
  next
    case False
    with Cons.prems Cons.IH [of "if c = CHR ''('' then Suc k else k" "acc @ [c]"] show ?thesis
      by (auto split: if_splits)
  qed
qed simp

lemma paren_groups_group:
  "paren_scan 0 a \<Longrightarrow> paren_groups 0 acc (group_text a @ rest) = a # paren_groups 0 [] rest"
  using paren_groups_balanced [of 0 a 0 "[]" "'')'' @ rest"] by (simp add: group_text_def)

lemma paren_groups_Join:
  assumes "list_all (paren_scan 0) xs"
  shows "paren_groups 0 acc (Join (map group_text xs) '','') = xs"
  using assms
proof (induction xs arbitrary: acc rule: induct_list012)
  case (2 x)
  then show ?case using paren_groups_group [of x acc "[]"] by simp
next
  case (3 x y zs)
  then show ?case by (simp add: paren_groups_group)
qed simp

lemma paren_scan_append: "paren_scan k a \<Longrightarrow> paren_scan (k + d) (a @ b) = paren_scan d b"
proof (induction a arbitrary: k)
  case (Cons c a)
  show ?case
  proof (cases "c = CHR '')''")
    case True
    with Cons.prems obtain j where "k = Suc j" "paren_scan j a" by (cases k) auto
    with True Cons.IH [of j] show ?thesis by simp
  next
    case False
    with Cons.prems Cons.IH [of "if c = CHR ''('' then Suc k else k"] show ?thesis by (auto split: if_splits)
  qed
qed simp

lemma paren_scan_group: "paren_scan 0 a \<Longrightarrow> paren_scan 0 (group_text a @ b) = paren_scan 0 b"
  using paren_scan_append [of 0 a 1 "'')'' @ b"] by (simp add: group_text_def)

lemma paren_scan_no_paren:
  "set a \<inter> {CHR ''('', CHR '')''} = {} \<Longrightarrow> paren_scan d (a @ b) = paren_scan d b"
  by (induction a) auto

lemma paren_scan_Join:
  "list_all (paren_scan 0) xs \<Longrightarrow> paren_scan 0 (Join (map group_text xs) '','')"
  by (induction xs rule: induct_list012) (simp_all add: paren_scan_group paren_scan_group [where b = "[]", simplified])

lemma types_chars:
  "T \<in> set plain_types \<or> T \<in> set regex_types \<Longrightarrow>
   set T \<inter> {CHR ''('', CHR '')'', CHR '',''} = {} \<and> T \<notin> set [''OR'', ''AND'', ''NOT'', ''SUB-RULE'', ''MATCH'']"
  by (auto simp: plain_types_def regex_types_def)

lemma types_disjoint: "T \<in> set regex_types \<Longrightarrow> T \<notin> set plain_types"
  by (auto simp: plain_types_def regex_types_def)

lemma cond_text_paired: "wf_cond c \<Longrightarrow> paren_scan 0 (cond_text c)"
proof (induction c)
  case (Atom T v n)
  have "set T \<inter> {CHR ''('', CHR '')''} = {}" using Atom types_chars [of T] by (auto simp: wf_atom_def)
  thus ?case using Atom paren_scan_append [of 0 v 0]
    by (simp add: paren_scan_no_paren parenthesesPair_def)
next
  case (AnyCond cs)
  hence "list_all (paren_scan 0) (map cond_text cs)" by (auto simp: list_all_iff)
  from paren_scan_Join [OF this] show ?case
    using paren_scan_group [where b = "[]"] by (simp add: comp_def)
next
  case (BothCond c d)
  thus ?case
    using paren_scan_group [of _ "[]"] paren_scan_group [of "cond_text c" "'','' @ group_text (cond_text d)"]
    by (simp add: paren_scan_group)
next
  case (NegCond c)
  thus ?case using paren_scan_group [of _ "[]"] by simp
qed

lemma length_Join: "x \<in> set xs \<Longrightarrow> length x \<le> length (Join xs sep)"
  by (induction xs rule: induct_list012) auto

lemma those_read:
  "(\<And>c. c \<in> set cs \<Longrightarrow> f (g c) = Some c) \<Longrightarrow> those (map f (map g cs)) = Some cs"
  by (induction cs) simp_all

lemma Cut_head: "CHR '','' \<notin> set T \<Longrightarrow> Cut (T @ '','' @ s) CHR '','' = (T, s, True)"
  using Cut_found [of "CHR '',''" T s] by simp

lemma read_logic:
  assumes "T \<in> set [''OR'', ''AND'', ''NOT'']" and "list_all wf_cond cs"
    and "\<And>c. c \<in> set cs \<Longrightarrow> read_cond k (cond_text c) = Some c"
  shows "read_cond (Suc k) (T @ '','' @ group_text (Join (map (\<lambda>c. group_text (cond_text c)) cs) '','')) =
    (if T = ''OR'' then Some (AnyCond cs)
     else (case cs of [c] \<Rightarrow> if T = ''NOT'' then Some (NegCond c) else None
           | [c, d] \<Rightarrow> if T = ''AND'' then Some (BothCond c d) else None
           | _ \<Rightarrow> None))"
proof -
  let ?body = "Join (map (\<lambda>c. group_text (cond_text c)) cs) '',''"
  have "list_all (paren_scan 0) (map cond_text cs)" using assms(2) cond_text_paired by (auto simp: list_all_iff)
  hence g: "paren_groups 0 [] ?body = map cond_text cs" using paren_groups_Join [of "map cond_text cs" "[]"] by (simp add: comp_def)
  have "butlast (tl (group_text ?body)) = ?body" unfolding group_text_def [of ?body] by simp
  hence "those (map (read_cond k) (paren_groups 0 [] (butlast (tl (group_text ?body))))) = Some cs"
    using those_read [of cs "read_cond k" cond_text, OF assms(3)] by (simp only: g)
  moreover have "Cut (T @ '','' @ group_text ?body) CHR '','' = (T, group_text ?body, True)"
    using assms(1) by (intro Cut_head) auto
  ultimately show ?thesis using assms(1) by (simp del: list.set)
qed

lemma read_atom:
  assumes "wf_atom T v n"
  shows "read_cond (Suc k) (cond_text (Atom T v n)) = Some (Atom T v n)"
proof -
  have T: "CHR '','' \<notin> set T" "T \<notin> set [''OR'', ''AND'', ''NOT'']"
    using assms types_chars [of T] by (auto simp: wf_atom_def)
  note head = Cut_head [OF T(1)]
  show ?thesis
  proof (cases "T \<in> set regex_types")
    case True
    hence "\<not> n" using assms types_disjoint by (auto simp: wf_atom_def)
    thus ?thesis using True T(2) head by (simp del: list.set)
  next
    case False
    hence "CHR '','' \<notin> set v" using assms by (simp add: wf_atom_def rule_field_def)
    hence "Cut (v @ (if n then '',no-resolve'' else [])) CHR '','' = (v, if n then ''no-resolve'' else [], n)"
      using Cut_head [of v "''no-resolve''"] Cut_not_found [of "CHR '',''" v] by simp
    thus ?thesis using False T(2) head by (simp del: list.set)
  qed
qed

lemma read_cond_text: "wf_cond c \<Longrightarrow> length (cond_text c) \<le> k \<Longrightarrow> read_cond k (cond_text c) = Some c"
proof (induction c arbitrary: k)
  case (Atom T v n)
  thus ?case using read_atom [of T v n] by (cases k) (simp_all del: read_cond.simps(2))
next
  case (AnyCond cs)
  then obtain j where k: "k = Suc j" by (cases k) auto
  have "read_cond j (cond_text c) = Some c" if "c \<in> set cs" for c
  proof (rule AnyCond.IH [OF that])
    show "wf_cond c" using AnyCond.prems that by (simp add: list_all_iff)
    have "length (group_text (cond_text c)) \<le> length (Join (map (\<lambda>c. group_text (cond_text c)) cs) '','')"
      using that by (intro length_Join) auto
    thus "length (cond_text c) \<le> j" using AnyCond.prems(2) k by (simp add: group_text_def)
  qed
  thus ?case using AnyCond.prems read_logic [of "''OR''" cs j] k by simp
next
  case (BothCond c d)
  then obtain j where k: "k = Suc j" by (cases k) auto
  have "read_cond j (cond_text c) = Some c" "read_cond j (cond_text d) = Some d"
    using BothCond k by (simp_all add: group_text_def)
  thus ?case using BothCond.prems read_logic [of "''AND''" "[c, d]" j] k by auto
next
  case (NegCond c)
  then obtain j where k: "k = Suc j" by (cases k) auto
  have "read_cond j (cond_text c) = Some c" using NegCond k by (simp add: group_text_def)
  thus ?case using NegCond.prems read_logic [of "''NOT''" "[c]" j] k by simp
qed

lemma Split_fields:
  "CHR '','' \<notin> set T \<Longrightarrow> Split (T @ '','' @ s) CHR '','' = T # Split s CHR '',''"
  using Split_append [of "CHR '',''" T s] by simp

lemma Split_snoc: "Split (s @ c # t) c = Split s c @ Split t c"
proof (induction s)
  case (Cons x s)
  thus ?case by (cases "Split s c") auto
qed simp

lemma last_field:
  "CHR '','' \<notin> set t \<Longrightarrow> LastIndexByte (s @ '','' @ t) CHR '','' = Some (length s)"
  using LastIndexByte_append [of "CHR '',''" t s] by simp


lemma read_plain:
  assumes "T \<in> set plain_types" "rule_field v" "rule_field t"
  shows "read_rule (rule_text (Rule (Atom T v n) t)) = Some (Rule (Atom T v n) t)"
proof -
  let ?fs = "[T, v, t] @ (if n then [''no-resolve''] else [])"
  have c: "CHR '','' \<notin> set T" "CHR '','' \<notin> set v" "CHR '','' \<notin> set t"
    using assms types_chars [of T] by (auto simp: rule_field_def)
  have "Split (rule_text (Rule (Atom T v n) t)) CHR '','' = ?fs"
    using c by (simp add: Split_fields [simplified] Split_single)
  moreover have "\<exists>i. LastIndexByte (rule_text (Rule (Atom T v n) t)) CHR '','' = Some i"
    using last_field [of t "T @ '','' @ v"] last_field [of "''no-resolve''" "T @ '','' @ v @ '','' @ t"] c
    by auto
  ultimately show ?thesis
    using assms(1) types_chars [of T] by (auto simp: read_rule_def Let_def simp del: rule_text.simps)
qed

lemma read_compound:
  assumes "CHR '','' \<notin> set t" "hd (Split s CHR '','') \<notin> set (''SUB-RULE'' # plain_types)" "1 < length (Split s CHR '','')"
    and "read_cond (length (s @ '','' @ t)) s = Some c"
  shows "read_rule (s @ '','' @ t) = Some (Rule c t)"
proof -
  obtain f g fs where s: "Split s CHR '','' = f # g # fs"
    using assms(3) by (cases "Split s CHR '',''" rule: remdups_adj.cases) auto
  hence "Split (s @ '','' @ t) CHR '','' = f # g # fs @ [t]"
    using Split_snoc [of s "CHR '',''" t] Split_single [OF assms(1)] by simp
  thus ?thesis using assms(2,4) s last_field [OF assms(1), of s]
    by (cases fs) (simp_all add: read_rule_def Let_def del: read_cond.simps)
qed

lemma logic_fields:
  "wf_cond c \<Longrightarrow> \<forall>T v n. c \<noteq> Atom T v n \<Longrightarrow>
   \<exists>T r. T \<in> set [''OR'', ''AND'', ''NOT''] \<and> cond_text c = T @ '','' @ r"
  by (cases c) auto

lemma read_Rule:
  assumes "wf_rule (Rule c t)"
  shows "read_rule (rule_text (Rule c t)) = Some (Rule c t)"
proof -
  have t: "CHR '','' \<notin> set t" "rule_field t" using assms by (cases c; simp add: rule_field_def)+
  show ?thesis
  proof (cases "\<exists>T v n. c = Atom T v n")
    case True
    then obtain T v n where c: "c = Atom T v n" by blast
    show ?thesis
    proof (cases "T \<in> set plain_types")
      case True
      hence "rule_field v" using assms c types_disjoint [of T] by (auto simp: wf_atom_def)
      from read_plain [OF True this t(2), of n] show ?thesis unfolding c .
    next
      case False
      hence T: "T \<in> set regex_types" "\<not> n" "wf_atom T v n" using assms c by (auto simp: wf_atom_def)
      have "T \<notin> set (''SUB-RULE'' # plain_types)" "CHR '','' \<notin> set T" using T(1) False types_chars [of T] by auto
      thus ?thesis
        using read_compound [of t "T @ '','' @ v" c] t(1) T(2) c read_atom [OF T(3), of "length (T @ v @ t) + 1"]
        by (simp add: Split_fields [simplified] del: read_cond.simps)
    qed
  next
    case False
    hence wf: "wf_cond c" "rule_text (Rule c t) = cond_text c @ '','' @ t" using assms by (cases c; simp)+
    obtain T r where T: "T \<in> set [''OR'', ''AND'', ''NOT'']" "cond_text c = T @ '','' @ r"
      using logic_fields [OF wf(1)] False by blast
    have "CHR '','' \<notin> set T" "T \<notin> set (''SUB-RULE'' # plain_types)" using T(1) by (auto simp: plain_types_def)
    hence "hd (Split (cond_text c) CHR '','') \<notin> set (''SUB-RULE'' # plain_types)" "1 < length (Split (cond_text c) CHR '','')"
      using T(2) by (simp_all add: Split_fields [simplified])
    thus ?thesis unfolding wf(2)
      by (rule read_compound [OF t(1)]) (rule read_cond_text [OF wf(1)], simp)
  qed
qed

lemma read_SubRule:
  assumes "wf_rule (SubRule c t)"
  shows "read_rule (rule_text (SubRule c t)) = Some (SubRule c t)"
proof -
  define s where "s = ''SUB-RULE,'' @ group_text (cond_text c)"
  have t: "CHR '','' \<notin> set t" and wf: "wf_cond c" using assms by (simp_all add: rule_field_def)
  obtain f fs where f: "Split (group_text (cond_text c)) CHR '','' = f # fs"
    by (cases "Split (group_text (cond_text c)) CHR '',''") auto
  have "Split (s @ '','' @ t) CHR '','' = ''SUB-RULE'' # f # fs @ [t]"
    using Split_snoc [of s "CHR '',''" t] Split_single [OF t] Split_fields [of "''SUB-RULE''"] f by (simp add: s_def)
  moreover have "butlast (drop 10 s) = cond_text c" by (simp add: s_def group_text_def)
  moreover have "read_cond (length (s @ '','' @ t)) (cond_text c) = Some c"
    by (rule read_cond_text [OF wf]) (simp add: s_def group_text_def)
  ultimately have "read_rule (s @ '','' @ t) = Some (SubRule c t)"
    using last_field [OF t, of s] by (cases fs) (simp_all add: read_rule_def Let_def)
  thus ?thesis by (simp add: s_def)
qed

lemma read_rule_documented: "documented_reader read_rule"
  unfolding documented_reader_def
proof (intro allI impI)
  fix r assume wf: "wf_rule r"
  show "read_rule (rule_text r) = Some r"
  proof (cases r)
    case (MatchRule t)
    thus ?thesis using wf Split_fields [of "''MATCH''" t] Split_single [of "CHR '',''" t]
      by (simp add: read_rule_def rule_field_def)
  qed (use wf read_Rule read_SubRule in simp_all)
qed

end
