(* ===== verification/Mihomo_Rules.thy ===== *)
theory Mihomo_Rules
  imports Share_Links Dns_Config Mihomo_Syntax
begin

text \<open>
  The rules and names of a mihomo configuration, \<^verbatim>\<open>src/internal/mihomoconfig/mihomoconfig.go\<close>: the rule lines a
  profile becomes, the geo files those lines need, the names of the proxies and the balancer group over them.

  mihomo reads the lines itself: its reader and its matchers are parameters, constrained by the documented syntax
  (\<^verbatim>\<open>Mihomo_Syntax\<close>) and by what mihomo's documentation says of the rule types the core writes.
\<close>

section \<open>Names and constants\<close>

definition GroupTag :: string where "GroupTag = ''vpn''"
definition probeURL :: string where "probeURL = ''https://www.gstatic.com/generate_204''"
definition fakeIPRange :: string where "fakeIPRange = ''198.18.0.1/16''"
definition fakeIPRange6 :: string where "fakeIPRange6 = ''fc00::/18''"
definition fakeIPRangeBridge :: string where "fakeIPRangeBridge = ''198.19.0.0/16''"
definition ForceProxyInName :: string where "ForceProxyInName = ''forceproxy''"
definition forceFlowsSubRule :: string where "forceFlowsSubRule = ''force-flows''"
definition ProxyInName :: string where "ProxyInName = ''proxy''"

section \<open>Rule lines\<close>

text \<open>\<^verbatim>\<open>regexp.QuoteMeta\<close>.\<close>

definition QuoteMeta :: "string \<Rightarrow> string" where
  "QuoteMeta s = concat (map (\<lambda>c. if c \<in> set (CHR 0x5C # ''.+*?()|[]{}^$'') then [CHR 0x5C, c] else [c]) s)"

definition processCondition :: "string \<Rightarrow> string" where
  "processCondition name =
     (if \<not> Contains name '','' then ''PROCESS-NAME,'' @ name
      else ''PROCESS-NAME-REGEX,'' @ ''^'' @ ReplaceByte (QuoteMeta name) CHR '' '' (CHR 0x5C # ''x20'') @ ''$'')"

definition withTarget :: "string \<Rightarrow> string \<Rightarrow> string \<Rightarrow> string" where
  "withTarget target head param =
     Join ([head] @ (if target \<noteq> [] then [target] else []) @ (if param \<noteq> [] then [param] else [])) '',''"

definition ruleCondition :: "Entry \<Rightarrow> string \<Rightarrow> string" where
  "ruleCondition e target = (case Kind e of
     KindGeoSite \<Rightarrow> withTarget target (''GEOSITE,'' @ Value e) []
   | KindGeoIP \<Rightarrow> withTarget target (''GEOIP,'' @ Value e) ''no-resolve''
   | KindDomainSuffix \<Rightarrow> withTarget target (''DOMAIN-SUFFIX,'' @ Value e) []
   | KindDomainFull \<Rightarrow> withTarget target (''DOMAIN,'' @ Value e) []
   | KindDomainKeyword \<Rightarrow> withTarget target (''DOMAIN-KEYWORD,'' @ Value e) []
   | KindDomainRegex \<Rightarrow> withTarget target (''DOMAIN-REGEX,'' @ Value e) []
   | KindIPCIDR \<Rightarrow> withTarget target (''IP-CIDR,'' @ NormalizeCIDR (Value e)) ''no-resolve''
   | KindProcess \<Rightarrow> withTarget target (processCondition (Value e)) [])"

definition anyOf :: "Entry list \<Rightarrow> string" where
  "anyOf entries =
     (let operands = map (\<lambda>c. ''('' @ c @ '')'') (filter (\<lambda>c. c \<noteq> []) (map (\<lambda>e. ruleCondition e []) entries))
      in case operands of
           [] \<Rightarrow> []
         | [x] \<Rightarrow> x
         | _ \<Rightarrow> ''(OR,('' @ Join operands '','' @ ''))'')"

definition stepLines :: "Step \<Rightarrow> string \<Rightarrow> string list" where
  "stepLines step target =
     (if Also step = [] then filter (\<lambda>c. c \<noteq> []) (map (\<lambda>e. ruleCondition e target) (Entries step))
      else (let entries = anyOf (Entries step); also = anyOf (Also step)
            in if entries = [] \<or> also = [] then []
               else [''AND,('' @ entries @ '','' @ also @ ''),'' @ target]))"

definition forceFlowsNeedSubRule :: "Profile \<Rightarrow> bool" where
  "forceFlowsNeedSubRule p \<longleftrightarrow> HasBlock p \<or> LocalNetworks p"

definition local_lines :: "string \<Rightarrow> string list" where
  "local_lines target =
     (''DOMAIN-REGEX,.,'' @ target) # map (\<lambda>cidr. ''IP-CIDR,'' @ cidr @ '',DIRECT,no-resolve'') LocalNetworkCIDRs"

definition forceFlowRules :: "Profile \<Rightarrow> string \<Rightarrow> string list" where
  "forceFlowRules p target =
     concat (map (\<lambda>tier. concat (map (\<lambda>step.
       if STarget step = TargetBlock \<and> Also step = [] then stepLines step ''REJECT'' else []) (tier_Steps tier)))
       (Tiers p)) @
     (if LocalNetworks p then local_lines target else []) @ [''MATCH,'' @ target]"

definition kill6_line :: string where "kill6_line = ''IP-CIDR,::/0,REJECT,no-resolve''"

definition killUDP_line :: string where
  "killUDP_line = ''AND,((NETWORK,udp),(NOT,((DST-PORT,53)))),REJECT''"

definition sub_line :: string where
  "sub_line = ''SUB-RULE,(IN-NAME,'' @ ForceProxyInName @ ''),'' @ forceFlowsSubRule"

definition force_line :: "string \<Rightarrow> string" where
  "force_line target = ''IN-NAME,'' @ ForceProxyInName @ '','' @ target"

definition outcomes :: "string \<Rightarrow> Target \<Rightarrow> string" where
  "outcomes target t = (case t of TargetBlock \<Rightarrow> ''REJECT'' | TargetDirect \<Rightarrow> ''DIRECT'' | TargetProxy \<Rightarrow> target)"

definition catchAll :: "Profile \<Rightarrow> string \<Rightarrow> string" where
  "catchAll p target = (if ResolvedMode p = ModeDirectAll then ''DIRECT'' else target)"

definition tier_lines :: "string \<Rightarrow> Tier \<Rightarrow> string list" where
  "tier_lines target tier = concat (map (\<lambda>step. stepLines step (outcomes target (STarget step))) (tier_Steps tier))"

definition buildRules :: "Profile \<Rightarrow> string \<Rightarrow> bool \<Rightarrow> string list" where
  "buildRules p target forceProxy =
     (if DisableIPv6 p then [kill6_line] else []) @
     (if DisableUDP p then [killUDP_line] else []) @
     (if forceProxy
      then [if forceFlowsNeedSubRule p then sub_line else force_line target, force_line ''REJECT''] else []) @
     concat (map (tier_lines target) (Tiers p)) @
     (if LocalNetworks p then local_lines (catchAll p target) else []) @
     [''MATCH,'' @ catchAll p target]"

section \<open>Geo files\<close>

datatype geo_error = NoGeoFile string

text \<open>\<^verbatim>\<open>geo\<close> says whether the file of a label is there and passes mihomo's load check.\<close>

definition requireGeoFile :: "(string \<Rightarrow> bool) \<Rightarrow> string \<Rightarrow> geo_error option" where
  "requireGeoFile geo label = (if geo label then None else Some (NoGeoFile label))"

definition checkGeoAssets :: "(string \<Rightarrow> bool) \<Rightarrow> string list \<Rightarrow> string list \<Rightarrow> geo_error option" where
  "checkGeoAssets geo rules fakeIPFilter =
     (let needSite = list_ex (\<lambda>r. HasPrefix r ''GEOSITE,'') rules \<or>
                     list_ex (\<lambda>f. HasPrefix (ToLower (TrimSpace f)) ''geosite:'') fakeIPFilter;
          needIP = list_ex (\<lambda>r. HasPrefix r ''GEOIP,'') rules
      in case (if needSite then requireGeoFile geo ''geosite.dat'' else None) of
           Some err \<Rightarrow> Some err
         | None \<Rightarrow> if needIP then requireGeoFile geo ''geoip.dat'' else None)"

section \<open>The balancer\<close>

definition Strategies :: "string list" where
  "Strategies = [''url-test'', ''fallback'', ''load-balance'', ''load-balance-hash'']"

definition NormalizeStrategy :: "string \<Rightarrow> string option" where
  "NormalizeStrategy strategy =
     (let s = ToLower (TrimSpace strategy)
      in if s = [] \<or> s = ''url-test'' then Some ''url-test''
         else if s = ''fallback'' then Some ''fallback''
         else if s = ''load-balance'' \<or> s = ''round-robin'' then Some ''load-balance''
         else if s = ''load-balance-hash'' \<or> s = ''consistent-hashing'' then Some ''load-balance-hash''
         else None)"

record proxy_group =
  g_name :: string
  g_proxies :: "string list"
  g_url :: string
  g_interval :: nat
  g_type :: string
  g_strategy :: "string option"

definition balancerGroup :: "string list \<Rightarrow> string \<Rightarrow> string \<Rightarrow> proxy_group option" where
  "balancerGroup names strategy probe =
     (let g = \<lparr>g_name = GroupTag, g_proxies = names, g_url = (if TrimSpace probe = [] then probeURL else probe),
               g_interval = 300, g_type = [], g_strategy = None\<rparr>
      in case NormalizeStrategy strategy of
           None \<Rightarrow> None
         | Some n \<Rightarrow>
             Some (if n = ''load-balance'' then g\<lparr>g_type := ''load-balance'', g_strategy := Some ''round-robin''\<rparr>
                   else if n = ''load-balance-hash''
                   then g\<lparr>g_type := ''load-balance'', g_strategy := Some ''consistent-hashing''\<rparr>
                   else g\<lparr>g_type := n\<rparr>))"

section \<open>Proxy names\<close>

definition reservedNames :: "string list" where
  "reservedNames =
     [''DIRECT'', ''REJECT'', ''REJECT-DROP'', ''COMPATIBLE'', ''PASS'', ''PASS-RULE'', ''GLOBAL'', GroupTag]"

definition sanitizeName :: "string \<Rightarrow> string" where
  "sanitizeName s = TrimSpace (ReplaceByte (ReplaceByte s CHR '','' '' '') CHR ''+'' '' '')"

definition indexed_name :: "nat \<Rightarrow> string" where
  "indexed_name idx = ''proxy-'' @ nat_digits idx"

definition linkName :: "url_parser \<Rightarrow> json_parser \<Rightarrow> string \<Rightarrow> nat \<Rightarrow> string" where
  "linkName parse json link idx =
     (let n = (if HasPrefix (ToLower link) LinkScheme then sanitizeName (LinkName link)
               else if IsLink link
               then TrimSpace (ReplaceByte (vl_Name (fst (vmess_Parse parse json link))) CHR '','' '' '')
               else sanitizeName (case parse link of Some u \<Rightarrow> u_Fragment u | None \<Rightarrow> []))
      in if n \<noteq> [] then n else indexed_name idx)"

definition numbered :: "string \<Rightarrow> nat \<Rightarrow> string" where
  "numbered name n = name @ '' ('' @ nat_digits n @ '')''"

text \<open>The loop of \<^verbatim>\<open>uniqueName\<close> from \<^verbatim>\<open>n\<close>, with fuel; None is a loop that has not ended.\<close>

fun unique_from :: "nat \<Rightarrow> string \<Rightarrow> string list \<Rightarrow> nat \<Rightarrow> string option" where
  "unique_from fuel name used n =
     (if fuel = 0 then None
      else if numbered name n \<in> set used then unique_from (fuel - 1) name used (n + 1)
      else Some (numbered name n))"

declare unique_from.simps [simp del]

definition uniqueName :: "string \<Rightarrow> string list \<Rightarrow> string option" where
  "uniqueName name used =
     (if name \<notin> set used then Some name else unique_from (length used + 1) name used 2)"

fun proxy_names_loop ::
  "url_parser \<Rightarrow> json_parser \<Rightarrow> nat \<Rightarrow> string list \<Rightarrow> string list \<Rightarrow> string list option" where
  "proxy_names_loop parse json i [] used = Some []"
| "proxy_names_loop parse json i (link # links) used =
     (let trimmed = TrimSpace link
      in if trimmed = [] then proxy_names_loop parse json (i + 1) links used
         else (case uniqueName (linkName parse json trimmed i) used of
                 None \<Rightarrow> None
               | Some name \<Rightarrow>
                   map_option ((#) name) (proxy_names_loop parse json (i + 1) links (name # used))))"

definition ProxyNames :: "url_parser \<Rightarrow> json_parser \<Rightarrow> string list \<Rightarrow> string list option" where
  "ProxyNames parse json links = proxy_names_loop parse json 0 links reservedNames"

fun target_name :: "string list \<Rightarrow> string" where
  "target_name [] = []"
| "target_name [name] = name"
| "target_name _ = GroupTag"

definition mihomo_Target :: "url_parser \<Rightarrow> json_parser \<Rightarrow> string list \<Rightarrow> string option" where
  "mihomo_Target parse json links = map_option target_name (ProxyNames parse json links)"

section \<open>Every link gets a name of its own\<close>

lemma ReplaceByte_gone: "c \<notin> set r \<Longrightarrow> c \<notin> set (ReplaceByte s c r)"
  by (auto simp: ReplaceByte_def split: if_splits)

lemma ReplaceByte_keeps_out: "d \<notin> set s \<Longrightarrow> d \<notin> set r \<Longrightarrow> d \<notin> set (ReplaceByte s c r)"
  by (auto simp: ReplaceByte_def split: if_splits)

lemma TrimSpace_keeps_out: "d \<notin> set s \<Longrightarrow> d \<notin> set (TrimSpace s)"
  using set_TrimSpace by blast

lemma nat_digits_no_comma: "CHR '','' \<notin> set (nat_digits n)"
  using nat_digits_digits [of n] by (auto simp: list_all_iff is_digit_def)

lemma linkName_no_comma: "CHR '','' \<notin> set (linkName parse json link idx)"
proof -
  have s: "CHR '','' \<notin> set (sanitizeName x)" for x
    by (simp add: sanitizeName_def TrimSpace_keeps_out ReplaceByte_keeps_out ReplaceByte_gone)
  have "CHR '','' \<notin> set (TrimSpace (ReplaceByte x CHR '','' '' ''))" for x
    by (simp add: TrimSpace_keeps_out ReplaceByte_gone)
  thus ?thesis using s by (simp add: linkName_def Let_def indexed_name_def nat_digits_no_comma)
qed

lemma numbered_inj: "numbered name i = numbered name j \<longleftrightarrow> i = j"
  using nat_digits_inj by (auto simp: numbered_def)

lemma numbered_no_comma: "CHR '','' \<notin> set name \<Longrightarrow> CHR '','' \<notin> set (numbered name n)"
  by (simp add: numbered_def nat_digits_no_comma)

lemma unique_from_None:
  "unique_from fuel name used n = None \<Longrightarrow> i < fuel \<Longrightarrow> numbered name (n + i) \<in> set used"
proof (induction fuel arbitrary: n i)
  case (Suc fuel)
  have *: "numbered name n \<in> set used" "unique_from fuel name used (n + 1) = None"
    using Suc.prems(1) by (subst (asm) unique_from.simps; simp split: if_splits)+
  show ?case using Suc.IH [OF *(2), of "i - 1"] *(1) Suc.prems(2) by (cases i) auto
qed simp

lemma unique_from_Some:
  "unique_from fuel name used n = Some c \<Longrightarrow> c \<notin> set used \<and> (\<exists>i. c = numbered name i)"
proof (induction fuel arbitrary: n)
  case 0
  thus ?case by (subst (asm) unique_from.simps) simp
next
  case (Suc fuel)
  from Suc.prems show ?case using Suc.IH by (subst (asm) unique_from.simps) (auto split: if_splits)
qed

lemma uniqueName_total:
  "\<exists>c. uniqueName name used = Some c \<and> c \<notin> set used \<and> (c = name \<or> (\<exists>i. c = numbered name i))"
proof (cases "name \<in> set used")
  case True
  let ?f = "length used + 1"
  have "unique_from ?f name used 2 \<noteq> None"
  proof
    assume "unique_from ?f name used 2 = None"
    hence "(\<lambda>i. numbered name (2 + i)) ` {..< ?f} \<subseteq> set used" using unique_from_None by blast
    moreover have "inj_on (\<lambda>i. numbered name (2 + i)) {..< ?f}" by (auto simp: inj_on_def numbered_inj)
    ultimately have "card {..< ?f} \<le> card (set used)" by (metis List.finite_set card_image card_mono)
    also have "\<dots> \<le> length used" by (rule card_length)
    finally show False by simp
  qed
  thus ?thesis using True unique_from_Some by (auto simp: uniqueName_def)
qed (simp add: uniqueName_def)

definition nonblank :: "string list \<Rightarrow> nat" where
  "nonblank links = length (filter (\<lambda>l. TrimSpace l \<noteq> []) links)"

lemma proxy_names_loop_ok:
  "\<exists>names. proxy_names_loop parse json i links used = Some names \<and> distinct names \<and> set names \<inter> set used = {} \<and>
     length names = nonblank links \<and> (\<forall>n \<in> set names. CHR '','' \<notin> set n)"
proof (induction links arbitrary: i used)
  case (Cons link links)
  show ?case
  proof (cases "TrimSpace link = []")
    case True
    thus ?thesis using Cons.IH by (simp add: nonblank_def)
  next
    case False
    let ?n = "linkName parse json (TrimSpace link) i"
    obtain c where c: "uniqueName ?n used = Some c" "c \<notin> set used" "c = ?n \<or> (\<exists>i. c = numbered ?n i)"
      using uniqueName_total by blast
    have "CHR '','' \<notin> set c" using c(3) linkName_no_comma numbered_no_comma by metis
    moreover obtain names where "proxy_names_loop parse json (i + 1) links (c # used) = Some names" "distinct names"
      "set names \<inter> set (c # used) = {}" "length names = nonblank links" "\<forall>n \<in> set names. CHR '','' \<notin> set n"
      using Cons.IH by blast
    ultimately show ?thesis using False c(1,2) by (auto simp: nonblank_def)
  qed
qed (simp add: nonblank_def)

text \<open>
  C39. Naming the proxies always ends, and gives each non-empty link one name: the names are pairwise distinct, none is
  a name mihomo reserves or the balancer's own, and none holds a comma, which would split a rule line; so the target
  that proxied traffic is sent to names one proxy or the balancer over all of them.
\<close>

theorem ProxyNames_usable:
  "\<exists>names. ProxyNames parse json links = Some names \<and> mihomo_Target parse json links = Some (target_name names) \<and>
     distinct names \<and> set names \<inter> set reservedNames = {} \<and> length names = nonblank links \<and>
     list_all (\<lambda>n. CHR '','' \<notin> set n) names"
  using proxy_names_loop_ok [of parse json 0 links reservedNames]
  by (auto simp: ProxyNames_def mihomo_Target_def list_all_iff)

section \<open>What the lines decide\<close>

text \<open>A flow as the rule types see it: what each type's payload may say of it.\<close>

record mflow =
  f_site :: "string \<Rightarrow> bool"
  f_geoip :: "string \<Rightarrow> bool"
  f_suffix :: "string \<Rightarrow> bool"
  f_full :: "string \<Rightarrow> bool"
  f_keyword :: "string \<Rightarrow> bool"
  f_regex :: "string \<Rightarrow> bool"
  f_addr :: "string \<Rightarrow> bool"
  f_process :: "string \<Rightarrow> bool"
  f_named :: bool
  f_udp :: bool
  f_port :: nat
  f_in :: string

text \<open>A pattern that spells out one text: special bytes behind a backslash, blanks also as \<^verbatim>\<open>\x20\<close>.\<close>

definition regex_meta :: string where "regex_meta = CHR 0x5C # ''.+*?()|[]{}^$''"

fun literal_regex :: "string \<Rightarrow> string option" where
  "literal_regex [] = Some []"
| "literal_regex (c # r) =
     (if c = CHR 0x5C
      then (case r of
              [] \<Rightarrow> None
            | d # r' \<Rightarrow>
                if d \<in> set regex_meta then map_option (Cons d) (literal_regex r')
                else if take 2 r' = ''20'' \<and> d = CHR ''x'' then map_option (Cons CHR '' '') (literal_regex (drop 2 r'))
                else None)
      else if c \<in> set regex_meta then None
      else map_option (Cons c) (literal_regex r))"

text \<open>
  mihomo's documentation of the rule types the core writes, for one flow. An address type with \<^verbatim>\<open>no-resolve\<close> looks only
  at an address the flow has already; a process type compares the whole name; the pattern \<^verbatim>\<open>.\<close> finds a byte in every
  name and in no flow without one.
\<close>

definition rule_types :: "matcher \<Rightarrow> mflow \<Rightarrow> bool" where
  "rule_types h fl \<longleftrightarrow>
     (\<forall>v. h ''GEOSITE'' v False = f_site fl v \<and> h ''GEOIP'' v True = f_geoip fl v \<and>
          h ''DOMAIN-SUFFIX'' v False = f_suffix fl v \<and> h ''DOMAIN'' v False = f_full fl v \<and>
          h ''DOMAIN-KEYWORD'' v False = f_keyword fl v \<and> h ''DOMAIN-REGEX'' v False = f_regex fl v \<and>
          h ''IP-CIDR'' v True = f_addr fl v \<and> h ''PROCESS-NAME'' v False = f_process fl v \<and>
          h ''IN-NAME'' v False = (f_in fl = v)) \<and>
     (\<forall>q v. literal_regex q = Some v \<longrightarrow> h ''PROCESS-NAME-REGEX'' (''^'' @ q @ ''$'') False = f_process fl v) \<and>
     f_regex fl ''.'' = f_named fl \<and> h ''NETWORK'' ''udp'' False = f_udp fl \<and>
     h ''DST-PORT'' ''53'' False = (f_port fl = 53)"

text \<open>What an entry of the profile asks of a flow.\<close>

definition entry_holds :: "mflow \<Rightarrow> Entry \<Rightarrow> bool" where
  "entry_holds fl e = (case Kind e of
     KindGeoSite \<Rightarrow> f_site fl (Value e)
   | KindGeoIP \<Rightarrow> f_geoip fl (Value e)
   | KindDomainSuffix \<Rightarrow> f_suffix fl (Value e)
   | KindDomainFull \<Rightarrow> f_full fl (Value e)
   | KindDomainKeyword \<Rightarrow> f_keyword fl (Value e)
   | KindDomainRegex \<Rightarrow> f_regex fl (Value e)
   | KindIPCIDR \<Rightarrow> f_addr fl (NormalizeCIDR (Value e))
   | KindProcess \<Rightarrow> f_process fl (Value e))"

text \<open>
  \<open>can_carry udp fl t\<close>: policy \<open>t\<close> can carry the flow, where \<open>udp\<close> says which policies have UDP. The two fixed policies
  have.
\<close>

definition can_carry :: "(string \<Rightarrow> bool) \<Rightarrow> mflow \<Rightarrow> string \<Rightarrow> bool" where
  "can_carry udp fl t \<longleftrightarrow> f_udp fl \<longrightarrow> t \<in> {''DIRECT'', ''REJECT''} \<or> udp t"

text \<open>What the profile asks for.\<close>

definition local_flow :: "Profile \<Rightarrow> mflow \<Rightarrow> bool" where
  "local_flow p fl \<longleftrightarrow> LocalNetworks p \<and> \<not> f_named fl \<and> list_ex (f_addr fl) LocalNetworkCIDRs"

text \<open>
  What a tier decides when the proxy can carry the flow, and when it cannot: then the steps that lead to the proxy are
  passed over.
\<close>

definition tier_decision :: "bool \<Rightarrow> (Entry \<Rightarrow> bool) \<Rightarrow> Tier \<Rightarrow> Target option" where
  "tier_decision usable m t =
     (if usable then tier_outcome m (tier_Entries t)
      else steps_outcome m (filter (\<lambda>s. STarget s \<noteq> TargetProxy) (tier_Steps t)))"

fun tiers_outcome :: "bool \<Rightarrow> (Entry \<Rightarrow> bool) \<Rightarrow> Tier list \<Rightarrow> Target option" where
  "tiers_outcome usable m [] = None"
| "tiers_outcome usable m (t # ts) = or_else (tier_decision usable m t) (tiers_outcome usable m ts)"

definition blocked_flow :: "Profile \<Rightarrow> mflow \<Rightarrow> bool" where
  "blocked_flow p fl \<longleftrightarrow>
     list_ex (\<lambda>t. list_ex (\<lambda>e. ETarget e = TargetBlock \<and> entry_holds fl e) (tier_Entries t)) (Tiers p)"

definition killed_flow :: "Profile \<Rightarrow> mflow \<Rightarrow> bool" where
  "killed_flow p fl \<longleftrightarrow> DisableIPv6 p \<and> f_addr fl ''::/0'' \<or> DisableUDP p \<and> f_udp fl \<and> f_port fl \<noteq> 53"

definition force_outcome :: "Profile \<Rightarrow> string \<Rightarrow> bool \<Rightarrow> mflow \<Rightarrow> string" where
  "force_outcome p target usable fl =
     (if blocked_flow p fl then ''REJECT'' else if local_flow p fl then ''DIRECT''
      else if usable then target else ''REJECT'')"

text \<open>
  The end of the list. The mode's catch-all takes a flow that is not a local one; when the catch-all is a proxy that cannot
  carry the flow, a local address still goes direct, named or not, and nothing takes the rest.
\<close>

definition final_outcome :: "Profile \<Rightarrow> string \<Rightarrow> bool \<Rightarrow> mflow \<Rightarrow> string option" where
  "final_outcome p target usable fl =
     (if usable \<or> ResolvedMode p = ModeDirectAll
      then Some (if local_flow p fl then ''DIRECT'' else catchAll p target)
      else if LocalNetworks p \<and> list_ex (f_addr fl) LocalNetworkCIDRs then Some ''DIRECT'' else None)"

definition mihomo_policy :: "Profile \<Rightarrow> string \<Rightarrow> bool \<Rightarrow> bool \<Rightarrow> mflow \<Rightarrow> string option" where
  "mihomo_policy p target usable forceProxy fl =
     (if killed_flow p fl then Some ''REJECT''
      else if forceProxy \<and> f_in fl = ForceProxyInName then Some (force_outcome p target usable fl)
      else or_else (map_option (outcomes target) (tiers_outcome usable (entry_holds fl) (Tiers p)))
             (final_outcome p target usable fl))"

text \<open>
  White space in the entries: a value has none at its ends, and beside a comma of a pattern or in a process name with a
  comma there is none but the blank, which \<^verbatim>\<open>Validate\<close> and \<^verbatim>\<open>processCondition\<close> look for.
\<close>

definition plain_value :: "Entry \<Rightarrow> bool" where
  "plain_value e \<longleftrightarrow> TrimSpace (Value e) = Value e \<and>
     (if Kind e = KindProcess
      then CHR '','' \<in> set (Value e) \<longrightarrow> list_all (\<lambda>c. byte c < 128 \<and> (is_space1 c \<longrightarrow> c = CHR '' '')) (Value e)
      else list_all (\<lambda>f. TrimSpace f = Trim f '' '') (Split (Value e) CHR '',''))"

definition plain_values :: "Profile \<Rightarrow> bool" where
  "plain_values p \<longleftrightarrow> list_all (\<lambda>t. list_all plain_value (tier_Entries t)) (Tiers p)"

section \<open>The lines are well-formed rules\<close>

definition entry_atom :: "Entry \<Rightarrow> cond" where
  "entry_atom e = (case Kind e of
     KindGeoSite \<Rightarrow> Atom ''GEOSITE'' (Value e) False
   | KindGeoIP \<Rightarrow> Atom ''GEOIP'' (Value e) True
   | KindDomainSuffix \<Rightarrow> Atom ''DOMAIN-SUFFIX'' (Value e) False
   | KindDomainFull \<Rightarrow> Atom ''DOMAIN'' (Value e) False
   | KindDomainKeyword \<Rightarrow> Atom ''DOMAIN-KEYWORD'' (Value e) False
   | KindDomainRegex \<Rightarrow> Atom ''DOMAIN-REGEX'' (Value e) False
   | KindIPCIDR \<Rightarrow> Atom ''IP-CIDR'' (NormalizeCIDR (Value e)) True
   | KindProcess \<Rightarrow>
       if CHR '','' \<notin> set (Value e) then Atom ''PROCESS-NAME'' (Value e) False
       else Atom ''PROCESS-NAME-REGEX''
              (''^'' @ ReplaceByte (QuoteMeta (Value e)) CHR '' '' (CHR 0x5C # ''x20'') @ ''$'') False)"

definition any_cond :: "Entry list \<Rightarrow> cond" where
  "any_cond es = (case es of [e] \<Rightarrow> entry_atom e | _ \<Rightarrow> AnyCond (map entry_atom es))"

definition step_rules :: "Step \<Rightarrow> string \<Rightarrow> mrule list" where
  "step_rules s t =
     (if Also s = [] then map (\<lambda>e. Rule (entry_atom e) t) (Entries s)
      else [Rule (BothCond (any_cond (Entries s)) (any_cond (Also s))) t])"

definition local_rules :: "string \<Rightarrow> mrule list" where
  "local_rules t =
     Rule (Atom ''DOMAIN-REGEX'' ''.'' False) t # map (\<lambda>c. Rule (Atom ''IP-CIDR'' c True) ''DIRECT'') LocalNetworkCIDRs"

definition force_mrules :: "Profile \<Rightarrow> string \<Rightarrow> mrule list" where
  "force_mrules p target =
     concat (map (\<lambda>tier. concat (map (\<lambda>step.
       if STarget step = TargetBlock \<and> Also step = [] then step_rules step ''REJECT'' else []) (tier_Steps tier)))
       (Tiers p)) @
     (if LocalNetworks p then local_rules target else []) @ [MatchRule target]"

definition in_force :: cond where "in_force = Atom ''IN-NAME'' ForceProxyInName False"

definition head_rules :: "Profile \<Rightarrow> string \<Rightarrow> bool \<Rightarrow> mrule list" where
  "head_rules p target forceProxy =
     (if DisableIPv6 p then [Rule (Atom ''IP-CIDR'' ''::/0'' True) ''REJECT''] else []) @
     (if DisableUDP p
      then [Rule (BothCond (Atom ''NETWORK'' ''udp'' False) (NegCond (Atom ''DST-PORT'' ''53'' False))) ''REJECT''] else []) @
     (if forceProxy
      then [if forceFlowsNeedSubRule p then SubRule in_force forceFlowsSubRule else Rule in_force target,
            Rule in_force ''REJECT''] else [])"

definition tier_mrules :: "string \<Rightarrow> Tier \<Rightarrow> mrule list" where
  "tier_mrules target tier = concat (map (\<lambda>s. step_rules s (outcomes target (STarget s))) (tier_Steps tier))"

definition profile_mrules :: "Profile \<Rightarrow> string \<Rightarrow> bool \<Rightarrow> mrule list" where
  "profile_mrules p target forceProxy =
     head_rules p target forceProxy @ concat (map (tier_mrules target) (Tiers p)) @
     (if LocalNetworks p then local_rules (catchAll p target) else []) @ [MatchRule (catchAll p target)]"

lemma Contains_byte: "Contains s [c] \<longleftrightarrow> c \<in> set s"
proof (induction s)
  case (Cons x s)
  thus ?case by (auto simp: Contains_def HasPrefix_def)
qed (simp add: Contains_def)

lemma ruleCondition_text:
  "t \<noteq> [] \<Longrightarrow> ruleCondition e t = rule_text (Rule (entry_atom e) t)"
  "ruleCondition e [] = cond_text (entry_atom e)"
  by (auto simp: ruleCondition_def withTarget_def entry_atom_def processCondition_def Contains_byte split: MatchKind.split)

lemma ruleCondition_nonempty: "ruleCondition e t \<noteq> []"
  by (simp add: ruleCondition_def withTarget_def processCondition_def split: MatchKind.split)

lemma anyOf_text: "es \<noteq> [] \<Longrightarrow> anyOf es = group_text (cond_text (any_cond es))"
  by (cases es rule: remdups_adj.cases)
    (simp_all add: anyOf_def any_cond_def ruleCondition_text(2) [symmetric] ruleCondition_nonempty group_text_def comp_def)

lemma stepLines_text:
  assumes "Entries s \<noteq> []" "t \<noteq> []"
  shows "stepLines s t = map rule_text (step_rules s t)"
proof (cases "Also s = []")
  case True
  have "map (\<lambda>e. ruleCondition e t) es = map (\<lambda>e. rule_text (Rule (entry_atom e) t)) es" for es
    using ruleCondition_text(1) [OF assms(2)] by simp
  moreover have "filter (\<lambda>c. c \<noteq> []) (map (\<lambda>e. ruleCondition e t) es) = map (\<lambda>e. ruleCondition e t) es" for es
    by (simp add: filter_id_conv ruleCondition_nonempty)
  ultimately show ?thesis using True by (simp add: stepLines_def step_rules_def comp_def)
next
  case False
  thus ?thesis using assms by (simp add: stepLines_def step_rules_def Let_def anyOf_text group_text_def)
qed

lemma tier_steps_nonempty: "s \<in> set (tier_Steps tier) \<Longrightarrow> Entries s \<noteq> []"
  using tier_Steps_ok [of s tier] by (simp add: step_ok_def)

lemma local_lines_text: "t \<noteq> [] \<Longrightarrow> local_lines t = map rule_text (local_rules t)"
  by (simp add: local_lines_def local_rules_def)

lemma forceFlowRules_text: "target \<noteq> [] \<Longrightarrow> forceFlowRules p target = map rule_text (force_mrules p target)"
  by (auto simp: forceFlowRules_def force_mrules_def map_concat comp_def local_lines_text stepLines_text
      tier_steps_nonempty intro!: arg_cong [where f = concat] map_cong)

lemma buildRules_text:
  assumes "target \<noteq> []"
  shows "buildRules p target forceProxy = map rule_text (profile_mrules p target forceProxy)"
proof -
  have out: "outcomes target t \<noteq> []" "catchAll p target \<noteq> []" for t
    using assms by (simp_all add: outcomes_def catchAll_def split: Target.split)
  have "tier_lines target tier = map rule_text (tier_mrules target tier)" for tier
    unfolding tier_lines_def tier_mrules_def map_concat map_map comp_def
    by (rule arg_cong [where f = concat], rule map_cong) (simp_all add: stepLines_text tier_steps_nonempty out)
  hence "concat (map (tier_lines target) (Tiers p)) = map rule_text (concat (map (tier_mrules target) (Tiers p)))"
    by (simp add: map_concat comp_def cong: map_cong)
  thus ?thesis
    by (simp add: buildRules_def profile_mrules_def head_rules_def local_lines_text out kill6_line_def killUDP_line_def
        sub_line_def force_line_def in_force_def group_text_def)
qed

text \<open>The values a validated entry can have.\<close>

definition plain_char :: "char \<Rightarrow> bool" where
  "plain_char c \<longleftrightarrow> byte c < 128 \<and> \<not> is_space1 c \<and> c \<notin> set '',()''"

lemma visible_trimmed:
  assumes "\<forall>c \<in> set s. byte c < 128 \<and> \<not> is_space1 c"
  shows "TrimSpace s = s"
proof (rule TrimSpace_id)
  have "space_len s = 0" using assms space_len_ascii by (cases s) auto
  moreover have "rspace_len (rev s) = 0" using assms rspace_len_ascii by (cases "rev s") (auto simp: rev_eq_Cons_iff)
  ultimately show "trimmed_string s" by (simp add: trimmed_string_def)
qed

lemma plain_chars_field:
  assumes "s \<noteq> []" "\<forall>c \<in> set s. plain_char c"
  shows "rule_field s \<and> parenthesesPair s"
proof -
  have "TrimSpace s = s" using assms(2) by (intro visible_trimmed) (simp add: plain_char_def)
  moreover have "paren_scan 0 (s @ [])"
    using assms(2) by (subst paren_scan_no_paren) (auto simp: plain_char_def)
  ultimately show ?thesis using assms by (auto simp: rule_field_def parenthesesPair_def plain_char_def)
qed

lemma plain_char_hex: "is_hex c \<Longrightarrow> plain_char c" "is_digit c \<Longrightarrow> plain_char c" "is_lower c \<Longrightarrow> plain_char c"
  "is_upper c \<Longrightarrow> plain_char c" "c \<in> set ''.:/-_!@'' \<Longrightarrow> plain_char c"
  by (auto simp: plain_char_def is_space1_def is_hex_def is_digit_def is_lower_def is_upper_def)

lemma Split_covers: "x \<in> set s \<Longrightarrow> x = c \<or> (\<exists>p \<in> set (Split s c). x \<in> set p)"
proof (induction s)
  case (Cons y s)
  thus ?case by (cases "Split s c") auto
qed simp

lemma parseIPv4Fields_chars:
  assumes "parseIPv4Fields s = Some b" and "c \<in> set s"
  shows "plain_char c"
proof -
  have "\<exists>w x y z. map v4_octet (Split s CHR ''.'') = [Some w, Some x, Some y, Some z]"
    using assms(1) by (auto simp: parseIPv4Fields_def split: list.splits option.splits)
  hence v4: "v4_octet p \<noteq> None" if "p \<in> set (Split s CHR ''.'')" for p using that by auto
  have "list_all is_digit p" if "p \<in> set (Split s CHR ''.'')" for p
    using v4 [OF that] by (auto simp: v4_octet_def split: if_splits)
  thus ?thesis using Split_covers [OF assms(2), of "CHR ''.''"] plain_char_hex(2,5)
    by (auto simp: list_all_iff)
qed

lemma parse6_loop_chars:
  "parse6_loop bs ell s = Some (bs', ell', r) \<Longrightarrow> c \<in> set s \<Longrightarrow> plain_char c \<or> c \<in> set r"
proof (induction bs ell s rule: parse6_loop.induct)
  case (1 bs ell s)
  let ?g = "takeWhile is_hex s" and ?r = "dropWhile is_hex s"
  have g: "plain_char c" if "c \<in> set ?g" using that plain_char_hex(1) by (auto dest: set_takeWhileD)
  have split: "c \<in> set ?g \<or> c \<in> set ?r" using 1(4) by (metis Un_iff set_append takeWhile_dropWhile_id)
  show ?case
  proof (cases "16 \<le> length bs")
    case True
    thus ?thesis using 1(3,4) by (simp add: parse6_loop.simps [of bs])
  next
    case False
    note big = False
    have colon: "plain_char CHR '':''" using plain_char_hex(5) by simp
    show ?thesis
    proof (cases "c \<in> set ?g \<or> ?r = [] \<or> hd ?r = CHR ''.''")
      case True
      thus ?thesis using g split big 1(3,4)
        by (auto simp: parse6_loop.simps [of bs] Let_def dest: parseIPv4Fields_chars
            intro: plain_char_hex(1) split: if_splits option.splits)
    next
      case False
      then obtain d e where r: "?r = CHR '':'' # d # e"
        using 1(3) big by (cases ?r rule: remdups_adj.cases) (auto simp: parse6_loop.simps [of bs] Let_def split: if_splits)
      hence "c = CHR '':'' \<or> c \<in> set (d # e)" using split False by auto
      thus ?thesis using 1(1,2) [OF big refl refl refl] 1(3) big False r colon
        by (auto simp: parse6_loop.simps [of bs] Let_def split: if_splits)
    qed
  qed
qed

lemma parse6_finish_rest: "parse6_finish (bs, ell, r) = Some b \<Longrightarrow> r = []"
  by (auto simp: parse6_finish_def split: if_splits)

lemma parse6_chars:
  assumes "Option.bind (parse6_loop bs ell s) parse6_finish = Some b" and "c \<in> set s"
  shows "plain_char c"
proof -
  obtain bs' ell' r where l: "parse6_loop bs ell s = Some (bs', ell', r)" "parse6_finish (bs', ell', r) = Some b"
    using assms(1) by (auto simp: bind_eq_Some_conv)
  from parse6_loop_chars [OF l(1) assms(2)] parse6_finish_rest [OF l(2)] show ?thesis by simp
qed

lemma parseIPv6_chars:
  assumes "parseIPv6 s = Some a" "\<not> zoned a" "c \<in> set s"
  shows "plain_char c"
proof -
  obtain x zone found where cut: "Cut s CHR ''%'' = (x, zone, found)" by (cases "Cut s CHR ''%''")
  have "zone = []" using assms(1,2) cut by (auto simp: parseIPv6_def zoned_def split: if_splits)
  hence x: "x = s" using assms(1) cut
    by (auto simp: parseIPv6_def Cut_def split: if_splits option.splits)
  show ?thesis
  proof (cases "HasPrefix s ''::''")
    case True
    then obtain t where t: "s = '':'' @ '':'' @ t" by (auto simp: HasPrefix_iff)
    have "c = CHR '':'' \<or> c \<in> set t" using assms(3) t by auto
    thus ?thesis using assms(1) cut x t plain_char_hex(5) True
      by (auto simp: parseIPv6_def dest: parse6_chars split: if_splits)
  next
    case False
    thus ?thesis using assms(1,3) cut x by (auto simp: parseIPv6_def dest: parse6_chars split: if_splits)
  qed
qed

lemma ParseAddr_chars:
  "ParseAddr s = Some a \<Longrightarrow> \<not> zoned a \<Longrightarrow> c \<in> set s \<Longrightarrow> plain_char c"
  by (auto simp: ParseAddr_def dest: parseIPv4Fields_chars parseIPv6_chars split: option.splits if_splits)

lemma isIPOrCIDR_chars:
  assumes "isIPOrCIDR s" "c \<in> set s"
  shows "plain_char c"
proof (cases "CHR ''/'' \<in> set s")
  case True
  then obtain a m where s: "s = a @ CHR ''/'' # m" "CHR ''/'' \<notin> set a" by (metis split_list_first)
  hence cut: "Cut s CHR ''/'' = (a, m, True)" by (simp add: Cut_found)
  obtain ad where "ParseAddr a = Some ad" "\<not> zoned ad" "list_all is_digit m"
    using assms(1) True cut by (auto simp: isIPOrCIDR_def ParseCIDR_def split: option.splits if_splits)
  moreover have "c \<in> set a \<or> c = CHR ''/'' \<or> c \<in> set m" using assms(2) s(1) by auto
  ultimately show ?thesis using plain_char_hex(2,5) by (auto simp: list_all_iff dest: ParseAddr_chars)
next
  case False
  thus ?thesis using assms
    by (auto simp: isIPOrCIDR_def ParseIP_def dest: ParseAddr_chars split: option.splits if_splits)
qed

lemma NormalizeCIDR_field:
  assumes "isIPOrCIDR v" "v \<noteq> []"
  shows "rule_field (NormalizeCIDR v) \<and> parenthesesPair (NormalizeCIDR v)"
proof (rule plain_chars_field)
  have v: "\<forall>c \<in> set v. plain_char c" using isIPOrCIDR_chars [OF assms(1)] by blast
  hence "TrimSpace v = v" by (intro visible_trimmed) (simp add: plain_char_def)
  hence "NormalizeCIDR v \<in> {v, v @ ''/32'', v @ ''/128''}" by (auto simp: NormalizeCIDR_def Let_def split: option.split)
  moreover have "\<forall>c \<in> set ''/32''. plain_char c" "\<forall>c \<in> set ''/128''. plain_char c" by code_simp+
  ultimately show "NormalizeCIDR v \<noteq> []" "\<forall>c \<in> set (NormalizeCIDR v). plain_char c" using v assms(2) by auto
qed

text \<open>An entry of a validated profile.\<close>

definition valid_entry :: "Entry \<Rightarrow> bool" where
  "valid_entry e \<longleftrightarrow> (\<exists>m. Classify m = Some (Kind e, Value e) \<and> validateMatcher m = None)"

lemma validated_entries:
  assumes "Profile_Validate p = None" "tier \<in> set (Tiers p)" "e \<in> set (tier_Entries tier)"
  shows "valid_entry e"
proof -
  obtain m where "m \<in> set (Block tier) \<union> set (Direct tier) \<union> set (Proxy tier)" "Classify m = Some (Kind e, Value e)"
    using tier_Entries_origin [OF assms(3)] by blast
  thus ?thesis using assms(1,2) unfolding Profile_Validate_def validate_tiers_None valid_entry_def by blast
qed

lemma domainEntry_kind: "domainEntry k s = Some (k', v) \<Longrightarrow> k' = k"
  by (auto simp: domainEntry_def Let_def split: if_splits)

lemma Classify_address:
  assumes "Classify m = Some (KindIPCIDR, v)"
  shows "isIPOrCIDR v"
  using assms unfolding Classify_def Let_def
  by (auto dest: domainEntry_kind split: if_splits option.splits)

lemma geo_code_field:
  assumes "TrimSpace v = v" "v \<noteq> []" "ValidGeoCode v \<or> ValidGeoIPCode v"
  shows "rule_field v \<and> parenthesesPair v"
proof (rule plain_chars_field [OF assms(2)])
  have ok: "plain_char c" if "validGeoChars s extra" "extra \<in> {[], ''!''}" "c \<in> set s" for s extra c
    using that plain_char_hex by (auto simp: validGeoChars_def)
  have bang: "plain_char CHR ''!''" "plain_char CHR ''@''" by code_simp+
  show "\<forall>c \<in> set v. plain_char c"
  proof
    fix c assume c: "c \<in> set v"
    show "plain_char c"
    proof (cases "ValidGeoCode v")
      case True
      thus ?thesis using Split_covers [OF c, of "CHR ''@''"] ok [of _ "''!''"] bang(2) assms(1)
        by (auto simp: ValidGeoCode_def Let_def split: if_splits)
    next
      case False
      hence "validGeoChars (TrimPrefix v ''!'') []" using assms by (simp add: ValidGeoIPCode_def Let_def)
      moreover have "c = CHR ''!'' \<or> c \<in> set (TrimPrefix v ''!'')"
        using c by (cases v) (auto simp: TrimPrefix_def HasPrefix_def)
      ultimately show ?thesis using ok [of _ "[]"] bang(1) by auto
    qed
  qed
qed

lemma Contains_infix: "Contains (a @ p @ b) p"
proof (induction a)
  case Nil
  have "HasPrefix (p @ b) p" by simp
  thus ?case by (cases "p @ b") (auto simp: Contains_def)
next
  case (Cons x a)
  thus ?case by (auto simp: Contains_def)
qed

lemma Join_middle:
  "Join (xs @ f # ys) [c] =
   (if xs = [] then [] else Join xs [c] @ [c]) @ f @ (if ys = [] then [] else c # Join ys [c])"
  by (induction xs rule: induct_list012) (cases ys; simp)+

lemma Split_field:
  assumes "f \<in> set (Split v c)"
  shows "\<exists>a b. v = a @ f @ b \<and> (a = [] \<or> last a = c) \<and> (b = [] \<or> hd b = c)"
proof -
  obtain xs ys where "Split v c = xs @ f # ys" using split_list [OF assms] by blast
  hence "v = (if xs = [] then [] else Join xs [c] @ [c]) @ f @ (if ys = [] then [] else c # Join ys [c])"
    using Join_Split [of v c] Join_middle [of xs f ys c] by simp
  thus ?thesis by (intro exI conjI) (assumption, simp_all)
qed

lemma blank_space: "space_len (CHR '' '' # r) \<noteq> 0" "rspace_len (CHR '' '' # r) \<noteq> 0"
  by (cases r rule: space_len.cases; simp add: is_space1_def) (cases r rule: rspace_len.cases; simp add: is_space1_def)

lemma trimmed_ends:
  assumes "TrimSpace v = v" "v \<noteq> []"
  shows "hd v \<noteq> CHR '' ''" "last v \<noteq> CHR '' ''"
proof -
  have "trimmed_string v" using trimmed_TrimSpace [of v] assms(1) by simp
  hence t: "space_len (hd v # tl v) = 0" "rspace_len (hd (rev v) # tl (rev v)) = 0"
    using assms(2) by (simp_all add: trimmed_string_def)
  show "hd v \<noteq> CHR '' ''" using t(1) blank_space(1) by metis
  show "last v \<noteq> CHR '' ''" using t(2) blank_space(2) by (metis hd_rev)
qed

lemma Trim_blank_id:
  assumes "f = [] \<or> hd f \<noteq> CHR '' '' \<and> last f \<noteq> CHR '' ''"
  shows "Trim f '' '' = f"
proof -
  have keep: "dropWhile (\<lambda>c. c = CHR '' '') g = g" if "g = [] \<or> hd g \<noteq> CHR '' ''" for g using that by (cases g) auto
  show ?thesis using assms keep [of f] keep [of "rev f"] by (auto simp: Trim_def hd_rev)
qed

lemma regex_tight:
  assumes v: "TrimSpace v = v" "v \<noteq> []" and c: "\<not> Contains v '' ,''" "\<not> Contains v '', ''"
    and f: "list_all (\<lambda>f. TrimSpace f = Trim f '' '') (Split v CHR '','')"
  shows "tight v"
proof -
  have "Trim f '' '' = f" if f: "f \<in> set (Split v CHR '','')" for f
  proof (rule Trim_blank_id, cases "f = []")
    case False
    obtain a b where ab: "v = a @ f @ b" "a = [] \<or> last a = CHR '',''" "b = [] \<or> hd b = CHR '',''"
      using Split_field [OF f] by blast
    have "hd f \<noteq> CHR '' ''"
    proof
      assume h: "hd f = CHR '' ''"
      hence "a \<noteq> []" using trimmed_ends(1) [OF v] ab(1) False by auto
      hence "v = butlast a @ '', '' @ tl f @ b" using ab False h
        by (metis append_Cons append_Nil append_assoc append_butlast_last_id list.collapse)
      thus False using Contains_infix c(2) by metis
    qed
    moreover have "last f \<noteq> CHR '' ''"
    proof
      assume h: "last f = CHR '' ''"
      hence "b \<noteq> []" using trimmed_ends(2) [OF v] ab(1) False by auto
      hence "v = (a @ butlast f) @ '' ,'' @ tl b" using ab False h
        by (metis append_Cons append_Nil append_assoc append_butlast_last_id list.collapse)
      thus False using Contains_infix c(1) by metis
    qed
    ultimately show "f = [] \<or> hd f \<noteq> CHR '' '' \<and> last f \<noteq> CHR '' ''" by blast
  qed simp
  thus ?thesis using f v(2) by (simp add: tight_def list_all_iff)
qed

text \<open>The pattern for a process name with a comma spells that name out and holds no white space.\<close>

definition quoted_char :: "char \<Rightarrow> string" where
  "quoted_char c = (if c \<in> set regex_meta then [CHR 0x5C, c] else if c = CHR '' '' then CHR 0x5C # ''x20'' else [c])"

lemma regex_meta_mem: "CHR 0x5C \<in> set regex_meta" "CHR ''x'' \<notin> set regex_meta" "CHR '' '' \<notin> set regex_meta"
  by code_simp+

lemma quoted_name: "ReplaceByte (QuoteMeta v) CHR '' '' (CHR 0x5C # ''x20'') = concat (map quoted_char v)"
proof (induction v)
  case (Cons c v)
  have "ReplaceByte (QuoteMeta (c # v)) CHR '' '' r = ReplaceByte (QuoteMeta [c]) CHR '' '' r @ ReplaceByte (QuoteMeta v) CHR '' '' r"
    for r by (simp add: QuoteMeta_def ReplaceByte_def)
  moreover have "ReplaceByte (QuoteMeta [c]) CHR '' '' (CHR 0x5C # ''x20'') = quoted_char c"
    unfolding QuoteMeta_def regex_meta_def [symmetric] ReplaceByte_def quoted_char_def using regex_meta_mem by auto
  ultimately show ?case using Cons by simp
qed (simp add: QuoteMeta_def ReplaceByte_def)

lemma literal_quoted_char: "literal_regex (quoted_char c @ r) = map_option (Cons c) (literal_regex r)"
  using regex_meta_mem by (cases "c \<in> set regex_meta"; cases "c = CHR '' ''"; cases "c = CHR 0x5C") (simp_all add: quoted_char_def)

declare literal_regex.simps(2) [simp del]

lemma literal_quoted: "literal_regex (concat (map quoted_char v)) = Some v"
  by (induction v) (simp_all add: literal_quoted_char del: literal_regex.simps(2))

lemma quoted_visible:
  assumes "list_all (\<lambda>c. byte c < 128 \<and> (is_space1 c \<longrightarrow> c = CHR '' '')) v"
  shows "tight (''^'' @ concat (map quoted_char v) @ ''$'')"
proof -
  let ?q = "''^'' @ concat (map quoted_char v) @ ''$''"
  have visible: "\<forall>c \<in> set ''^$''. byte c < 128 \<and> \<not> is_space1 c"
    "\<forall>c \<in> set (CHR 0x5C # ''x20''). byte c < 128 \<and> \<not> is_space1 c" by code_simp+
  moreover have "\<forall>d \<in> set (quoted_char c). byte d < 128 \<and> \<not> is_space1 d" if "c \<in> set v" for c
  proof (cases "c = CHR '' ''")
    case True
    thus ?thesis using regex_meta_mem(3) visible(2) by (simp add: quoted_char_def)
  next
    case False
    thus ?thesis using assms that visible(2) by (auto simp: quoted_char_def list_all_iff)
  qed
  ultimately have "\<forall>c \<in> set ?q. byte c < 128 \<and> \<not> is_space1 c" by auto
  hence "TrimSpace f = f" if "f \<in> set (Split ?q CHR '','')" for f
    using Split_subset [OF that] by (intro visible_trimmed) blast
  thus ?thesis by (simp add: tight_def list_all_iff)
qed

lemma entry_wf:
  assumes "valid_entry e" "plain_value e"
  shows "case entry_atom e of
    Atom T v n \<Rightarrow> wf_atom T v n \<and> (Kind e \<noteq> KindProcess \<longrightarrow> parenthesesPair v) | _ \<Rightarrow> False"
proof -
  obtain m where m: "Classify m = Some (Kind e, Value e)" "validateMatcher m = None"
    using assms(1) by (auto simp: valid_entry_def)
  have v: "Value e \<noteq> []" "TrimSpace (Value e) = Value e"
    using Classify_nonempty [OF m(1)] assms(2) by (simp_all add: plain_value_def)
  have plain: "wf_atom T x n" if "T \<in> set plain_types" "rule_field x" for T x n
    using that by (simp add: wf_atom_def)
  have domain: "rule_field (Value e) \<and> parenthesesPair (Value e)"
    if "Kind e \<in> {KindDomainSuffix, KindDomainFull, KindDomainKeyword}"
    using m that v by (auto simp: validateMatcher_def rule_field_def split: if_splits)
  show ?thesis
  proof (cases "Kind e")
    case KindGeoSite
    hence "rule_field (Value e) \<and> parenthesesPair (Value e)"
      using m v by (intro geo_code_field) (auto simp: validateMatcher_def split: if_splits)
    thus ?thesis using KindGeoSite by (simp add: entry_atom_def plain plain_types_def)
  next
    case KindGeoIP
    hence "rule_field (Value e) \<and> parenthesesPair (Value e)"
      using m v by (intro geo_code_field) (auto simp: validateMatcher_def split: if_splits)
    thus ?thesis using KindGeoIP by (simp add: entry_atom_def plain plain_types_def)
  next
    case KindIPCIDR
    thus ?thesis using NormalizeCIDR_field [OF _ v(1)] Classify_address m(1)
      by (simp add: entry_atom_def plain plain_types_def)
  next
    case KindDomainRegex
    hence "tight (Value e) \<and> parenthesesPair (Value e)"
      using m v assms(2) by (auto simp: validateMatcher_def plain_value_def intro: regex_tight split: if_splits)
    thus ?thesis using KindDomainRegex by (simp add: entry_atom_def wf_atom_def regex_types_def)
  next
    case KindProcess
    hence "wf_atom ''PROCESS-NAME-REGEX'' (''^'' @ concat (map quoted_char (Value e)) @ ''$'') False"
      if "CHR '','' \<in> set (Value e)"
      using quoted_visible [of "Value e"] assms(2) that unfolding plain_value_def wf_atom_def
      by (simp add: regex_types_def)
    thus ?thesis using KindProcess v by (auto simp: entry_atom_def quoted_name plain plain_types_def rule_field_def)
  qed (use domain in \<open>simp_all add: entry_atom_def plain plain_types_def\<close>)
qed

lemma entry_wf_rule:
  "valid_entry e \<Longrightarrow> plain_value e \<Longrightarrow> rule_field t \<Longrightarrow> wf_rule (Rule (entry_atom e) t)"
  using entry_wf [of e] by (cases "entry_atom e") auto

lemma entry_wf_cond:
  "valid_entry e \<Longrightarrow> plain_value e \<Longrightarrow> Kind e \<noteq> KindProcess \<Longrightarrow> wf_cond (entry_atom e)"
  using entry_wf [of e] by (cases "entry_atom e") auto

lemma any_cond_wf:
  "\<forall>e \<in> set es. valid_entry e \<and> plain_value e \<and> Kind e \<noteq> KindProcess \<Longrightarrow> wf_cond (any_cond es)"
  by (cases es rule: remdups_adj.cases) (simp_all add: any_cond_def entry_wf_cond list_all_iff)

lemma app_unpaired:
  assumes "step_ok all s" "Also s \<noteq> []" "x \<in> set (Entries s) \<union> set (Also s)"
  shows "Kind x \<noteq> KindProcess"
proof
  assume "Kind x = KindProcess"
  hence app: "entry_plane x = planeApp" by (simp add: entry_plane_def)
  let ?h = "entry_plane (hd (Entries s))"
  have e: "\<forall>e \<in> set (Entries s). entry_plane e = ?h" "\<forall>e \<in> set (Also s). other_plane ?h = Some (entry_plane e)"
    using assms(1) unfolding step_ok_def by blast+
  obtain a where "a \<in> set (Also s)" using assms(2) by (cases "Also s") auto
  hence "?h \<noteq> planeApp" using e(2) by force
  hence "x \<in> set (Also s)" using assms(3) e(1) app by force
  hence "other_plane ?h = Some planeApp" using e(2) app by force
  thus False by (cases ?h) simp_all
qed

lemma step_rules_wf:
  assumes s: "s \<in> set (tier_Steps tier)" and e: "\<forall>e \<in> set (tier_Entries tier). valid_entry e \<and> plain_value e"
    and t: "rule_field t"
  shows "list_all wf_rule (step_rules s t)"
proof -
  have ok: "step_ok (tier_Entries tier) s" by (rule tier_Steps_ok [OF s])
  hence sub: "\<forall>x \<in> set (Entries s). valid_entry x \<and> plain_value x" "\<forall>x \<in> set (Also s). valid_entry x \<and> plain_value x"
    using e unfolding step_ok_def by blast+
  show ?thesis
  proof (cases "Also s = []")
    case True
    have "wf_rule (Rule (entry_atom x) t)" if "x \<in> set (Entries s)" for x
      using entry_wf_rule [OF _ _ t] sub(1) that by blast
    thus ?thesis using True by (simp add: step_rules_def list_all_iff)
  next
    case False
    have "wf_cond (any_cond (Entries s))" "wf_cond (any_cond (Also s))"
      using sub app_unpaired [OF ok False] by (intro any_cond_wf, blast)+
    thus ?thesis using False t by (simp add: step_rules_def)
  qed
qed

lemma fixed_fields: "rule_field ''REJECT''" "rule_field ''DIRECT''" "rule_field forceFlowsSubRule"
  by code_simp+

lemma outcome_fields:
  "rule_field target \<Longrightarrow> rule_field (outcomes target t)" "rule_field target \<Longrightarrow> rule_field (catchAll p target)"
  by (simp_all add: outcomes_def catchAll_def fixed_fields split: Target.split)

lemma local_rules_wf: "rule_field t \<Longrightarrow> list_all wf_rule (local_rules t)"
proof -
  have "list_all (\<lambda>c. wf_atom ''IP-CIDR'' c True) LocalNetworkCIDRs" "wf_atom ''DOMAIN-REGEX'' ''.'' False" by code_simp+
  thus "rule_field t \<Longrightarrow> list_all wf_rule (local_rules t)"
    by (simp add: local_rules_def list_all_iff fixed_fields)
qed

lemma head_rules_wf: "rule_field target \<Longrightarrow> list_all wf_rule (head_rules p target forceProxy)"
proof -
  have "wf_cond in_force" "wf_atom ''IP-CIDR'' ''::/0'' True"
    "wf_cond (BothCond (Atom ''NETWORK'' ''udp'' False) (NegCond (Atom ''DST-PORT'' ''53'' False)))" by code_simp+
  thus "rule_field target \<Longrightarrow> list_all wf_rule (head_rules p target forceProxy)"
    by (simp add: head_rules_def fixed_fields in_force_def)
qed

lemma profile_mrules_wf:
  assumes "Profile_Validate p = None" "plain_values p" "rule_field target"
  shows "list_all wf_rule (profile_mrules p target forceProxy)" "list_all wf_rule (force_mrules p target)"
proof -
  have e: "\<forall>e \<in> set (tier_Entries tier). valid_entry e \<and> plain_value e" if "tier \<in> set (Tiers p)" for tier
    using validated_entries [OF assms(1) that] assms(2) that by (simp add: plain_values_def list_all_iff)
  have "list_all wf_rule (tier_mrules target tier)" if "tier \<in> set (Tiers p)" for tier
    using step_rules_wf [OF _ e [OF that]] outcome_fields(1) [OF assms(3)] by (auto simp: tier_mrules_def list_all_iff)
  thus "list_all wf_rule (profile_mrules p target forceProxy)"
    using head_rules_wf [OF assms(3)] local_rules_wf [OF outcome_fields(2) [OF assms(3)]] outcome_fields(2) [OF assms(3)]
    by (auto simp: profile_mrules_def list_all_iff)
  show "list_all wf_rule (force_mrules p target)"
    using step_rules_wf [OF _ e fixed_fields(1)] local_rules_wf [OF assms(3)] assms(3)
    by (auto simp: force_mrules_def list_all_iff split: if_splits)
qed

section \<open>The rules decide as the profile asks\<close>

lemma decides_Rule:
  "decides h subs carries (Rule c t) = (cond_holds h c \<and> carries t)"
  "decides h subs carries (MatchRule t) = carries t"
  "decides h subs carries (Rule c t) \<Longrightarrow> policy_of h subs (Rule c t) = t"
  "policy_of h subs (MatchRule t) = t"
  by (auto simp: decides_def policy_of_def split: if_splits)

lemma entry_atom_holds:
  assumes "rule_types h fl"
  shows "cond_holds h (entry_atom e) = entry_holds fl e"
proof -
  have "h ''PROCESS-NAME-REGEX'' (''^'' @ concat (map quoted_char (Value e)) @ ''$'') False = f_process fl (Value e)"
    using assms literal_quoted [of "Value e"] unfolding rule_types_def by blast
  moreover have "h ''GEOSITE'' v False = f_site fl v \<and> h ''GEOIP'' v True = f_geoip fl v \<and>
      h ''DOMAIN-SUFFIX'' v False = f_suffix fl v \<and> h ''DOMAIN'' v False = f_full fl v \<and>
      h ''DOMAIN-KEYWORD'' v False = f_keyword fl v \<and> h ''DOMAIN-REGEX'' v False = f_regex fl v \<and>
      h ''IP-CIDR'' v True = f_addr fl v \<and> h ''PROCESS-NAME'' v False = f_process fl v" for v
    using assms unfolding rule_types_def by blast
  ultimately show ?thesis by (cases "Kind e") (simp_all add: entry_atom_def entry_holds_def quoted_name)
qed

lemma any_cond_holds:
  "rule_types h fl \<Longrightarrow> cond_holds h (any_cond es) = (\<exists>e \<in> set es. entry_holds fl e)"
  by (cases es rule: remdups_adj.cases) (auto simp: any_cond_def entry_atom_holds list_ex_iff)

lemma step_rules_route:
  assumes "rule_types h fl"
  shows "walk_rules h subs carries (step_rules s t) =
    (if step_matches (entry_holds fl) s \<and> carries t then Some t else None)"
proof (cases "Also s = []")
  case True
  have "walk_rules h subs carries (map (\<lambda>e. Rule (entry_atom e) t) (Entries s)) =
      first_match (\<lambda>e. entry_holds fl e \<and> carries t) (\<lambda>_. t) (Entries s)"
    unfolding walk_rules_def first_match_map
    by (rule first_match_cong) (simp_all add: decides_Rule entry_atom_holds [OF assms])
  thus ?thesis using True by (auto simp: step_rules_def first_match_const step_matches_def)
next
  case False
  thus ?thesis
    by (simp add: walk_rules_def step_rules_def decides_def policy_of_def any_cond_holds [OF assms] step_matches_def)
qed

lemma walk_rules_append [simp]:
  "walk_rules h subs carries (xs @ ys) = or_else (walk_rules h subs carries xs) (walk_rules h subs carries ys)"
  "walk_rules h subs carries [] = None"
  by (simp_all add: walk_rules_def)

lemma can_carry_fixed [simp]: "can_carry udp fl ''DIRECT''" "can_carry udp fl ''REJECT''"
  by (simp_all add: can_carry_def)

lemma steps_route:
  assumes "rule_types h fl"
  shows "walk_rules h subs carries (concat (map (\<lambda>s. step_rules s (outcomes target (STarget s))) steps)) =
    map_option (outcomes target) (steps_outcome (entry_holds fl) (filter (\<lambda>s. carries (outcomes target (STarget s))) steps))"
  by (induction steps) (simp_all add: step_rules_route [OF assms])

lemma carried_outcome:
  "can_carry udp fl (outcomes target t) \<longleftrightarrow> can_carry udp fl target \<or> t \<noteq> TargetProxy"
  by (cases t) (simp_all add: outcomes_def)

lemma tier_mrules_route:
  assumes "rule_types h fl"
  shows "walk_rules h subs (can_carry udp fl) (tier_mrules target t) =
    map_option (outcomes target) (tier_decision (can_carry udp fl target) (entry_holds fl) t)"
  unfolding tier_mrules_def steps_route [OF assms] carried_outcome tier_decision_def
  by (simp add: tier_Steps_outcome)

lemma tier_mrules_list_route:
  assumes "rule_types h fl"
  shows "walk_rules h subs (can_carry udp fl) (concat (map (tier_mrules target) ts)) =
    map_option (outcomes target) (tiers_outcome (can_carry udp fl target) (entry_holds fl) ts)"
proof (induction ts)
  case (Cons t ts)
  thus ?case
    by (cases "tier_decision (can_carry udp fl target) (entry_holds fl) t") (simp_all add: tier_mrules_route [OF assms])
qed simp

lemma local_route:
  assumes h: "rule_types h fl" and direct: "carries ''DIRECT''"
  shows "walk_rules h subs carries ((if LocalNetworks p then local_rules t else []) @ [MatchRule t]) =
    (if carries t then Some (if local_flow p fl then ''DIRECT'' else t)
     else if LocalNetworks p \<and> list_ex (f_addr fl) LocalNetworkCIDRs then Some ''DIRECT'' else None)"
proof -
  have holds: "h ''DOMAIN-REGEX'' ''.'' False = f_named fl" "h ''IP-CIDR'' c True = f_addr fl c" for c
    using h unfolding rule_types_def by blast+
  have "walk_rules h subs carries (map (\<lambda>c. Rule (Atom ''IP-CIDR'' c True) ''DIRECT'') LocalNetworkCIDRs) =
      first_match (f_addr fl) (\<lambda>_. ''DIRECT'') LocalNetworkCIDRs"
    unfolding walk_rules_def first_match_map
    by (rule first_match_cong) (simp_all add: decides_def policy_of_def holds direct)
  also have "\<dots> = (if list_ex (f_addr fl) LocalNetworkCIDRs then Some ''DIRECT'' else None)"
    by (simp add: first_match_const list_ex_iff)
  finally have nets: "walk_rules h subs carries (map (\<lambda>c. Rule (Atom ''IP-CIDR'' c True) ''DIRECT'') LocalNetworkCIDRs) = \<dots>" .
  have head: "walk_rules h subs carries (r # rs) =
      (if decides h subs carries r then Some (policy_of h subs r) else walk_rules h subs carries rs)" for r rs
    by (simp add: walk_rules_def)
  show ?thesis
    unfolding local_rules_def local_flow_def walk_rules_append
    by (cases "LocalNetworks p") (simp_all add: head nets decides_def policy_of_def holds)
qed

lemma forced_blocks_route:
  assumes "rule_types h fl" "carries ''REJECT''"
  shows "walk_rules h subs carries (concat (map (\<lambda>tier. concat (map (\<lambda>step.
      if STarget step = TargetBlock \<and> Also step = [] then step_rules step ''REJECT'' else []) (tier_Steps tier))) ts)) =
    (if list_ex (\<lambda>t. list_ex (\<lambda>e. ETarget e = TargetBlock \<and> entry_holds fl e) (tier_Entries t)) ts
     then Some ''REJECT'' else None)"
proof (induction ts)
  case (Cons t ts)
  have "walk_rules h subs carries (concat (map (\<lambda>step. if STarget step = TargetBlock \<and> Also step = []
        then step_rules step ''REJECT'' else []) steps)) =
      (if \<exists>s \<in> set steps. STarget s = TargetBlock \<and> Also s = [] \<and> step_matches (entry_holds fl) s
       then Some ''REJECT'' else None)" for steps
    by (induction steps) (auto simp: step_rules_route [OF assms(1)] assms(2))
  from this [of "tier_Steps t"] Cons show ?case
    by (simp add: tier_block_steps list_ex_iff)
qed simp

lemma HasBlock_entries: "blocked_flow p fl \<Longrightarrow> HasBlock p"
  unfolding blocked_flow_def HasBlock_def list_ex_iff
  using tier_Entries_lists by fastforce

lemma sub_policy_walk:
  "\<forall>r \<in> set rs. \<forall>c n. r \<noteq> SubRule c n \<Longrightarrow> sub_policy h rs = walk_rules h subs (\<lambda>_. True) rs"
  unfolding sub_policy_def walk_rules_def
proof (rule first_match_cong)
  fix r assume "\<forall>r \<in> set rs. \<forall>c n. r \<noteq> SubRule c n" "r \<in> set rs"
  hence "rule_policy h subs r = own_policy h r" by (cases r) auto
  thus "(own_policy h r \<noteq> None) = decides h subs (\<lambda>_. True) r" "the (own_policy h r) = policy_of h subs r"
    by (auto simp: decides_def policy_of_def split: option.split)
qed

lemma force_mrules_policy:
  assumes "rule_types h fl"
  shows "sub_policy h (force_mrules p target) =
    Some (if blocked_flow p fl then ''REJECT'' else if local_flow p fl then ''DIRECT'' else target)"
proof -
  have "\<forall>r \<in> set (force_mrules p target). \<forall>c n. r \<noteq> SubRule c n"
    by (auto simp: force_mrules_def local_rules_def step_rules_def split: if_splits)
  from sub_policy_walk [OF this, of h "\<lambda>_. []"] show ?thesis
    unfolding force_mrules_def walk_rules_append forced_blocks_route [where carries = "\<lambda>_. True", OF assms TrueI]
      local_route [where carries = "\<lambda>_. True", OF assms TrueI, unfolded walk_rules_append]
    by (simp add: blocked_flow_def)
qed

lemma head_rules_route:
  assumes h: "rule_types h fl" and subs: "subs forceFlowsSubRule = force_mrules p target"
  shows "walk_rules h subs (can_carry udp fl) (head_rules p target forceProxy) =
    (if killed_flow p fl then Some ''REJECT''
     else if forceProxy \<and> f_in fl = ForceProxyInName then Some (force_outcome p target (can_carry udp fl target) fl)
     else None)"
proof -
  have holds: "h ''IP-CIDR'' ''::/0'' True = f_addr fl ''::/0''" "h ''NETWORK'' ''udp'' False = f_udp fl"
    "h ''DST-PORT'' ''53'' False = (f_port fl = 53)" "h ''IN-NAME'' ForceProxyInName False = (f_in fl = ForceProxyInName)"
    using h unfolding rule_types_def by blast+
  have head: "walk_rules h subs carries (r # rs) =
      (if decides h subs carries r then Some (policy_of h subs r) else walk_rules h subs carries rs)" for r rs carries
    by (simp add: walk_rules_def)
  have plain: "\<not> blocked_flow p fl \<and> \<not> local_flow p fl" if "\<not> forceFlowsNeedSubRule p"
    using that HasBlock_entries [of p fl] by (auto simp: forceFlowsNeedSubRule_def local_flow_def)
  show ?thesis
    using plain unfolding head_rules_def
    by (auto simp: head holds decides_def policy_of_def in_force_def subs force_mrules_policy [OF h] killed_flow_def
        force_outcome_def)
qed

text \<open>
  C3. The mihomo rule list carries the profile out. Every line, and every line of the force-proxy list beside it, is the
  text of a rule of mihomo's documented syntax, so a reader that honours that syntax accepts them; and the rules decide a
  flow as the profile asks, where mihomo skips a matching rule whose policy cannot carry the flow: a kill-switch rejects
  it; a flow of the force-proxy dialer meets a block, a local network or the proxy, and is rejected, never handed to the
  tiers, when the proxy cannot carry it; any other flow takes the outcome of the first tier that decides it, then the
  local networks for a flow without a name, then the mode's catch-all. When the proxy has no UDP, a UDP flow passes the
  steps and the catch-all that lead to it. The profile is one that \<^verbatim>\<open>Validate\<close> accepts, with ordinary white space in its
  entries.
\<close>

theorem mihomo_rules_implement_profile:
  assumes "documented_reader rd" and "rule_types h fl"
    and "Profile_Validate p = None" and "plain_values p" and "rule_field target"
  shows "route_lines rd h (can_carry udp fl) (forceFlowsSubRule, forceFlowRules p target) (buildRules p target forceProxy) =
    Some (mihomo_policy p target (can_carry udp fl target) forceProxy fl)"
proof -
  have t: "target \<noteq> []" using assms(5) by (simp add: rule_field_def)
  have "those (map rd (buildRules p target forceProxy)) = Some (profile_mrules p target forceProxy)"
    "those (map rd (forceFlowRules p target)) = Some (force_mrules p target)"
    unfolding buildRules_text [OF t] forceFlowRules_text [OF t]
    using documented_reader_list [OF assms(1)] profile_mrules_wf [OF assms(3-5)] by blast+
  moreover have "can_carry udp fl (catchAll p target) = (can_carry udp fl target \<or> ResolvedMode p = ModeDirectAll)"
    by (auto simp: catchAll_def)
  ultimately show ?thesis
    unfolding route_lines_def profile_mrules_def
    by (simp add: tier_mrules_list_route [OF assms(2)] head_rules_route [OF assms(2)]
        local_route [OF assms(2), unfolded walk_rules_append] mihomo_policy_def final_outcome_def)
qed

definition mihomo_sample :: Profile where
  "mihomo_sample = \<lparr>Mode = ''proxy-all'',
     Tiers = [\<lparr>Block = [''203.0.113.0/24''], Direct = [''domain:example.com'', ''geosite:cn''], Proxy = []\<rparr>],
     DomainStrategy = [], LocalNetworks = True, DirectSendThrough = [], DirectInterface = [],
     DisableIPv6 = True, DisableUDP = False\<rparr>"

text \<open>Matchers that mean what mihomo documents, for any flow.\<close>

definition doc_matcher :: "mflow \<Rightarrow> matcher" where
  "doc_matcher fl T v n =
     (if T = ''GEOSITE'' then f_site fl v else if T = ''GEOIP'' then f_geoip fl v
      else if T = ''DOMAIN-SUFFIX'' then f_suffix fl v else if T = ''DOMAIN'' then f_full fl v
      else if T = ''DOMAIN-KEYWORD'' then f_keyword fl v else if T = ''DOMAIN-REGEX'' then f_regex fl v
      else if T = ''IP-CIDR'' then f_addr fl v else if T = ''PROCESS-NAME'' then f_process fl v
      else if T = ''IN-NAME'' then f_in fl = v
      else if T = ''PROCESS-NAME-REGEX''
      then (case literal_regex (butlast (tl v)) of None \<Rightarrow> False | Some w \<Rightarrow> f_process fl w)
      else if T = ''NETWORK'' then f_udp fl else f_port fl = 53)"

lemma doc_matcher_types: "f_regex fl ''.'' = f_named fl \<Longrightarrow> rule_types (doc_matcher fl) fl"
  by (simp add: rule_types_def doc_matcher_def)

text \<open>A UDP flow of the force-proxy dialer to a name the tier sends direct, and a proxy without UDP.\<close>

definition sample_mflow :: mflow where
  "sample_mflow = \<lparr>f_site = (\<lambda>_. False), f_geoip = (\<lambda>_. False), f_suffix = (\<lambda>v. v = ''example.com''),
     f_full = (\<lambda>_. False), f_keyword = (\<lambda>_. False), f_regex = (\<lambda>v. v = ''.''), f_addr = (\<lambda>_. False),
     f_process = (\<lambda>_. False), f_named = True, f_udp = True, f_port = 443, f_in = ForceProxyInName\<rparr>"

theorem mihomo_rules_implement_profile_witness:
  "route_lines read_rule (doc_matcher sample_mflow) (can_carry (\<lambda>_. False) sample_mflow)
     (forceFlowsSubRule, forceFlowRules mihomo_sample ''vpn'') (buildRules mihomo_sample ''vpn'' True) = Some (Some ''REJECT'')"
proof -
  have "rule_types (doc_matcher sample_mflow) sample_mflow"
    by (rule doc_matcher_types) (simp add: sample_mflow_def)
  moreover have "Profile_Validate mihomo_sample = None" by code_simp
  moreover have "plain_values mihomo_sample" by code_simp
  moreover have "rule_field ''vpn''" by code_simp
  moreover have "mihomo_policy mihomo_sample ''vpn'' (can_carry (\<lambda>_. False) sample_mflow ''vpn'') True sample_mflow =
      Some ''REJECT''" by code_simp
  ultimately show ?thesis
    using mihomo_rules_implement_profile [OF read_rule_documented, of "doc_matcher sample_mflow" sample_mflow mihomo_sample
      "''vpn''" "\<lambda>_. False" True] by simp
qed

section \<open>Geo files are checked before mihomo sees them\<close>

lemma entry_line_built:
  assumes "tier \<in> set (Tiers p)" and "e \<in> set (tier_Entries tier)"
  shows "ruleCondition e (outcomes target (ETarget e)) \<in> set (buildRules p target forceProxy)"
proof -
  obtain s where s: "s \<in> set (tier_Steps tier)" "Also s = []" "STarget s = ETarget e" "e \<in> set (Entries s)"
    using tier_Steps_covers [OF assms(2)] by blast
  hence "ruleCondition e (outcomes target (ETarget e)) \<in> set (stepLines s (outcomes target (STarget s)))"
    by (auto simp: stepLines_def ruleCondition_nonempty)
  hence "ruleCondition e (outcomes target (ETarget e)) \<in> set (tier_lines target tier)"
    using s(1) by (auto simp: tier_lines_def)
  thus ?thesis using assms(1) unfolding buildRules_def set_append set_concat set_map by blast
qed

lemma geo_line_prefix:
  "Kind e = KindGeoSite \<Longrightarrow> HasPrefix (ruleCondition e t) ''GEOSITE,''"
  "Kind e = KindGeoIP \<Longrightarrow> HasPrefix (ruleCondition e t) ''GEOIP,''"
  by (simp_all add: ruleCondition_def withTarget_def HasPrefix_iff)

text \<open>
  No geo list is left to mihomo's own bootstrap, which would delete an unusable file: when the check passes, a
  profile with a geosite entry in any tier has a usable geosite file and one with a geoip entry a usable geoip file, also
  when the entry is paired into an AND line that the check does not look into.
\<close>

theorem geo_files_checked:
  assumes "checkGeoAssets geo (pools @ buildRules p target forceProxy @ sub) fakeIPFilter = None"
    and "tier \<in> set (Tiers p)" and "e \<in> set (tier_Entries tier)"
  shows "(Kind e = KindGeoSite \<longrightarrow> geo ''geosite.dat'') \<and> (Kind e = KindGeoIP \<longrightarrow> geo ''geoip.dat'')"
proof -
  note line = entry_line_built [OF assms(2,3), of target forceProxy]
  have "list_ex (\<lambda>r. HasPrefix r ''GEOSITE,'') (buildRules p target forceProxy)" if "Kind e = KindGeoSite"
    using line geo_line_prefix(1) [OF that] by (auto simp: list_ex_iff)
  moreover have "list_ex (\<lambda>r. HasPrefix r ''GEOIP,'') (buildRules p target forceProxy)" if "Kind e = KindGeoIP"
    using line geo_line_prefix(2) [OF that] by (auto simp: list_ex_iff)
  ultimately show ?thesis
    using assms(1) by (auto simp: checkGeoAssets_def requireGeoFile_def Let_def split: if_splits option.splits)
qed

theorem geo_files_checked_witness:
  "Kind (last (tier_Entries (hd (Tiers mihomo_sample)))) = KindGeoSite \<and>
   (\<lambda>f. f = ''geosite.dat'') ''geosite.dat''"
proof -
  have "checkGeoAssets (\<lambda>f. f = ''geosite.dat'') ([] @ buildRules mihomo_sample ''vpn'' True @ []) [] = None"
    by code_simp
  moreover have "hd (Tiers mihomo_sample) \<in> set (Tiers mihomo_sample)" by code_simp
  moreover have "last (tier_Entries (hd (Tiers mihomo_sample))) \<in> set (tier_Entries (hd (Tiers mihomo_sample)))"
    by code_simp
  moreover have "Kind (last (tier_Entries (hd (Tiers mihomo_sample)))) = KindGeoSite" by code_simp
  ultimately show ?thesis using geo_files_checked by blast
qed

end
