(* ===== verification/Mihomo_Proxy.thy ===== *)
theory Mihomo_Proxy
  imports Share_Links
begin

text \<open>
  mihomo outbounds from share links: the link readers of \<^verbatim>\<open>src/internal/mihomoconfig/mihomoconfig.go\<close> and its
  \<^verbatim>\<open>linkparams.go\<close>, \<^verbatim>\<open>tuic.go\<close>, \<^verbatim>\<open>anytls.go\<close> and \<^verbatim>\<open>vmess.go\<close>.

  A \<^verbatim>\<open>map[string]any\<close> is an association list that holds each key once; \<open>put\<close> writes one.
\<close>

section \<open>Option maps\<close>

datatype val = VS string | VI int | VB bool | VL "string list" | VO "(string \<times> val) list" | VA "val list"

type_synonym obj = "(string \<times> val) list"

definition put :: "string \<Rightarrow> val \<Rightarrow> obj \<Rightarrow> obj" where
  "put k v p = AList.update k v p"

definition put_text :: "string \<Rightarrow> string \<Rightarrow> obj \<Rightarrow> obj" where
  "put_text k v p = (if v \<noteq> [] then put k (VS v) p else p)"

lemma map_of_put [simp]: "map_of (put k v p) k' = (if k' = k then Some v else map_of p k')"
  by (simp add: put_def update_conv)

lemma map_of_put_text [simp]:
  "map_of (put_text k v p) k' = (if k' = k \<and> v \<noteq> [] then Some (VS v) else map_of p k')"
  by (simp add: put_text_def)

section \<open>Shared parameters\<close>

definition splitCSV :: "string \<Rightarrow> string list" where
  "splitCSV s = filter (\<lambda>v. v \<noteq> []) (map TrimSpace (Split s CHR '',''))"

definition put_list :: "string \<Rightarrow> string list \<Rightarrow> obj \<Rightarrow> obj" where
  "put_list k vs p = (if vs \<noteq> [] then put k (VL vs) p else p)"

lemma map_of_put_list [simp]:
  "map_of (put_list k vs p) k' = (if k' = k \<and> vs \<noteq> [] then Some (VL vs) else map_of p k')"
  by (simp add: put_list_def)

definition put_if :: "bool \<Rightarrow> string \<Rightarrow> val \<Rightarrow> obj \<Rightarrow> obj" where
  "put_if c k v p = (if c then put k v p else p)"

lemma map_of_put_if [simp]: "map_of (put_if c k v p) k' = (if k' = k \<and> c then Some v else map_of p k')"
  by (simp add: put_if_def)

definition parseShareLink :: "url_parser \<Rightarrow> string \<Rightarrow> link_error + URL" where
  "parseShareLink parse link =
     and_then (sharelink_ParseURL parse link) (\<lambda>u. and_then (require (u_Hostname u \<noteq> []) MissingHost) (\<lambda>_. Inr u))"

definition portOrDefault :: "URL \<Rightarrow> link_error + int" where
  "portOrDefault u =
     (if u_Port u = [] then Inr 443
      else (case Atoi (u_Port u) of
              None \<Rightarrow> Inl (BadPort (u_Port u))
            | Some n \<Rightarrow> if n \<le> 0 \<or> 65535 < n then Inl (BadPort (u_Port u)) else Inr n))"

definition echOptions :: "string \<Rightarrow> link_error + obj option" where
  "echOptions v0 =
     (let v = TrimSpace v0; s = ToLower v
      in if s \<in> set [[], ''0'', ''false''] then Inr None
         else if s \<in> set [''1'', ''true''] then Inr (Some [(''enable'', VB True)])
         else if b64_DecodeString std_alphabet True v = None then Inl BadEch
         else Inr (Some [(''enable'', VB True), (''config'', VS v)]))"

definition applyCertChecks :: "url_values \<Rightarrow> obj \<Rightarrow> link_error + obj" where
  "applyCertChecks q p0 =
     (let p = (if SkipsVerification q then put ''skip-cert-verify'' (VB True) p0 else p0);
          pin = TrimSpace (if q ''pcs'' = [] then q ''hpkp'' else q ''pcs'');
          name = TrimSpace (q ''vcn'')
      in and_then (require (\<not> Contains pin '','') TooManyPins) (\<lambda>_.
         and_then (require (\<not> Contains name '','') TooManyNames) (\<lambda>_.
         and_then (echOptions (q ''ech'')) (\<lambda>ech.
           let p = put_text ''name-cert-verify'' name (put_text ''fingerprint'' pin p)
           in Inr (case ech of None \<Rightarrow> p | Some o' \<Rightarrow> put ''ech-opts'' (VO o') p)))))"

definition requireTLSSecurity :: "url_values \<Rightarrow> link_error + unit" where
  "requireTLSSecurity q =
     (let s = ToLower (TrimSpace (q ''security'')) in require (s = [] \<or> s = ''tls'') (Unsupported ''security'' s))"

definition applyRealityOpts :: "url_values \<Rightarrow> obj \<Rightarrow> obj" where
  "applyRealityOpts q p =
     put ''reality-opts'' (VO (put_text ''short-id'' (q ''sid'') (put_text ''public-key'' (q ''pbk'') []))) p"

definition applyTLS :: "url_values \<Rightarrow> obj \<Rightarrow> obj" where
  "applyTLS q p =
     (let p = put_text ''client-fingerprint'' (q ''fp'') (put_text ''servername'' (q ''sni'') (put ''tls'' (VB True) p))
      in if q ''alpn'' \<noteq> [] then put ''alpn'' (VL (Split (q ''alpn'') CHR '','')) p else p)"

section \<open>VLESS and Trojan\<close>

definition ws_opts :: "url_values \<Rightarrow> obj" where
  "ws_opts q =
     (let ws = put_text ''path'' (q ''path'') []
      in if q ''host'' \<noteq> [] then put ''headers'' (VO [(''Host'', VS (q ''host''))]) ws else ws)"

definition vless_transport :: "string \<Rightarrow> url_values \<Rightarrow> obj \<Rightarrow> obj" where
  "vless_transport network q p =
     (if network = ''ws'' then put ''ws-opts'' (VO (ws_opts q)) p
      else if network = ''httpupgrade'' then
        put ''ws-opts'' (VO (put ''v2ray-http-upgrade'' (VB True) (ws_opts q))) (put ''network'' (VS ''ws'') p)
      else if network = ''grpc'' then
        (if q ''serviceName'' \<noteq> [] then put ''grpc-opts'' (VO [(''grpc-service-name'', VS (q ''serviceName''))]) p else p)
      else if network = ''xhttp'' then
        put ''xhttp-opts''
          (VO (put_text ''mode'' (q ''mode'') (put_text ''host'' (q ''host'') (put_text ''path'' (q ''path'') [])))) p
      else p)"

definition vless_security :: "string \<Rightarrow> url_values \<Rightarrow> obj \<Rightarrow> link_error + obj" where
  "vless_security network q p =
     (let security = ToLower (TrimSpace (q ''security''))
      in if security = ''tls'' then applyCertChecks q (applyTLS q p)
         else if security = ''reality'' then
           (if network \<in> set [''tcp'', ''raw'', ''grpc'', ''xhttp'', ''h2'', ''http'']
            then Inr (applyRealityOpts q (applyTLS q p)) else Inl (Unsupported ''reality'' network))
         else if security = [] \<or> security = ''none'' then Inr p
         else Inl (Unsupported ''security'' security))"

definition url_port :: "URL \<Rightarrow> link_error + int" where
  "url_port u = (case Atoi (u_Port u) of None \<Rightarrow> Inl (BadPort (u_Port u)) | Some n \<Rightarrow> Inr n)"

definition vless_base :: "URL \<Rightarrow> int \<Rightarrow> string \<Rightarrow> string \<Rightarrow> string \<Rightarrow> obj" where
  "vless_base u port network enc name =
     (let p = put_text ''flow'' (u_Query u ''flow'')
            [(''name'', VS name), (''type'', VS ''vless''), (''server'', VS (u_Hostname u)), (''port'', VI port),
             (''uuid'', VS (Username u)), (''udp'', VB True), (''network'', VS network)]
      in if enc \<noteq> NoEncryption then put ''encryption'' (VS enc) p else p)"

definition vlessProxy :: "url_parser \<Rightarrow> (string \<Rightarrow> bool) \<Rightarrow> string \<Rightarrow> string \<Rightarrow> link_error + obj" where
  "vlessProxy parse valid link name =
     and_then (sharelink_ParseURL parse link) (\<lambda>u.
     and_then (url_port u) (\<lambda>port.
       let q = u_Query u;
           network = (let n = ToLower (TrimSpace (q ''type'')) in if n = [] then ''tcp'' else n)
       in (case Normalize_encryption valid (q ''encryption'') of
             None \<Rightarrow> Inl BadEncryption
           | Some enc \<Rightarrow>
               and_then (vless_security network q (vless_base u port network enc name))
                 (\<lambda>p. Inr (vless_transport network q p)))))"

definition applyTrojanReality :: "url_values \<Rightarrow> obj \<Rightarrow> link_error + obj" where
  "applyTrojanReality q p =
     (if ToLower (TrimSpace (q ''security'')) \<noteq> ''reality'' then Inr p
      else if q ''pbk'' = [] then Inl MissingKey
      else if ToLower (TrimSpace (q ''type'')) \<notin> set [''tcp'', ''raw'', [], ''grpc'']
      then Inl (Unsupported ''reality'' (ToLower (TrimSpace (q ''type''))))
      else if q ''spx'' \<noteq> [] then Inl (Unsupported ''reality'' ''spx'')
      else Inr (applyRealityOpts q p))"

definition applyTrojanTransport :: "url_values \<Rightarrow> obj \<Rightarrow> link_error + obj" where
  "applyTrojanTransport q p =
     (let network = ToLower (TrimSpace (q ''type''))
      in if network \<in> set [''tcp'', ''raw'', []] then
           (let header = ToLower (TrimSpace (q ''headerType''))
            in if header \<noteq> [] \<and> header \<noteq> ''none'' then Inl (Unsupported ''header'' header) else Inr p)
         else if network \<in> set [''ws'', ''websocket'', ''httpupgrade''] then
           Inr (put ''ws-opts'' (VO (if network = ''httpupgrade'' then put ''v2ray-http-upgrade'' (VB True) (ws_opts q)
             else ws_opts q)) (put ''network'' (VS ''ws'') p))
         else if network = ''grpc'' then
           Inr (put ''grpc-opts'' (VO [(''grpc-service-name'', VS (q ''serviceName''))]) (put ''network'' (VS ''grpc'') p))
         else Inl (Unsupported ''transport'' network))"

definition trojan_base :: "URL \<Rightarrow> int \<Rightarrow> string \<Rightarrow> obj" where
  "trojan_base u port name =
     (let q = u_Query u;
          p = put_text ''client-fingerprint'' (q ''fp'') (put_text ''sni'' (q ''sni'')
            [(''name'', VS name), (''type'', VS ''trojan''), (''server'', VS (u_Hostname u)), (''port'', VI port),
             (''password'', VS (Username u)), (''udp'', VB True)])
      in if q ''alpn'' \<noteq> [] then put ''alpn'' (VL (Split (q ''alpn'') CHR '','')) p else p)"

definition trojanProxy :: "url_parser \<Rightarrow> string \<Rightarrow> string \<Rightarrow> link_error + obj" where
  "trojanProxy parse link name =
     and_then (sharelink_ParseURL parse link) (\<lambda>u.
     and_then (url_port u) (\<lambda>port.
     and_then (applyCertChecks (u_Query u) (trojan_base u port name)) (\<lambda>p.
     and_then (applyTrojanReality (u_Query u) p) (applyTrojanTransport (u_Query u)))))"

section \<open>TUIC and AnyTLS\<close>

definition tuicCongestionControls :: "string list" where
  "tuicCongestionControls = [''cubic'', ''new_reno'', ''bbr'', ''bbr_meta_v1'', ''bbr_meta_v2'']"

definition tuic_base :: "URL \<Rightarrow> int \<Rightarrow> string \<Rightarrow> obj" where
  "tuic_base u port name =
     (let q = u_Query u;
          p = [(''name'', VS name), (''type'', VS ''tuic''), (''server'', VS (u_Hostname u)), (''port'', VI port),
               (''udp'', VB True)];
          p = (case Password u of
                 Some password \<Rightarrow> put ''password'' (VS password) (put ''uuid'' (VS (Username u)) p)
               | None \<Rightarrow> put ''token'' (VS (Username u)) p);
          p = put_text ''sni'' (q ''sni'') p;
          p = (if flagSet (q ''disable_sni'') then put ''disable-sni'' (VB True) p else p)
      in put_list ''alpn'' (splitCSV (q ''alpn'')) p)"

definition tuicProxy :: "url_parser \<Rightarrow> string \<Rightarrow> string \<Rightarrow> link_error + obj" where
  "tuicProxy parse link name =
     and_then (parseShareLink parse link) (\<lambda>u.
     and_then (portOrDefault u) (\<lambda>port.
     and_then (require (Username u \<noteq> []) MissingUser) (\<lambda>_.
     and_then (requireTLSSecurity (u_Query u)) (\<lambda>_.
       let q = u_Query u;
           cc = ToLower (TrimSpace (q ''congestion_control''));
           mode = ToLower (TrimSpace (q ''udp_relay_mode''))
       in and_then (require (cc = [] \<or> cc \<in> set tuicCongestionControls) (Unsupported ''congestion'' cc)) (\<lambda>_.
          and_then (require (mode = [] \<or> mode = ''native'' \<or> mode = ''quic'') (Unsupported ''relay'' mode)) (\<lambda>_.
            applyCertChecks q (put_text ''udp-relay-mode'' mode (put_text ''congestion-controller'' cc
              (tuic_base u port name)))))))))"

definition anytls_base :: "URL \<Rightarrow> int \<Rightarrow> string \<Rightarrow> string \<Rightarrow> obj" where
  "anytls_base u port password name =
     (let q = u_Query u
      in put_list ''alpn'' (splitCSV (q ''alpn'')) (put_text ''client-fingerprint'' (q ''fp'')
           (put_text ''sni'' (if q ''sni'' = [] then q ''peer'' else q ''sni'')
             [(''name'', VS name), (''type'', VS ''anytls''), (''server'', VS (u_Hostname u)), (''port'', VI port),
              (''password'', VS password), (''udp'', VB True)])))"

definition anytlsProxy :: "url_parser \<Rightarrow> string \<Rightarrow> string \<Rightarrow> link_error + obj" where
  "anytlsProxy parse link name =
     and_then (parseShareLink parse link) (\<lambda>u.
     and_then (portOrDefault u) (\<lambda>port.
       let q = u_Query u;
           network = ToLower (TrimSpace (q ''type''));
           password = Username u @ (case Password u of Some rest \<Rightarrow> '':'' @ rest | None \<Rightarrow> [])
       in and_then (require (password \<noteq> []) MissingUser) (\<lambda>_.
          and_then (requireTLSSecurity q) (\<lambda>_.
          and_then (require (network \<in> set [[], ''tcp'', ''raw'']) (Unsupported ''transport'' network)) (\<lambda>_.
            applyCertChecks q (anytls_base u port password name))))))"

section \<open>Hysteria2\<close>

definition hy2SplitHostPort :: "string \<Rightarrow> string \<times> string" where
  "hy2SplitHostPort hostport =
     (if hostport = [] then ([], [])
      else if HasPrefix hostport ''['' then
        (case Index hostport '']:'' of
           Some i \<Rightarrow> (take (i + 1) hostport, drop (i + 2) hostport) | None \<Rightarrow> (hostport, []))
      else (case LastIndexByte hostport CHR '':'' of
              Some i \<Rightarrow> (take i hostport, drop (i + 1) hostport) | None \<Rightarrow> (hostport, [])))"

definition first_port :: "string \<Rightarrow> string" where
  "first_port portSpec = takeWhile (\<lambda>c. c \<noteq> CHR '','' \<and> c \<noteq> CHR ''-'') portSpec"

definition normalizeHy2Link :: "string \<Rightarrow> link_error + (string \<times> string)" where
  "normalizeHy2Link link = (case Index link ''://'' of
     None \<Rightarrow> Inl MalformedLink
   | Some schemeIdx \<Rightarrow>
       (let prefix = take (schemeIdx + 3) link;
            rest = drop (schemeIdx + 3) link;
            authority = takeWhile (\<lambda>c. c \<notin> set ''?#/'') rest;
            suffix = dropWhile (\<lambda>c. c \<notin> set ''?#/'') rest;
            (userinfo, hostport) = (case LastIndexByte authority CHR ''@'' of
               Some i \<Rightarrow> (take i authority, drop (i + 1) authority) | None \<Rightarrow> ([], authority));
            (host, portSpec) = hy2SplitHostPort hostport;
            firstPort = (if first_port portSpec \<noteq> [] then first_port portSpec else ''443'')
        in if host = [] then Inl MissingHost
           else Inr (prefix @ (if userinfo \<noteq> [] then userinfo @ ''@'' else []) @
             (if Contains host '':'' \<and> \<not> HasPrefix host ''['' then ''['' @ host @ '']'' else host) @ '':'' @ firstPort @ suffix,
             portSpec)))"

definition hy2Ports :: "string \<Rightarrow> link_error + (int \<times> string)" where
  "hy2Ports portSpec0 =
     (let portSpec = TrimSpace portSpec0
      in if portSpec = [] then Inr (443, [])
         else (case Atoi portSpec of
                 Some n \<Rightarrow> if n \<le> 0 \<or> 65535 < n then Inl (BadPort portSpec) else Inr (n, [])
               | None \<Rightarrow> (case Atoi (first_port portSpec) of
                   None \<Rightarrow> Inl (BadPort portSpec)
                 | Some n \<Rightarrow> if n \<le> 0 \<or> 65535 < n then Inl (BadPort portSpec) else Inr (n, portSpec))))"

definition put_int :: "string \<Rightarrow> string \<Rightarrow> obj \<Rightarrow> obj" where
  "put_int k v p = (if v = [] then p else case Atoi v of None \<Rightarrow> p | Some n \<Rightarrow> put k (VI n) p)"

lemma map_of_put_int: "k' \<noteq> k \<Longrightarrow> map_of (put_int k v p) k' = map_of p k'"
  by (simp add: put_int_def split: option.split)

definition hy2_outbound :: "URL \<Rightarrow> int \<Rightarrow> string \<Rightarrow> string \<Rightarrow> obj" where
  "hy2_outbound u port ports name =
     (let q = u_Query u;
          password = Username u @ (case Password u of Some pass \<Rightarrow> '':'' @ pass | None \<Rightarrow> []);
          p = [(''name'', VS name), (''type'', VS ''hysteria2''), (''server'', VS (u_Hostname u)),
               (''password'', VS password)];
          p = put ''port'' (VI port) (put_text ''ports'' ports p);
          p = put_text ''obfs'' (q ''obfs'') (put_text ''sni'' (q ''sni'') p);
          p = put_if (q ''obfs'' \<noteq> [] \<and> q ''obfs-password'' \<noteq> []) ''obfs-password'' (VS (q ''obfs-password'')) p;
          p = put_int ''obfs-max-packet-size'' (q ''obfs-max-packet-size'')
                (put_int ''obfs-min-packet-size'' (q ''obfs-min-packet-size'') p);
          p = put_if (ToLower (q ''insecure'') \<in> set [''1'', ''true'']) ''skip-cert-verify'' (VB True) p;
          p = put_list ''alpn'' (splitCSV (q ''alpn'')) (put_text ''fingerprint'' (q ''pinSHA256'') p)
      in put_text ''hop-interval'' (TrimSpace (q ''hop-interval''))
           (put_text ''down'' (TrimSpace (q ''down'')) (put_text ''up'' (TrimSpace (q ''up'')) p)))"

definition hysteria2Proxy :: "url_parser \<Rightarrow> string \<Rightarrow> string \<Rightarrow> link_error + obj" where
  "hysteria2Proxy parse link name =
     and_then (normalizeHy2Link link) (\<lambda>(normalized, portSpec).
     and_then (sharelink_ParseURL parse normalized) (\<lambda>u.
     and_then (require (u_Hostname u \<noteq> []) MissingHost) (\<lambda>_.
     and_then (hy2Ports portSpec) (\<lambda>(port, ports). Inr (hy2_outbound u port ports name)))))"

section \<open>VMess\<close>

definition vmessCiphers :: "string list" where
  "vmessCiphers = [''auto'', ''aes-128-gcm'', ''chacha20-poly1305'', ''none'', ''zero'', ''aes-128-cfb'']"

definition orSlash :: "string \<Rightarrow> string" where
  "orSlash path = (if path = [] then ''/'' else path)"

text \<open>
  \<^verbatim>\<open>early\<close> stands for \<^verbatim>\<open>net/url\<close> on a path: its \<^verbatim>\<open>ed\<close> parameter and the path written back without it, None where it does
  not parse.
\<close>

definition splitEarlyData :: "(string \<Rightarrow> (string \<times> string) option) \<Rightarrow> string \<Rightarrow> link_error + (string \<times> int)" where
  "splitEarlyData early path = (case early path of
     None \<Rightarrow> Inr (path, 0)
   | Some (ed, stripped) \<Rightarrow>
       if ed = [] then Inr (path, 0)
       else (case Atoi ed of None \<Rightarrow> Inl BadLink | Some n \<Rightarrow> if n < 0 then Inl BadLink else Inr (stripped, n)))"

definition vmess_ws_opts ::
    "(string \<Rightarrow> (string \<times> string) option) \<Rightarrow> string \<Rightarrow> url_values \<Rightarrow> link_error + obj" where
  "vmess_ws_opts early network q =
     (let opts = (if q ''host'' \<noteq> [] then [(''headers'', VO [(''Host'', VS (q ''host''))])] else []);
          opts = (if network = ''httpupgrade'' then put ''v2ray-http-upgrade'' (VB True) opts else opts)
      in and_then (splitEarlyData early (orSlash (q ''path''))) (\<lambda>(path, earlyData).
           let opts = put ''path'' (VS path) opts;
               opts = (if 0 < earlyData
                       then (if network = ''httpupgrade'' then put ''v2ray-http-upgrade-fast-open'' (VB True) opts
                             else put ''early-data-header-name'' (VS ''Sec-WebSocket-Protocol'')
                               (put ''max-early-data'' (VI earlyData) opts))
                       else opts)
           in Inr (if network = ''ws'' then put_text ''early-data-header-name'' (q ''eh'') opts else opts)))"

definition applyVmessTransport ::
    "(string \<Rightarrow> (string \<times> string) option) \<Rightarrow> url_values \<Rightarrow> obj \<Rightarrow> link_error + obj" where
  "applyVmessTransport early q p =
     (let network = q ''type''; host = q ''host''; path = q ''path''
      in if network = ''tcp'' then
           (if q ''headerType'' \<in> set [[], ''none''] then Inr (put ''network'' (VS ''tcp'') p)
            else if q ''headerType'' = ''http'' then
              Inr (put ''http-opts'' (VO ((if host \<noteq> [] then put ''headers'' (VO [(''Host'', VL (splitCSV host))]) else id)
                [(''path'', VL [orSlash path])])) (put ''network'' (VS ''http'') p))
            else Inl (Unsupported ''header'' (q ''headerType'')))
         else if network = ''h2'' then
           Inr (put ''h2-opts'' (VO ((if host \<noteq> [] then put ''host'' (VL (splitCSV host)) else id)
             [(''path'', VS (orSlash path))])) (put ''network'' (VS ''h2'') p))
         else if network \<in> set [''ws'', ''httpupgrade''] then
           and_then (vmess_ws_opts early network q) (\<lambda>opts. Inr (put ''ws-opts'' (VO opts) (put ''network'' (VS ''ws'') p)))
         else if network = ''grpc'' then
           Inr (put ''grpc-opts'' (VO [(''grpc-service-name'', VS (q ''serviceName''))]) (put ''network'' (VS ''grpc'') p))
         else Inl (Unsupported ''transport'' network))"

definition vmess_security :: "url_values \<Rightarrow> obj \<Rightarrow> link_error + obj" where
  "vmess_security q p =
     (if q ''security'' \<in> set [[], ''none''] then Inr p
      else if q ''security'' = ''tls'' then
        applyCertChecks q (put_list ''alpn'' (splitCSV (q ''alpn'')) (put_text ''client-fingerprint'' (q ''fp'')
          (put_text ''servername'' (q ''sni'') (put ''tls'' (VB True) p))))
      else Inl (Unsupported ''security'' (q ''security'')))"

definition vmess_base :: "vmessLink \<Rightarrow> string \<Rightarrow> obj" where
  "vmess_base l name =
     (let q = vl_Params l;
          p = [(''name'', VS name), (''type'', VS ''vmess''), (''server'', VS (vl_Host l)), (''port'', VI (vl_Port l)),
               (''uuid'', VS (vl_ID l)), (''alterId'', VI (vl_AlterID l)), (''cipher'', VS (ToLower (vl_Cipher l))),
               (''udp'', VB True)]
      in if q ''packetEncoding'' = ''none'' then p
         else if q ''packetEncoding'' \<in> set [''packet'', ''packetaddr''] then put ''packet-addr'' (VB True) p
         else put ''xudp'' (VB True) p)"

definition vmessProxy ::
    "url_parser \<Rightarrow> json_parser \<Rightarrow> (string \<Rightarrow> (string \<times> string) option) \<Rightarrow> string \<Rightarrow> string \<Rightarrow> link_error + obj" where
  "vmessProxy parse json early link name = (case vmess_Parse parse json link of (l, errs) \<Rightarrow>
     if errs \<noteq> [] then Inl (hd errs)
     else if vl_ID l = [] \<or> vl_Host l = [] then Inl MissingUser
     else if ToLower (vl_Cipher l) \<notin> set vmessCiphers then Inl (Unsupported ''cipher'' (vl_Cipher l))
     else and_then (applyVmessTransport early (vl_Params l) (vmess_base l name)) (vmess_security (vl_Params l)))"

section \<open>AmneziaWG\<close>

text \<open>\<^verbatim>\<open>parseINI\<close>: what a read of a section's key gives, the empty string where either is missing.\<close>

type_synonym ini_values = "string \<Rightarrow> string \<Rightarrow> string"

fun parse_ini_lines :: "string \<Rightarrow> string list \<Rightarrow> ini_values \<Rightarrow> ini_values" where
  "parse_ini_lines sec [] out = out"
| "parse_ini_lines sec (raw # raws) out =
     (let line = TrimSpace raw
      in if line = [] \<or> HasPrefix line ''#'' \<or> HasPrefix line '';'' then parse_ini_lines sec raws out
         else (case section_name line of
                 Some name \<Rightarrow> parse_ini_lines name raws out
               | None \<Rightarrow> (case IndexByte line CHR ''='' of
                   None \<Rightarrow> parse_ini_lines sec raws out
                 | Some eq \<Rightarrow>
                     if sec = [] then parse_ini_lines sec raws out
                     else parse_ini_lines sec raws
                       (out(sec := (out sec)(ToLower (TrimSpace (take eq line)) := TrimSpace (drop (eq + 1) line)))))))"

definition parseINI :: "string \<Rightarrow> ini_values" where
  "parseINI ini = parse_ini_lines [] (Split ini (CHR 0x0A)) (\<lambda>_ _. [])"

fun wg_addresses :: "string list \<Rightarrow> string \<times> string \<Rightarrow> string \<times> string" where
  "wg_addresses [] acc = acc"
| "wg_addresses (a # as) (v4, v6) =
     (let ipStr = (case IndexByte a CHR ''/'' of Some slash \<Rightarrow> take slash a | None \<Rightarrow> a)
      in wg_addresses as (case ParseIP (TrimSpace ipStr) of
           None \<Rightarrow> (v4, v6)
         | Some ip \<Rightarrow> if is_v4 ip then (if v4 = [] then ipStr else v4, v6) else (v4, if v6 = [] then ipStr else v6)))"

definition splitWGAddresses :: "string \<Rightarrow> string \<times> string" where
  "splitWGAddresses addr = wg_addresses (splitCSV addr) ([], [])"

datatype awg_error =
    BadAwgLink | BadEndpoint | BadEndpointPort | MissingKeys | NotWhole string | BadAwg3 string value_error | Awg15With3 string

definition awgInt :: "(string \<Rightarrow> string) \<Rightarrow> string \<Rightarrow> awg_error + int option" where
  "awgInt iface key =
     (if iface key = [] then Inr None
      else (case Atoi (iface key) of None \<Rightarrow> Inl (NotWhole key) | Some n \<Rightarrow> Inr (Some n)))"

fun int_options :: "(string \<Rightarrow> string) \<Rightarrow> string list \<Rightarrow> obj \<Rightarrow> awg_error + obj" where
  "int_options iface [] opt = Inr opt"
| "int_options iface (k # ks) opt =
     and_then (awgInt iface k) (\<lambda>n. int_options iface ks (case n of None \<Rightarrow> opt | Some i \<Rightarrow> put k (VI i) opt))"

definition text_options :: "(string \<Rightarrow> string) \<Rightarrow> string list \<Rightarrow> obj \<Rightarrow> obj" where
  "text_options iface ks opt = fold (\<lambda>k. put_text k (iface k)) ks opt"

definition awg3_value :: "string \<Rightarrow> string \<Rightarrow> val" where
  "awg3_value k v =
     (if k = ''headerprotectionkey''
      then VS (case KeyBytes v of Inr key \<Rightarrow> b64_pad (b64_encode std_alphabet key) | Inl _ \<Rightarrow> [])
      else if k \<in> set [''randomtrailers'', ''disablecookies''] then VB (ParseBool v = Some True)
      else VS v)"

text \<open>
  The loop over \<^verbatim>\<open>AWG3Keys\<close>, and whether any was set. Go visits the map in any order: the result is the same, and of
  several bad values any one is reported.
\<close>

fun awg3_options :: "(string \<Rightarrow> string) \<Rightarrow> (string \<times> string) list \<Rightarrow> obj \<Rightarrow> bool \<Rightarrow> awg_error + (obj \<times> bool)" where
  "awg3_options iface [] opt awg3 = Inr (opt, awg3)"
| "awg3_options iface ((k, uapiName) # ks) opt awg3 =
     (if iface k = [] then awg3_options iface ks opt awg3
      else (let name = ReplaceByte uapiName CHR ''_'' ''-''
            in case AWG3Value k (iface k) of
                 Inl e \<Rightarrow> Inl (BadAwg3 name e)
               | Inr _ \<Rightarrow> awg3_options iface ks (put name (awg3_value k (iface k)) opt) True))"

definition amneziaOption :: "(string \<Rightarrow> string) \<Rightarrow> awg_error + obj" where
  "amneziaOption iface =
     and_then (int_options iface [''jc'', ''jmin'', ''jmax'', ''s1'', ''s2'', ''s3'', ''s4''] []) (\<lambda>opt.
     and_then (awg3_options iface AWG3Keys
        (text_options iface [''h1'', ''h2'', ''h3'', ''h4'', ''i1'', ''i2'', ''i3'', ''i4'', ''i5''] opt) False) (\<lambda>(opt, awg3).
       if awg3 then
         (case find (\<lambda>k. iface k \<noteq> []) AWG15Keys of
            Some k \<Rightarrow> Inl (Awg15With3 k)
          | None \<Rightarrow> Inr (put ''version'' (VI 3) opt))
       else int_options iface [''itime''] (text_options iface [''j1'', ''j2'', ''j3''] opt)))"

definition put_positive :: "string \<Rightarrow> string \<Rightarrow> obj \<Rightarrow> obj" where
  "put_positive k v p = (case Atoi v of Some n \<Rightarrow> if 0 < n then put k (VI n) p else p | None \<Rightarrow> p)"

lemma map_of_put_positive: "k' \<noteq> k \<Longrightarrow> map_of (put_positive k v p) k' = map_of p k'"
  by (simp add: put_positive_def split: option.split)

definition wg_base :: "(string \<Rightarrow> string) \<Rightarrow> (string \<Rightarrow> string) \<Rightarrow> string \<Rightarrow> int \<Rightarrow> string \<Rightarrow> obj" where
  "wg_base iface pr host port name =
     (let p = [(''name'', VS name), (''type'', VS ''wireguard''), (''server'', VS host), (''port'', VI port),
               (''private-key'', VS (iface ''privatekey'')), (''public-key'', VS (pr ''publickey'')),
               (''udp'', VB True), (''ip-stack'', VO [(''mode'', VS ''gvisor'')])];
          v = splitWGAddresses (iface ''address'');
          p = put_text ''pre-shared-key'' (pr ''presharedkey'') (put_text ''ipv6'' (snd v) (put_text ''ip'' (fst v) p));
          allowed = splitCSV (pr ''allowedips'');
          p = put ''allowed-ips'' (VL (if allowed \<noteq> [] then allowed else [''0.0.0.0/0'', ''::/0''])) p;
          p = put_positive ''mtu'' (iface ''mtu'') p
      in put_positive ''persistent-keepalive'' (TrimSpace (fst (Cut (pr ''persistentkeepalive'') CHR ''-''))) p)"

definition wireguard_proxy :: "string \<Rightarrow> string \<Rightarrow> awg_error + obj" where
  "wireguard_proxy link name = (case NormalizeToINI link of
     None \<Rightarrow> Inl BadAwgLink
   | Some ini \<Rightarrow>
       (let iface = parseINI ini ''interface''; pr = parseINI ini ''peer''
        in case SplitHostPort (pr ''endpoint'') of
             None \<Rightarrow> Inl BadEndpoint
           | Some (host, portStr) \<Rightarrow> (case Atoi portStr of
               None \<Rightarrow> Inl BadEndpointPort
             | Some port \<Rightarrow>
                 if iface ''privatekey'' = [] \<or> pr ''publickey'' = [] then Inl MissingKeys
                 else and_then (amneziaOption iface) (\<lambda>opt.
                   let p = wg_base iface pr host port name
                   in Inr (if opt \<noteq> [] then put ''amnezia-wg-option'' (VO opt) p else p)))))"

definition wireguardProxy :: "string \<Rightarrow> string \<Rightarrow> link_error + obj" where
  "wireguardProxy link name = (case wireguard_proxy link name of Inl _ \<Rightarrow> Inl BadLink | Inr p \<Rightarrow> Inr p)"

section \<open>Shadowsocks\<close>

definition decodeBase64 :: "string \<Rightarrow> string option" where
  "decodeBase64 s = decode_first [(url_alphabet, False), (std_alphabet, True), (std_alphabet, False), (url_alphabet, True)] s"

definition cut_at :: "char \<Rightarrow> string \<Rightarrow> string" where
  "cut_at c s = (case IndexByte s c of Some i \<Rightarrow> take i s | None \<Rightarrow> s)"

definition decoded_or :: "string \<Rightarrow> string" where
  "decoded_or s = (case decodeBase64 s of Some d \<Rightarrow> d | None \<Rightarrow> s)"

definition ssProxy :: "string \<Rightarrow> string \<Rightarrow> link_error + obj" where
  "ssProxy link name =
     (let body = cut_at CHR ''?'' (cut_at CHR ''#'' (TrimPrefix link ''ss://''));
          body = (if \<not> Contains body ''@'' then decoded_or body else body)
      in case LastIndexByte body CHR ''@'' of
           None \<Rightarrow> Inl BadLink
         | Some at \<Rightarrow>
             (let userInfo = take at body;
                  userInfo = (if \<not> Contains userInfo '':'' then decoded_or userInfo else userInfo)
              in case IndexByte userInfo CHR '':'' of
                   None \<Rightarrow> Inl BadLink
                 | Some colon \<Rightarrow>
                     (case SplitHostPort (drop (at + 1) body) of
                        None \<Rightarrow> Inl BadLink
                      | Some (host, portStr) \<Rightarrow>
                          (case Atoi portStr of
                             None \<Rightarrow> Inl (BadPort portStr)
                           | Some port \<Rightarrow>
                               Inr [(''name'', VS name), (''type'', VS ''ss''), (''server'', VS host), (''port'', VI port),
                                    (''cipher'', VS (take colon userInfo)), (''password'', VS (drop (colon + 1) userInfo)),
                                    (''udp'', VB True)]))))"

section \<open>Any link\<close>

definition MihomoFingerprints :: "string list" where
  "MihomoFingerprints =
     [''chrome'', ''firefox'', ''safari'', ''ios'', ''android'', ''edge'', ''360'', ''qq'', ''random'', ''randomized'',
      ''chrome120'', ''firefox120'', ''safari16'']"

definition ValidFingerprint :: "string \<Rightarrow> bool" where
  "ValidFingerprint fp \<longleftrightarrow> fp \<in> set MihomoFingerprints"

definition applyProxyFingerprint :: "string \<Rightarrow> obj \<Rightarrow> obj" where
  "applyProxyFingerprint fp0 proxy =
     (let fp = TrimSpace fp0
      in if fp = [] \<or> \<not> ValidFingerprint fp then proxy
         else if map_of proxy ''type'' \<in> Some ` VS ` set [''vless'', ''vmess'', ''trojan'', ''anytls'']
         then put ''client-fingerprint'' (VS fp) proxy else proxy)"

text \<open>The libraries a link reader calls.\<close>

record link_env =
  e_url :: url_parser
  e_json :: json_parser
  e_early :: "string \<Rightarrow> (string \<times> string) option"
  e_key :: "string \<Rightarrow> bool"

text \<open>The switch of \<^verbatim>\<open>proxyFromLink\<close>: the protocol a link's scheme names, empty for none.\<close>

definition link_type :: "string \<Rightarrow> string" where
  "link_type link =
     (let lower = ToLower link
      in if HasPrefix lower ''vless://'' then ''vless''
         else if HasPrefix lower ''ss://'' then ''ss''
         else if HasPrefix lower ''trojan://'' then ''trojan''
         else if HasPrefix lower ''hysteria2://'' \<or> HasPrefix lower ''hy2://'' then ''hysteria2''
         else if HasPrefix lower ''tuic://'' then ''tuic''
         else if HasPrefix lower ''anytls://'' then ''anytls''
         else if IsLink link then ''vmess''
         else if HasPrefix lower LinkScheme \<or> Contains link ''[Interface]'' then ''wireguard''
         else [])"

definition proxyFromLink :: "link_env \<Rightarrow> string \<Rightarrow> string \<Rightarrow> link_error + obj" where
  "proxyFromLink env link name =
     (let t = link_type link
      in if t = ''vless'' then vlessProxy (e_url env) (e_key env) link name
         else if t = ''ss'' then ssProxy link name
         else if t = ''trojan'' then trojanProxy (e_url env) link name
         else if t = ''hysteria2'' then hysteria2Proxy (e_url env) link name
         else if t = ''tuic'' then tuicProxy (e_url env) link name
         else if t = ''anytls'' then anytlsProxy (e_url env) link name
         else if t = ''vmess'' then vmessProxy (e_url env) (e_json env) (e_early env) link name
         else if t = ''wireguard'' then wireguardProxy link name
         else Inl (Unsupported ''scheme'' []))"

definition ProxyMapFromLink :: "link_env \<Rightarrow> string \<Rightarrow> link_error + obj" where
  "ProxyMapFromLink env link = proxyFromLink env (TrimSpace link) ''probe''"

section \<open>What an outbound keeps of its link\<close>

lemma applyCertChecks_frame:
  assumes "applyCertChecks q p = Inr p'"
  shows "k \<notin> set [''skip-cert-verify'', ''fingerprint'', ''name-cert-verify'', ''ech-opts''] \<Longrightarrow> map_of p' k = map_of p k"
    and "map_of p' ''skip-cert-verify'' =
      (if SkipsVerification q then Some (VB True) else map_of p ''skip-cert-verify'')"
  using assms by (auto simp: applyCertChecks_def Let_def split: option.splits)

lemma applyTLS_frame:
  "k \<notin> set [''tls'', ''servername'', ''client-fingerprint'', ''alpn''] \<Longrightarrow> map_of (applyTLS q p) k = map_of p k"
  "map_of (applyTLS q p) ''tls'' = Some (VB True)"
  by (auto simp: applyTLS_def Let_def)

lemma applyRealityOpts_frame:
  "map_of (applyRealityOpts q p) k =
     (if k = ''reality-opts'' then Some (VO (put_text ''short-id'' (q ''sid'') (put_text ''public-key'' (q ''pbk'') [])))
      else map_of p k)"
  by (simp add: applyRealityOpts_def)

text \<open>The keys of an outbound the next property is about.\<close>

definition link_keys :: "string list" where
  "link_keys = [''name'', ''type'', ''server'', ''port'', ''skip-cert-verify'', ''tls'', ''reality-opts'']"

definition same_link :: "obj \<Rightarrow> obj \<Rightarrow> bool" where
  "same_link p p' \<longleftrightarrow> (\<forall>k \<in> set link_keys. map_of p' k = map_of p k)"

lemmas same_link_simps = same_link_def link_keys_def

lemma vless_transport_frame: "same_link p (vless_transport network q p)"
  by (simp add: vless_transport_def same_link_simps)

lemma applyTrojanTransport_frame: "applyTrojanTransport q p = Inr p' \<Longrightarrow> same_link p p'"
  by (auto simp: applyTrojanTransport_def Let_def same_link_simps split: if_splits)

lemma applyVmessTransport_frame: "applyVmessTransport early q p = Inr p' \<Longrightarrow> same_link p p'"
  by (auto simp: applyVmessTransport_def Let_def same_link_simps split: if_splits)

definition waived :: "url_values \<Rightarrow> bool" where
  "waived q \<longleftrightarrow> SkipsVerification q \<or> ToLower (q ''insecure'') \<in> set [''1'', ''true'']"

definition security_of :: "url_values \<Rightarrow> string" where
  "security_of q = ToLower (TrimSpace (q ''security''))"

text \<open>
  REALITY's options hold the link's public key and short id. A Trojan link has a key; without one mihomo dials plain TLS.
\<close>

definition reality_ok :: "string \<Rightarrow> url_values \<Rightarrow> obj \<Rightarrow> bool" where
  "reality_ok t q r \<longleftrightarrow>
     map_of r ''public-key'' = (if q ''pbk'' = [] then None else Some (VS (q ''pbk''))) \<and>
     map_of r ''short-id'' = (if q ''sid'' = [] then None else Some (VS (q ''sid''))) \<and>
     (t = ''trojan'' \<longrightarrow> q ''pbk'' \<noteq> [])"

text \<open>
  An outbound of type \<open>t\<close> that says what its link says: its own name and type, a server and a port; no certificate check
  skipped unless the link asks for it; TLS where the link asks for TLS or REALITY, and REALITY's options where it asks for
  REALITY, which VMess has not. Trojan, TUIC, AnyTLS and Hysteria2 run over TLS by themselves.
\<close>

definition outbound_ok :: "string \<Rightarrow> string \<Rightarrow> url_values \<Rightarrow> obj \<Rightarrow> bool" where
  "outbound_ok name t q p \<longleftrightarrow>
     map_of p ''name'' = Some (VS name) \<and> map_of p ''type'' = Some (VS t) \<and>
     (\<exists>host. map_of p ''server'' = Some (VS host)) \<and> (\<exists>n. map_of p ''port'' = Some (VI n)) \<and>
     (map_of p ''skip-cert-verify'' \<noteq> None \<longrightarrow> waived q) \<and>
     (t \<in> set [''vless'', ''vmess''] \<and> security_of q \<in> set [''tls'', ''reality''] \<longrightarrow> map_of p ''tls'' = Some (VB True)) \<and>
     (t \<in> set [''vless'', ''trojan''] \<and> security_of q = ''reality'' \<longrightarrow> (\<exists>r. map_of p ''reality-opts'' = Some (VO r) \<and> reality_ok t q r)) \<and>
     (t = ''vmess'' \<longrightarrow> security_of q \<noteq> ''reality'')"

lemma outbound_ok_same: "same_link p p' \<Longrightarrow> outbound_ok name t q p \<Longrightarrow> outbound_ok name t q p'"
  by (simp add: outbound_ok_def same_link_simps)

lemma outbound_ok_checked:
  assumes "applyCertChecks q p = Inr p'" and "outbound_ok name t q p"
  shows "outbound_ok name t q p'"
proof -
  have waived: "SkipsVerification q \<Longrightarrow> waived q" by (simp add: waived_def)
  show ?thesis
    using assms(2) applyCertChecks_frame [OF assms(1)] waived by (simp add: outbound_ok_def)
qed

text \<open>The fields every protocol starts from.\<close>

definition starts :: "string \<Rightarrow> string \<Rightarrow> obj \<Rightarrow> bool" where
  "starts name t p \<longleftrightarrow>
     map_of p ''name'' = Some (VS name) \<and> map_of p ''type'' = Some (VS t) \<and>
     (\<exists>host. map_of p ''server'' = Some (VS host)) \<and> (\<exists>n. map_of p ''port'' = Some (VI n)) \<and>
     map_of p ''skip-cert-verify'' = None"

lemma vless_security_ok:
  assumes "vless_security network q p = Inr p'" and "starts name ''vless'' p"
  shows "outbound_ok name ''vless'' q p'"
proof -
  have tls: "outbound_ok name ''vless'' q (applyTLS q p)" if "security_of q = ''tls''"
    using assms(2) that by (simp add: outbound_ok_def starts_def applyTLS_frame)
  have reality: "outbound_ok name ''vless'' q (applyRealityOpts q (applyTLS q p))"
    using assms(2) by (simp add: outbound_ok_def starts_def applyTLS_frame applyRealityOpts_frame reality_ok_def)
  have plain: "outbound_ok name ''vless'' q p" if "security_of q = [] \<or> security_of q = ''none''"
    using assms(2) that by (auto simp: outbound_ok_def starts_def)
  show ?thesis
    using assms(1) tls reality plain outbound_ok_checked
    unfolding vless_security_def Let_def security_of_def [symmetric]
    by (auto split: if_splits)
qed

lemma bases_start:
  "starts name ''vless'' (vless_base u port network enc name)"
  "starts name ''trojan'' (trojan_base u port name)"
  "starts name ''tuic'' (put_text ''udp-relay-mode'' mode (put_text ''congestion-controller'' cc (tuic_base u port name)))"
  "starts name ''anytls'' (anytls_base u port password name)"
  by (simp_all add: starts_def vless_base_def trojan_base_def tuic_base_def anytls_base_def Let_def split: option.split)

lemma parsed_link: "sharelink_ParseURL parse link = Inr u \<longleftrightarrow> parse link = Some u"
  by (simp add: sharelink_ParseURL_def split: option.split)

lemma vlessProxy_ok:
  assumes "vlessProxy parse valid link name = Inr p"
  shows "\<exists>u. parse link = Some u \<and> outbound_ok name ''vless'' (u_Query u) p"
proof -
  obtain u port network enc p1 where "parse link = Some u"
    "vless_security network (u_Query u) (vless_base u port network enc name) = Inr p1"
    "p = vless_transport network (u_Query u) p1"
    using assms by (auto simp: vlessProxy_def parsed_link Let_def split: option.splits)
  thus ?thesis using vless_security_ok [OF _ bases_start(1)] outbound_ok_same [OF vless_transport_frame] by blast
qed

lemma applyTrojanReality_ok:
  assumes "applyTrojanReality q p = Inr p'" and "starts name ''trojan'' p0" and "applyCertChecks q p0 = Inr p"
  shows "outbound_ok name ''trojan'' q p'"
proof -
  have "outbound_ok name ''trojan'' q p" if "security_of q \<noteq> ''reality''"
    using assms(2) that by (intro outbound_ok_checked [OF assms(3)]) (simp add: outbound_ok_def starts_def)
  moreover have "outbound_ok name ''trojan'' q (applyRealityOpts q p)" if "q ''pbk'' \<noteq> []"
    using assms(2) applyCertChecks_frame [OF assms(3)] that
    by (simp add: outbound_ok_def starts_def applyRealityOpts_frame waived_def reality_ok_def)
  ultimately show ?thesis
    using assms(1) by (auto simp: applyTrojanReality_def security_of_def split: if_splits)
qed

lemma trojanProxy_ok:
  assumes "trojanProxy parse link name = Inr p"
  shows "\<exists>u. parse link = Some u \<and> outbound_ok name ''trojan'' (u_Query u) p"
proof -
  obtain u port p1 p2 where "parse link = Some u" "applyCertChecks (u_Query u) (trojan_base u port name) = Inr p1"
    "applyTrojanReality (u_Query u) p1 = Inr p2" "applyTrojanTransport (u_Query u) p2 = Inr p"
    using assms by (auto simp: trojanProxy_def parsed_link)
  thus ?thesis
    using applyTrojanReality_ok [OF _ bases_start(2)] outbound_ok_same [OF applyTrojanTransport_frame] by blast
qed

lemma starts_ok: "starts name t p \<Longrightarrow> t \<notin> set [''vless'', ''vmess'', ''trojan''] \<Longrightarrow> outbound_ok name t q p"
  by (simp add: starts_def outbound_ok_def)

lemma tuicProxy_ok:
  assumes "tuicProxy parse link name = Inr p"
  shows "\<exists>u. parse link = Some u \<and> outbound_ok name ''tuic'' (u_Query u) p"
proof -
  obtain u port mode cc where "parse link = Some u"
    "applyCertChecks (u_Query u)
      (put_text ''udp-relay-mode'' mode (put_text ''congestion-controller'' cc (tuic_base u port name))) = Inr p"
    using assms by (auto simp: tuicProxy_def parseShareLink_def parsed_link Let_def)
  thus ?thesis using outbound_ok_checked [OF _ starts_ok [OF bases_start(3)]] by simp
qed

lemma anytlsProxy_ok:
  assumes "anytlsProxy parse link name = Inr p"
  shows "\<exists>u. parse link = Some u \<and> outbound_ok name ''anytls'' (u_Query u) p"
proof -
  obtain u port password where "parse link = Some u"
    "applyCertChecks (u_Query u) (anytls_base u port password name) = Inr p"
    using assms by (auto simp: anytlsProxy_def parseShareLink_def parsed_link Let_def)
  thus ?thesis using outbound_ok_checked [OF _ starts_ok [OF bases_start(4)]] by simp
qed

lemma hy2_outbound_ok: "outbound_ok name ''hysteria2'' (u_Query u) (hy2_outbound u port ports name)"
  by (simp add: hy2_outbound_def Let_def outbound_ok_def waived_def map_of_put_int)

lemma hysteria2Proxy_ok:
  assumes "hysteria2Proxy parse link name = Inr p"
  shows "\<exists>link' ports u. normalizeHy2Link link = Inr (link', ports) \<and> parse link' = Some u \<and>
    outbound_ok name ''hysteria2'' (u_Query u) p"
proof -
  obtain link' spec u port ports where "normalizeHy2Link link = Inr (link', spec)" "parse link' = Some u"
    "p = hy2_outbound u port ports name"
    using assms by (auto simp: hysteria2Proxy_def parsed_link)
  thus ?thesis using hy2_outbound_ok by blast
qed

lemma vmess_security_ok:
  assumes "vmess_security q p = Inr p'" and "starts name ''vmess'' p"
  shows "outbound_ok name ''vmess'' q p'"
proof -
  have idem: "security_of q = s" if "q ''security'' = s" "s \<in> set [[], ''none'', ''tls'']" for s
  proof -
    have "list_all (\<lambda>s. ToLower (TrimSpace s) = s) [[], ''none'', ''tls'']" by code_simp
    thus ?thesis using that unfolding list_all_iff security_of_def by blast
  qed
  have plain: "outbound_ok name ''vmess'' q p" if "q ''security'' = [] \<or> q ''security'' = ''none''"
    using assms(2) that idem [of "[]"] idem [of "''none''"] by (auto simp: outbound_ok_def starts_def)
  have tls: "outbound_ok name ''vmess'' q (put_list ''alpn'' a (put_text ''client-fingerprint'' f
      (put_text ''servername'' n (put ''tls'' (VB True) p))))" if "q ''security'' = ''tls''" for a f n
    using assms(2) that idem [of "''tls''"] by (simp add: outbound_ok_def starts_def)
  show ?thesis
    using assms(1) plain outbound_ok_checked [OF _ tls] by (auto simp: vmess_security_def split: if_splits)
qed

lemma vmess_base_starts: "starts name ''vmess'' (vmess_base l name)"
  by (simp add: starts_def vmess_base_def Let_def)

lemma starts_same: "same_link p p' \<Longrightarrow> starts name t p \<Longrightarrow> starts name t p'"
  by (simp add: starts_def same_link_simps)

lemma vmessProxy_ok:
  assumes "vmessProxy parse json early link name = Inr p"
  shows "outbound_ok name ''vmess'' (vl_Params (fst (vmess_Parse parse json link))) p"
proof -
  obtain l p1 where l: "fst (vmess_Parse parse json link) = l"
    and p1: "applyVmessTransport early (vl_Params l) (vmess_base l name) = Inr p1"
    and p: "vmess_security (vl_Params l) p1 = Inr p"
    using assms by (auto simp: vmessProxy_def split: prod.splits if_splits)
  have "starts name ''vmess'' p1" by (rule starts_same [OF applyVmessTransport_frame [OF p1] vmess_base_starts])
  thus ?thesis using vmess_security_ok [OF p] l by simp
qed

lemma wg_base_starts: "starts name ''wireguard'' (wg_base iface pr host port name)"
  by (simp add: starts_def wg_base_def Let_def map_of_put_positive)

lemma starts_put:
  "k \<notin> set link_keys \<Longrightarrow> starts name t (put k v p) = starts name t p"
  by (auto simp: starts_def link_keys_def)

lemma wireguard_proxy_shape:
  assumes "wireguard_proxy link name = Inr p"
  obtains iface pr host port opt where
    "p = wg_base iface pr host port name \<or> p = put ''amnezia-wg-option'' (VO opt) (wg_base iface pr host port name)"
  using assms unfolding wireguard_proxy_def Let_def
  by (simp split: option.splits prod.splits if_splits) metis

lemma wireguardProxy_ok:
  assumes "wireguardProxy link name = Inr p"
  shows "outbound_ok name ''wireguard'' q p"
proof -
  have "wireguard_proxy link name = Inr p" using assms by (simp add: wireguardProxy_def split: sum.splits)
  then obtain iface pr host port opt where
    "p = wg_base iface pr host port name \<or> p = put ''amnezia-wg-option'' (VO opt) (wg_base iface pr host port name)"
    by (rule wireguard_proxy_shape)
  hence "starts name ''wireguard'' p"
    using wg_base_starts by (auto simp: starts_put link_keys_def)
  thus ?thesis by (rule starts_ok) simp
qed

lemma ssProxy_ok:
  assumes "ssProxy link name = Inr p"
  shows "outbound_ok name ''ss'' q p"
proof -
  have "starts name ''ss'' p"
    using assms by (auto simp: ssProxy_def Let_def starts_def split: option.splits prod.splits)
  thus ?thesis by (rule starts_ok) simp
qed

text \<open>The query a link carries.\<close>

definition link_query :: "link_env \<Rightarrow> string \<Rightarrow> url_values" where
  "link_query env link =
     (if link_type link = ''vmess'' then vl_Params (fst (vmess_Parse (e_url env) (e_json env) link))
      else if link_type link = ''hysteria2'' then
        (case normalizeHy2Link link of
           Inr (link', _) \<Rightarrow> (case e_url env link' of Some u \<Rightarrow> u_Query u | None \<Rightarrow> (\<lambda>_. [])) | Inl _ \<Rightarrow> (\<lambda>_. []))
      else if link_type link \<in> set [''vless'', ''trojan'', ''tuic'', ''anytls''] then
        (case e_url env link of Some u \<Rightarrow> u_Query u | None \<Rightarrow> (\<lambda>_. []))
      else (\<lambda>_. []))"

lemma link_query_parsed:
  "link_type link \<in> set [''vless'', ''trojan'', ''tuic'', ''anytls''] \<Longrightarrow> e_url env link = Some u \<Longrightarrow>
     link_query env link = u_Query u"
  "link_type link = ''hysteria2'' \<Longrightarrow> normalizeHy2Link link = Inr (link', ports) \<Longrightarrow> e_url env link' = Some u \<Longrightarrow>
     link_query env link = u_Query u"
  "link_type link = ''vmess'' \<Longrightarrow> link_query env link = vl_Params (fst (vmess_Parse (e_url env) (e_json env) link))"
  by (auto simp: link_query_def)

lemma proxyFromLink_ok:
  assumes "proxyFromLink env link name = Inr p"
  shows "outbound_ok name (link_type link) (link_query env link) p"
proof -
  have parsed: "outbound_ok name (link_type link) (link_query env link) p"
    if "link_type link = t" "t \<in> set [''vless'', ''trojan'', ''tuic'', ''anytls'']"
      "\<exists>u. e_url env link = Some u \<and> outbound_ok name t (u_Query u) p" for t
    using that link_query_parsed(1) [of link env] by auto
  consider (vless) "link_type link = ''vless''" "vlessProxy (e_url env) (e_key env) link name = Inr p"
    | (ss) "link_type link = ''ss''" "ssProxy link name = Inr p"
    | (trojan) "link_type link = ''trojan''" "trojanProxy (e_url env) link name = Inr p"
    | (hy2) "link_type link = ''hysteria2''" "hysteria2Proxy (e_url env) link name = Inr p"
    | (tuic) "link_type link = ''tuic''" "tuicProxy (e_url env) link name = Inr p"
    | (anytls) "link_type link = ''anytls''" "anytlsProxy (e_url env) link name = Inr p"
    | (vmess) "link_type link = ''vmess''" "vmessProxy (e_url env) (e_json env) (e_early env) link name = Inr p"
    | (wireguard) "link_type link = ''wireguard''" "wireguardProxy link name = Inr p"
    using assms unfolding proxyFromLink_def Let_def by (auto split: if_splits)
  thus ?thesis
  proof cases
    case vless
    show ?thesis using parsed [OF vless(1)] vlessProxy_ok [OF vless(2)] by simp
  next
    case trojan
    show ?thesis using parsed [OF trojan(1)] trojanProxy_ok [OF trojan(2)] by simp
  next
    case tuic
    show ?thesis using parsed [OF tuic(1)] tuicProxy_ok [OF tuic(2)] by simp
  next
    case anytls
    show ?thesis using parsed [OF anytls(1)] anytlsProxy_ok [OF anytls(2)] by simp
  next
    case hy2
    obtain link' ports u where "normalizeHy2Link link = Inr (link', ports)" "e_url env link' = Some u"
      "outbound_ok name ''hysteria2'' (u_Query u) p"
      using hysteria2Proxy_ok [OF hy2(2)] by blast
    thus ?thesis using link_query_parsed(2) [OF hy2(1)] hy2(1) by simp
  next
    case vmess
    show ?thesis unfolding link_query_parsed(3) [OF vmess(1)] vmess(1) by (rule vmessProxy_ok [OF vmess(2)])
  next
    case ss
    show ?thesis using ssProxy_ok [OF ss(2)] ss(1) by simp
  next
    case wireguard
    show ?thesis using wireguardProxy_ok [OF wireguard(2)] wireguard(1) by simp
  qed
qed


definition sample_url :: URL where
  "sample_url = \<lparr>u_Scheme = ''trojan'', u_Text = [], u_Hostname = ''h'', u_Port = ''443'', u_User = Some (''id'', None),
     u_Query = (\<lambda>k. if k = ''security'' then ''reality'' else if k = ''pbk'' then ''K'' else []), u_Fragment = []\<rparr>"

definition sample_env :: link_env where
  "sample_env = \<lparr>e_url = (\<lambda>_. Some sample_url), e_json = (\<lambda>_. None), e_early = (\<lambda>_. None), e_key = (\<lambda>_. True)\<rparr>"


end
