(* ===== verification/Mihomo_Config.thy ===== *)
theory Mihomo_Config
  imports Mihomo_Rules Mihomo_Proxy
begin

text \<open>
  The mihomo configuration a start builds: \<^verbatim>\<open>BuildConfig\<close> of \<^verbatim>\<open>src/internal/mihomoconfig/mihomoconfig.go\<close> with the inbounds,
  the DNS section, the proxies and the rules. mihomo's defaults are a parameter, the raw configuration the build starts
  from; the result is the raw configuration handed to mihomo's parser.
\<close>

section \<open>Inputs\<close>

record TunInbound =
  FileDescriptor :: int
  Device :: string
  MTU :: int
  tun_DNS :: DnsConfig

record Inbound =
  MixedPort :: int
  Tun :: "TunInbound option"
  Bridge :: bool
  Interface_name :: string
  ForceProxy :: bool
  in_DNS :: DnsConfig
  ProxyUser :: string
  ProxyPass :: string

record Options =
  Strategy :: string
  DisableSniffing :: bool
  ProbeURL :: string
  Fingerprint :: string

section \<open>mihomo's raw configuration\<close>

datatype enhanced_mode = DNSNormal | DNSFakeIP | DNSOther

record RawDNS =
  dns_Enable :: bool
  dns_IPv6 :: bool
  dns_EnhancedMode :: enhanced_mode
  dns_FakeIPRange :: string
  dns_FakeIPRange6 :: string
  dns_FakeIPFilter :: "string list"
  dns_NameServer :: "string list"
  dns_DirectNameServer :: "string list"

record RawTun =
  tun_Enable :: bool
  tun_Stack :: string
  tun_DNSHijack :: "string list"
  tun_MTU :: "32 word"
  tun_ProcessorsPerChannel :: int
  tun_FileDescriptor :: int
  tun_Device :: string
  tun_AutoRoute :: bool
  tun_AutoDetectInterface :: bool

record RawSniffer =
  sn_Enable :: bool
  sn_ParsePureIp :: bool
  sn_OverrideDest :: bool
  sn_Sniff :: "(string \<times> string list) list"
  sn_SkipDstAddress :: "string list"

record RawConfig =
  r_AllowLan :: bool
  r_Mode :: string
  r_LogLevel :: string
  r_IPv6 :: bool
  r_GeodataMode :: bool
  r_GeoAutoUpdate :: bool
  r_GeoXUrl :: "string list"
  r_Sniffer :: RawSniffer
  r_MixedPort :: int
  r_Listeners :: "obj list"
  r_Hosts :: "string \<rightharpoonup> string list"
  r_Interface :: string
  r_DNS :: RawDNS
  r_Tun :: RawTun
  r_Proxy :: "obj list"
  r_ProxyGroup :: "proxy_group list"
  r_Rule :: "string list"
  r_SubRules :: "(string \<times> string list) list"

section \<open>Building\<close>

definition applyHosts :: "RawConfig \<Rightarrow> DnsConfig \<Rightarrow> RawConfig" where
  "applyHosts raw dns = raw\<lparr>r_Hosts := r_Hosts raw ++ NormalizedHosts dns\<rparr>"

definition applyBridgeDNS :: "RawConfig \<Rightarrow> DnsConfig \<Rightarrow> RawConfig" where
  "applyBridgeDNS raw dns =
     (if \<not> FakeIP dns then raw
      else (let d = (r_DNS raw)\<lparr>dns_Enable := True, dns_IPv6 := False, dns_EnhancedMode := DNSFakeIP,
                      dns_FakeIPRange := fakeIPRangeBridge\<rparr>;
                d = (if NormalizedFilter dns \<noteq> [] then d\<lparr>dns_FakeIPFilter := NormalizedFilter dns\<rparr> else d);
                d = d\<lparr>dns_NameServer := NormalizedServers dns ''1.1.1.1''\<rparr>
            in raw\<lparr>r_DNS := (if NormalizedDirectServers dns \<noteq> []
                            then d\<lparr>dns_DirectNameServer := NormalizedDirectServers dns\<rparr> else d)\<rparr>))"

definition tun_inbound :: "TunInbound \<Rightarrow> RawTun \<Rightarrow> RawTun" where
  "tun_inbound t tn0 =
     (let tn = tn0\<lparr>tun_Enable := True, tun_Stack := ''gvisor'', tun_DNSHijack := [''any:53''],
            tun_MTU := word_of_int (if MTU t \<le> 0 then 1420 else MTU t), tun_ProcessorsPerChannel := 0\<rparr>
      in if 0 < FileDescriptor t
         then tn\<lparr>tun_FileDescriptor := FileDescriptor t, tun_AutoRoute := False, tun_AutoDetectInterface := False\<rparr>
         else tn\<lparr>tun_Device := Device t, tun_AutoRoute := True, tun_AutoDetectInterface := True\<rparr>)"

definition tun_dns :: "DnsConfig \<Rightarrow> RawDNS \<Rightarrow> RawDNS" where
  "tun_dns dns d0 =
     (let d = d0\<lparr>dns_Enable := True, dns_IPv6 := \<not> d_DisableIPv6 dns\<rparr>;
          d = (if FakeIP dns
               then (let d = d\<lparr>dns_EnhancedMode := DNSFakeIP, dns_FakeIPRange := fakeIPRange\<rparr>;
                         d = (if dns_IPv6 d then d\<lparr>dns_FakeIPRange6 := fakeIPRange6\<rparr> else d)
                     in if NormalizedFilter dns \<noteq> [] then d\<lparr>dns_FakeIPFilter := NormalizedFilter dns\<rparr> else d)
               else d\<lparr>dns_EnhancedMode := DNSNormal\<rparr>);
          d = (if NormalizedServers dns [] \<noteq> [] then d\<lparr>dns_NameServer := NormalizedServers dns []\<rparr> else d)
      in if NormalizedDirectServers dns \<noteq> [] then d\<lparr>dns_DirectNameServer := NormalizedDirectServers dns\<rparr> else d)"

definition applyTun :: "RawConfig \<Rightarrow> TunInbound \<Rightarrow> RawConfig" where
  "applyTun raw t = raw\<lparr>r_Tun := tun_inbound t (r_Tun raw), r_DNS := tun_dns (tun_DNS t) (r_DNS raw)\<rparr>"

definition fakePoolRejectRules :: "RawConfig \<Rightarrow> string list" where
  "fakePoolRejectRules raw =
     (if dns_EnhancedMode (r_DNS raw) \<noteq> DNSFakeIP then []
      else map (\<lambda>pool. ''IP-CIDR,'' @ NormalizeCIDR pool @ '',REJECT,no-resolve'')
        (filter (\<lambda>pool. pool \<noteq> []) [dns_FakeIPRange (r_DNS raw), dns_FakeIPRange6 (r_DNS raw)]))"

definition base_config :: "RawConfig \<Rightarrow> Options \<Rightarrow> Profile \<Rightarrow> RawConfig" where
  "base_config raw0 opts prof =
     raw0\<lparr>r_AllowLan := False, r_Mode := ''rule'', r_LogLevel := ''silent'',
       r_IPv6 := (if DisableIPv6 prof then False else r_IPv6 raw0),
       r_GeodataMode := True, r_GeoAutoUpdate := False, r_GeoXUrl := [],
       r_Sniffer := \<lparr>sn_Enable = \<not> DisableSniffing opts, sn_ParsePureIp = True, sn_OverrideDest = False,
         sn_Sniff = [(''TLS'', [''443'']), (''HTTP'', [''80'', ''8080-8880'']), (''QUIC'', [''443''])],
         sn_SkipDstAddress = (if LocalNetworks prof then LocalNetworkCIDRs else [])\<rparr>\<rparr>"

definition proxy_listener :: "Inbound \<Rightarrow> obj" where
  "proxy_listener inb =
     [(''name'', VS ProxyInName), (''type'', VS ''mixed''), (''listen'', VS ''127.0.0.1''), (''port'', VI (MixedPort inb)),
      (''users'', VA [VO [(''username'', VS (ProxyUser inb)), (''password'', VS (ProxyPass inb))]]), (''udp'', VB False)]"

definition add_inbounds :: "Inbound \<Rightarrow> RawConfig \<Rightarrow> RawConfig" where
  "add_inbounds inb raw =
     (let raw = (if 0 < MixedPort inb
                 then (if ProxyUser inb \<noteq> [] \<and> ProxyPass inb \<noteq> []
                       then raw\<lparr>r_Listeners := r_Listeners raw @ [proxy_listener inb]\<rparr>
                       else raw\<lparr>r_MixedPort := MixedPort inb\<rparr>)
                 else raw);
          raw = (if 0 < MixedPort inb \<or> Bridge inb then applyHosts raw (in_DNS inb) else raw);
          raw = (if Bridge inb then applyBridgeDNS raw (in_DNS inb) else raw);
          raw = (if Interface_name inb \<noteq> [] then raw\<lparr>r_Interface := Interface_name inb\<rparr> else raw)
      in case Tun inb of None \<Rightarrow> raw | Some t \<Rightarrow> applyHosts (applyTun raw t) (tun_DNS t))"

datatype build_error = NoInbound | LinkFailed nat link_error | NoLinks | BadStrategy | GeoFailed geo_error

text \<open>The loop over the links; the name of each comes from \<^verbatim>\<open>ProxyNames\<close>.\<close>

fun build_proxies :: "link_env \<Rightarrow> string \<Rightarrow> nat \<Rightarrow> string list \<Rightarrow> string list \<Rightarrow> build_error + obj list" where
  "build_proxies env fp i [] names = Inr []"
| "build_proxies env fp i (link # links) names =
     (let t = TrimSpace link
      in if t = [] then build_proxies env fp (i + 1) links names
         else (case proxyFromLink env t (hd names) of
                 Inl e \<Rightarrow> Inl (LinkFailed i e)
               | Inr proxy \<Rightarrow>
                   and_then (build_proxies env fp (i + 1) links (tl names))
                     (\<lambda>ps. Inr (applyProxyFingerprint fp proxy # ps))))"

definition with_rules :: "Inbound \<Rightarrow> Profile \<Rightarrow> string \<Rightarrow> RawConfig \<Rightarrow> RawConfig" where
  "with_rules inb prof target raw =
     raw\<lparr>r_Rule := fakePoolRejectRules raw @ buildRules prof target (ForceProxy inb),
       r_SubRules := (if ForceProxy inb \<and> forceFlowsNeedSubRule prof
                      then [(forceFlowsSubRule, forceFlowRules prof target)] else r_SubRules raw)\<rparr>"

definition proxy_groups :: "Options \<Rightarrow> string list \<Rightarrow> proxy_group list \<Rightarrow> proxy_group list option" where
  "proxy_groups opts names groups =
     (if 1 < length names then map_option (\<lambda>g. [g]) (balancerGroup names (Strategy opts) (ProbeURL opts)) else Some groups)"

definition check_geo :: "(string \<Rightarrow> bool) \<Rightarrow> Inbound \<Rightarrow> Profile \<Rightarrow> string \<Rightarrow> RawConfig \<Rightarrow> build_error + unit" where
  "check_geo geo inb prof target raw =
     (let sub = (if ForceProxy inb \<and> forceFlowsNeedSubRule prof then forceFlowRules prof target else [])
      in case checkGeoAssets geo (r_Rule raw @ sub) (dns_FakeIPFilter (r_DNS raw)) of
           Some e \<Rightarrow> Inl (GeoFailed e) | None \<Rightarrow> Inr ())"

definition BuildConfig ::
    "link_env \<Rightarrow> (string \<Rightarrow> bool) \<Rightarrow> RawConfig \<Rightarrow> string list \<Rightarrow> Inbound \<Rightarrow> Options \<Rightarrow> Profile \<Rightarrow> build_error + RawConfig" where
  "BuildConfig env geo raw0 links inb opts prof =
     and_then (require (\<not> (MixedPort inb \<le> 0 \<and> Tun inb = None \<and> \<not> Bridge inb)) NoInbound) (\<lambda>_.
     and_then (or_fail NoLinks (ProxyNames (e_url env) (e_json env) links)) (\<lambda>names.
     and_then (build_proxies env (Fingerprint opts) 0 links names) (\<lambda>proxies.
     and_then (require (names \<noteq> []) NoLinks) (\<lambda>_.
       let raw = add_inbounds inb (base_config raw0 opts prof);
           target = target_name names
       in and_then (or_fail BadStrategy (proxy_groups opts names (r_ProxyGroup raw))) (\<lambda>groups.
          let raw = with_rules inb prof target (raw\<lparr>r_Proxy := r_Proxy raw @ proxies, r_ProxyGroup := groups\<rparr>)
          in and_then (check_geo geo inb prof target raw) (\<lambda>_. Inr raw))))))"

section \<open>The configuration is consistent\<close>

lemma fingerprint_keeps_name: "map_of (applyProxyFingerprint fp p) ''name'' = map_of p ''name''"
  by (simp add: applyProxyFingerprint_def Let_def)

lemma build_proxies_names:
  "build_proxies env fp i links names = Inr ps \<Longrightarrow> length names = nonblank links \<Longrightarrow>
     map (\<lambda>p. map_of p ''name'') ps = map (\<lambda>n. Some (VS n)) names"
proof (induction env fp i links names arbitrary: ps rule: build_proxies.induct)
  case (2 env fp i link links names)
  show ?case
  proof (cases "TrimSpace link = []")
    case True
    thus ?thesis using 2 by (simp add: nonblank_def)
  next
    case False
    then obtain n ns where names: "names = n # ns" using "2.prems"(2) by (cases names) (auto simp: nonblank_def)
    obtain p ps' where p: "proxyFromLink env (TrimSpace link) n = Inr p"
      and ps: "build_proxies env fp (i + 1) links ns = Inr ps'" "ps = applyProxyFingerprint fp p # ps'"
      using "2.prems"(1) False by (auto simp: names Let_def split: sum.splits)
    have "map_of p ''name'' = Some (VS n)" using proxyFromLink_ok [OF p] by (simp add: outbound_ok_def)
    moreover have "map (\<lambda>p. map_of p ''name'') ps' = map (\<lambda>n. Some (VS n)) ns"
      using "2.IH"(2) [OF refl False] p ps(1) "2.prems"(2) False by (simp add: names nonblank_def)
    ultimately show ?thesis by (simp add: ps(2) names fingerprint_keeps_name)
  qed
qed (simp add: nonblank_def)

text \<open>What the inbounds leave of the configuration they are added to.\<close>

lemma add_inbounds_frame:
  "r_AllowLan (add_inbounds inb raw) = r_AllowLan raw" "r_Proxy (add_inbounds inb raw) = r_Proxy raw"
  "r_ProxyGroup (add_inbounds inb raw) = r_ProxyGroup raw" "r_SubRules (add_inbounds inb raw) = r_SubRules raw"
  "r_Listeners (add_inbounds inb raw) = r_Listeners raw @
     (if 0 < MixedPort inb \<and> ProxyUser inb \<noteq> [] \<and> ProxyPass inb \<noteq> [] then [proxy_listener inb] else [])"
  "ProxyUser inb \<noteq> [] \<and> ProxyPass inb \<noteq> [] \<Longrightarrow> r_MixedPort (add_inbounds inb raw) = r_MixedPort raw"
  by (auto simp: add_inbounds_def applyHosts_def applyBridgeDNS_def applyTun_def Let_def split: option.split)

text \<open>mihomo's defaults as its documentation gives them: no proxies, groups, listeners or sub-rules, no mixed port.\<close>

definition empty_defaults :: "RawConfig \<Rightarrow> bool" where
  "empty_defaults raw0 \<longleftrightarrow>
     r_Proxy raw0 = [] \<and> r_ProxyGroup raw0 = [] \<and> r_Listeners raw0 = [] \<and> r_SubRules raw0 = [] \<and> r_MixedPort raw0 = 0"

text \<open>Only the host's own loopback reaches the core, and with credentials only a client that knows them.\<close>

definition loopback_only :: "Inbound \<Rightarrow> RawConfig \<Rightarrow> bool" where
  "loopback_only inb raw \<longleftrightarrow>
     \<not> r_AllowLan raw \<and> list_all (\<lambda>l. map_of l ''listen'' = Some (VS ''127.0.0.1'') \<and> map_of l ''udp'' = Some (VB False) \<and>
       map_of l ''users'' = Some (VA [VO [(''username'', VS (ProxyUser inb)), (''password'', VS (ProxyPass inb))]]))
       (r_Listeners raw) \<and>
     (ProxyUser inb \<noteq> [] \<and> ProxyPass inb \<noteq> [] \<longrightarrow> r_MixedPort raw = 0)"

text \<open>Proxied traffic has one destination that exists: the only proxy, or a group over all of them.\<close>

definition target_exists :: "string \<Rightarrow> RawConfig \<Rightarrow> bool" where
  "target_exists target raw \<longleftrightarrow>
     (\<exists>names. map (\<lambda>p. map_of p ''name'') (r_Proxy raw) = map (\<lambda>n. Some (VS n)) names \<and> distinct names \<and>
       set names \<inter> set reservedNames = {} \<and>
       (names = [target] \<and> r_ProxyGroup raw = [] \<or>
        1 < length names \<and> map g_name (r_ProxyGroup raw) = [target] \<and> map g_proxies (r_ProxyGroup raw) = [names]))"

lemma balancerGroup_names:
  "balancerGroup names strategy probe = Some g \<Longrightarrow> g_name g = GroupTag \<and> g_proxies g = names"
  by (auto simp: balancerGroup_def Let_def split: option.splits)

lemma target_name_cases: "names \<noteq> [] \<Longrightarrow> names = [target_name names] \<or> 1 < length names \<and> target_name names = GroupTag"
  by (cases names rule: target_name.cases) auto

lemma groups_target:
  assumes "names \<noteq> []" and "proxy_groups opts names [] = Some groups"
  shows "names = [target_name names] \<and> groups = [] \<or>
    1 < length names \<and> map g_name groups = [target_name names] \<and> map g_proxies groups = [names]"
proof (cases "1 < length names")
  case True
  hence "target_name names = GroupTag" by (cases names rule: target_name.cases) auto
  thus ?thesis using True assms(2) by (auto simp: proxy_groups_def dest: balancerGroup_names)
next
  case False
  thus ?thesis using assms(2) target_name_cases [OF assms(1)] by (simp add: proxy_groups_def)
qed

text \<open>
  C10. A mihomo configuration that builds is closed and consistent. It listens on the loopback only, with UDP off and the
  credentials required where the caller set them; its proxies have distinct names, and the destination of proxied traffic
  is the only proxy or a group over all of them; its rules are the profile's, led by the rejection of the fake-ip pools
  when fake-ip is on; and the sub-rule list of the force-proxy flows is there whenever a rule may refer to it.
\<close>

theorem BuildConfig_consistent:
  assumes "BuildConfig env geo raw0 links inb opts prof = Inr raw" and "empty_defaults raw0"
  shows "loopback_only inb raw \<and>
    (\<exists>target. target_exists target raw \<and>
      r_Rule raw = fakePoolRejectRules raw @ buildRules prof target (ForceProxy inb) \<and>
      r_SubRules raw = (if ForceProxy inb \<and> forceFlowsNeedSubRule prof
        then [(forceFlowsSubRule, forceFlowRules prof target)] else []))"
proof -
  define raw1 where raw1: "raw1 = add_inbounds inb (base_config raw0 opts prof)"
  obtain names proxies groups where names: "ProxyNames (e_url env) (e_json env) links = Some names" "names \<noteq> []"
    and proxies: "build_proxies env (Fingerprint opts) 0 links names = Inr proxies"
    and groups: "proxy_groups opts names (r_ProxyGroup raw1) = Some groups"
    and raw: "raw = with_rules inb prof (target_name names)
      (raw1\<lparr>r_Proxy := r_Proxy raw1 @ proxies, r_ProxyGroup := groups\<rparr>)"
    using assms(1) unfolding BuildConfig_def Let_def raw1 [symmetric] and_then_Inr or_fail_Inr require_Inr by blast
  have empty: "r_Proxy raw1 = []" "r_SubRules raw1 = []" "\<not> r_AllowLan raw1"
    "r_Listeners raw1 = [] \<or> r_Listeners raw1 = [proxy_listener inb]"
    "ProxyUser inb \<noteq> [] \<and> ProxyPass inb \<noteq> [] \<Longrightarrow> r_MixedPort raw1 = 0"
    using assms(2) by (auto simp: raw1 add_inbounds_frame base_config_def empty_defaults_def)
  have ok: "distinct names" "set names \<inter> set reservedNames = {}" "length names = nonblank links"
    using names(1) proxy_names_loop_ok [of "e_url env" "e_json env" 0 links reservedNames] by (auto simp: ProxyNames_def)
  have "loopback_only inb raw"
    using empty by (auto simp: loopback_only_def raw with_rules_def proxy_listener_def)
  moreover have "target_exists (target_name names) raw"
  proof -
    have "r_ProxyGroup raw1 = []"
      using assms(2) by (simp add: raw1 add_inbounds_frame base_config_def empty_defaults_def)
    note groups_target [OF names(2) groups [unfolded this]]
    moreover have "r_Proxy raw = proxies" "r_ProxyGroup raw = groups" by (simp_all add: raw with_rules_def empty(1))
    ultimately show ?thesis
      using ok(1,2) build_proxies_names [OF proxies ok(3)] unfolding target_exists_def by (intro exI [of _ names]) simp
  qed
  moreover have "r_Rule raw = fakePoolRejectRules raw @ buildRules prof (target_name names) (ForceProxy inb)"
    by (simp add: raw with_rules_def fakePoolRejectRules_def)
  moreover have "r_SubRules raw = (if ForceProxy inb \<and> forceFlowsNeedSubRule prof
      then [(forceFlowsSubRule, forceFlowRules prof (target_name names))] else [])"
    by (simp add: raw with_rules_def empty(2))
  ultimately show ?thesis by (intro conjI exI [of _ "target_name names"])
qed

definition sample_raw :: RawConfig where
  "sample_raw = \<lparr>r_AllowLan = True, r_Mode = ''rule'', r_LogLevel = ''info'', r_IPv6 = True, r_GeodataMode = False,
     r_GeoAutoUpdate = False, r_GeoXUrl = [''u''],
     r_Sniffer = \<lparr>sn_Enable = False, sn_ParsePureIp = False, sn_OverrideDest = True, sn_Sniff = [], sn_SkipDstAddress = []\<rparr>,
     r_MixedPort = 0, r_Listeners = [], r_Hosts = Map.empty, r_Interface = [],
     r_DNS = \<lparr>dns_Enable = False, dns_IPv6 = False, dns_EnhancedMode = DNSOther, dns_FakeIPRange = [],
       dns_FakeIPRange6 = [], dns_FakeIPFilter = [], dns_NameServer = [], dns_DirectNameServer = []\<rparr>,
     r_Tun = \<lparr>tun_Enable = False, tun_Stack = [], tun_DNSHijack = [], tun_MTU = 0, tun_ProcessorsPerChannel = 1,
       tun_FileDescriptor = 0, tun_Device = [], tun_AutoRoute = False, tun_AutoDetectInterface = False\<rparr>,
     r_Proxy = [], r_ProxyGroup = [], r_Rule = [], r_SubRules = []\<rparr>"

definition sample_in :: Inbound where
  "sample_in = \<lparr>MixedPort = 1080, Tun = None, Bridge = True, Interface_name = [], ForceProxy = True,
     in_DNS = \<lparr>d_Mode = ''fake-ip'', d_Servers = [], d_FakeIPFilter = [], d_Hosts = [], d_DirectServers = [],
       d_DisableIPv6 = False\<rparr>, ProxyUser = ''u'', ProxyPass = ''p''\<rparr>"

definition sample_opts :: Options where
  "sample_opts = \<lparr>Strategy = [], DisableSniffing = False, ProbeURL = [], Fingerprint = ''chrome''\<rparr>"

definition sample_links :: "string list" where
  "sample_links = [''ss://aes-128-gcm:pw@h:80'', [], ''ss://aes-128-gcm:pw@h:81'']"

theorem BuildConfig_consistent_witness:
  "\<exists>raw. BuildConfig sample_env (\<lambda>_. True) sample_raw sample_links sample_in sample_opts mihomo_sample = Inr raw \<and>
     loopback_only sample_in raw"
proof -
  have "(case BuildConfig sample_env (\<lambda>_. True) sample_raw sample_links sample_in sample_opts mihomo_sample of
      Inl _ \<Rightarrow> False | Inr _ \<Rightarrow> True)"
    by code_simp
  then obtain raw where
    raw: "BuildConfig sample_env (\<lambda>_. True) sample_raw sample_links sample_in sample_opts mihomo_sample = Inr raw"
    by (simp split: sum.splits)
  have "empty_defaults sample_raw" by code_simp
  thus ?thesis using BuildConfig_consistent [OF raw] raw by blast
qed

end
