(* ===== verification/Core_Options.thy ===== *)
theory Core_Options
  imports Share_Links Dns_Config
begin

text \<open>
  What a start request asks for: the options of \<^verbatim>\<open>src/internal/core/engine.go\<close>, the splitting of a request's links
  (\<^verbatim>\<open>netutil.go\<close>), and the folder the geo lists are read from (\<^verbatim>\<open>geoassets.go\<close>, and the checks in \<^verbatim>\<open>xray.go\<close> and
  \<^verbatim>\<open>engine_mihomo.go\<close>).

  \<open>option_deps\<close> is what the standard library reads in a text, with nothing assumed of it: the scheme and the host of a
  URL, whether a path is absolute (this depends on the platform), and the tier list the JSON decoder finds at the front of a
  text (\<open>None\<close> for \<^verbatim>\<open>null\<close>), with the text it left unread.
\<close>

section \<open>Requests\<close>

type_synonym opts = "string \<rightharpoonup> string"

record EngineStartRequest =
  req_Config :: string
  req_TunFD :: int
  req_DNS :: string
  req_LogLevel :: int
  req_Opts :: opts
  req_DNSConfig :: "DnsConfig option"

record option_deps =
  od_url :: "string \<Rightarrow> (string \<times> string) option"
  od_isAbs :: "string \<Rightarrow> bool"
  od_tiers :: "string \<Rightarrow> (Tier list option \<times> string) option"

datatype option_error =
    LegacyKey string | BadTiers | TrailingData | NullTiers | BadMatcher nat string matcher_error
  | BadFilter string filter_error | RawConfigInPool

definition opt :: "opts \<Rightarrow> string \<Rightarrow> string" where
  "opt m k = (case m k of Some v \<Rightarrow> v | None \<Rightarrow> [])"

definition boolOpt :: "string \<Rightarrow> bool" where
  "boolOpt s = (ToLower (TrimSpace s) \<in> set [''1'', ''true'', ''yes'', ''on''])"

definition intOpt :: "string \<Rightarrow> int" where
  "intOpt s = (case Atoi (TrimSpace s) of None \<Rightarrow> 0 | Some n \<Rightarrow> n)"

definition proxyPortFromOpts :: "opts \<Rightarrow> int" where
  "proxyPortFromOpts m = (case Atoi (TrimSpace (opt m ''proxyPort'')) of
     None \<Rightarrow> 0 | Some n \<Rightarrow> if n < 0 then 0 else n)"

definition geoAssetsDirOpt :: "option_deps \<Rightarrow> string \<Rightarrow> string" where
  "geoAssetsDirOpt d s0 =
     (let s = TrimSpace s0 in if s = [] then [] else if \<not> od_isAbs d s then [] else s)"

definition probeURLOpt :: "option_deps \<Rightarrow> string \<Rightarrow> string" where
  "probeURLOpt d s0 =
     (let s = TrimSpace s0
      in if s = [] then []
         else (case od_url d s of
                 None \<Rightarrow> []
               | Some (scheme, host) \<Rightarrow> if (scheme \<noteq> ''http'' \<and> scheme \<noteq> ''https'') \<or> host = [] then [] else s))"

section \<open>DNS and routing\<close>

definition no_dns :: DnsConfig where
  "no_dns = \<lparr>d_Mode = [], d_Servers = [], d_FakeIPFilter = [], d_Hosts = [], d_DirectServers = [], d_DisableIPv6 = False\<rparr>"

definition requested_dns :: "EngineStartRequest \<Rightarrow> DnsConfig" where
  "requested_dns req =
     (case req_DNSConfig req of
        Some c \<Rightarrow> c
      | None \<Rightarrow> if TrimSpace (req_DNS req) \<noteq> [] then no_dns\<lparr>d_Servers := [req_DNS req]\<rparr> else no_dns)
     \<lparr>d_DisableIPv6 := boolOpt (opt (req_Opts req) ''disableIPv6'')\<rparr>"

definition effective_dns :: "engine \<Rightarrow> DnsConfig \<Rightarrow> DnsConfig" where
  "effective_dns engine cfg =
     (if engine = EngineMihomo \<and> TrimSpace (d_Mode cfg) = [] then cfg\<lparr>d_Mode := ModeFakeIP\<rparr> else cfg)"

definition dnsFromRequest :: "EngineStartRequest \<Rightarrow> engine \<Rightarrow> option_error + DnsConfig" where
  "dnsFromRequest req engine =
     (let cfg = requested_dns req
      in if engine = EngineMihomo \<and> 0 < proxyPortFromOpts (req_Opts req) then Inr cfg
         else (case Dns_Validate (effective_dns engine cfg) engine of
                 Some (e, why) \<Rightarrow> Inl (BadFilter e why)
               | None \<Rightarrow> Inr cfg))"

definition legacyRuleKeys :: "string list" where
  "legacyRuleKeys = [''proxyRules'', ''directRules'', ''blockRules'', ''bypassCountries'']"

text \<open>\<^verbatim>\<open>Decoder.More\<close> on the unread text: another element follows, so not when the next byte closes an array or object.\<close>

definition json_blank :: "char \<Rightarrow> bool" where
  "json_blank c \<longleftrightarrow> c \<in> {CHR '' '', CHR 0x09, CHR 0x0D, CHR 0x0A}"

definition dec_More :: "string \<Rightarrow> bool" where
  "dec_More rest = (case dropWhile json_blank rest of [] \<Rightarrow> False | c # _ \<Rightarrow> c \<noteq> CHR '']'' \<and> c \<noteq> CHR ''}'')"

definition read_tiers :: "option_deps \<Rightarrow> string \<Rightarrow> Profile \<Rightarrow> option_error + Profile" where
  "read_tiers d raw p = (case od_tiers d raw of
     None \<Rightarrow> Inl BadTiers
   | Some (tiers, rest) \<Rightarrow>
       if dec_More rest then Inl TrailingData
       else (case tiers of
               None \<Rightarrow> Inl NullTiers
             | Some ts \<Rightarrow> (case Profile_Validate (p\<lparr>Tiers := ts\<rparr>) of
                 Some (n, m, why) \<Rightarrow> Inl (BadMatcher n m why)
               | None \<Rightarrow> Inr (p\<lparr>Tiers := ts\<rparr>))))"

definition routingFromOpts :: "option_deps \<Rightarrow> opts \<Rightarrow> option_error + Profile" where
  "routingFromOpts d m =
     (case find (\<lambda>k. m k \<noteq> None) legacyRuleKeys of
        Some k \<Rightarrow> Inl (LegacyKey k)
      | None \<Rightarrow>
          (let p = \<lparr>Mode = opt m ''routingMode'', Tiers = [], DomainStrategy = TrimSpace (opt m ''domainStrategy''),
                    LocalNetworks = boolOpt (opt m ''localNetworksDirect''), DirectSendThrough = [], DirectInterface = [],
                    DisableIPv6 = boolOpt (opt m ''disableIPv6''), DisableUDP = boolOpt (opt m ''disableUDP'')\<rparr>;
               raw = TrimSpace (opt m ''routingTiers'')
           in if raw \<noteq> [] then read_tiers d raw p else Inr p))"

section \<open>All options\<close>

record engineOpts =
  eo_routing :: Profile
  eo_dns :: DnsConfig
  eo_strategy :: string
  eo_proxyPort :: int
  eo_sniffing :: bool
  eo_probeURL :: string
  eo_awgPicked :: string
  eo_livenessSec :: int
  eo_muxConcurrency :: int
  eo_xudpConcurrency :: int
  eo_fingerprint :: string
  eo_geoAssetsDir :: string
  eo_proxyUser :: string
  eo_proxyPass :: string
  eo_resolveIP :: bool
  eo_ipEchoV4 :: string
  eo_ipEchoV6 :: string

text \<open>An option that is on unless it is set to something else.\<close>

definition on_unless :: "opts \<Rightarrow> string \<Rightarrow> bool" where
  "on_unless m k = (case m k of Some v \<Rightarrow> if TrimSpace v \<noteq> [] then boolOpt v else True | None \<Rightarrow> True)"

definition optsFromRequest :: "option_deps \<Rightarrow> EngineStartRequest \<Rightarrow> engine \<Rightarrow> option_error + engineOpts" where
  "optsFromRequest d req engine =
     (let m = req_Opts req
      in and_then (routingFromOpts d m) (\<lambda>prof.
         and_then (dnsFromRequest req engine) (\<lambda>dns.
           Inr \<lparr>eo_routing = prof, eo_dns = dns, eo_strategy = opt m ''balancerStrategy'',
                eo_proxyPort = proxyPortFromOpts m, eo_sniffing = on_unless m ''sniffing'',
                eo_probeURL = probeURLOpt d (opt m ''probeUrl''), eo_awgPicked = TrimSpace (opt m ''awgPicked''),
                eo_livenessSec = intOpt (opt m ''livenessIntervalSec''), eo_muxConcurrency = intOpt (opt m ''muxConcurrency''),
                eo_xudpConcurrency = intOpt (opt m ''xudpConcurrency''), eo_fingerprint = TrimSpace (opt m ''fingerprint''),
                eo_geoAssetsDir = geoAssetsDirOpt d (opt m ''geoAssetsDir''), eo_proxyUser = opt m ''proxyUser'',
                eo_proxyPass = opt m ''proxyPass'', eo_resolveIP = on_unless m ''resolveExternalIp'',
                eo_ipEchoV4 = probeURLOpt d (opt m ''ipv4EchoUrl''), eo_ipEchoV6 = probeURLOpt d (opt m ''ipv6EchoUrl'')\<rparr>)))"

section \<open>Links of a request\<close>

definition splitLinks :: "string \<Rightarrow> string list" where
  "splitLinks raw = Split raw CHR 0x0A"

definition scheme_char :: "char \<Rightarrow> bool" where
  "scheme_char c \<longleftrightarrow> is_lower c \<or> is_upper c \<or> is_digit c \<or> c \<in> set ''+.-''"

definition linkLinePattern :: "string \<Rightarrow> bool" where
  "linkLinePattern s = (case s of
     [] \<Rightarrow> False
   | c # cs \<Rightarrow> (is_lower c \<or> is_upper c) \<and> HasPrefix (dropWhile scheme_char cs) ''://'')"

definition isInterfaceHeader :: "string \<Rightarrow> bool" where
  "isInterfaceHeader line0 =
     (let line = TrimSpace line0
      in HasPrefix line ''['' \<and> HasSuffix line '']'' \<and> EqualFold (Trim line [CHR ''['', CHR '']'', CHR '' '', CHR 0x09]) ''interface'')"

definition splitEngineLinks :: "string \<Rightarrow> option_error + string list" where
  "splitEngineLinks raw =
     (let lines = splitLinks raw; interfaces = length (filter isInterfaceHeader lines)
      in if 0 < interfaces then
           (if 1 < interfaces then Inl RawConfigInPool
            else if list_ex (\<lambda>l. linkLinePattern (TrimSpace l)) lines then Inl RawConfigInPool
            else Inr [TrimSpace raw])
         else Inr (filter (\<lambda>l. l \<noteq> []) (map TrimSpace lines)))"

definition plainDNSServers :: "DnsConfig \<Rightarrow> string list" where
  "plainDNSServers dns = filter (\<lambda>s. s \<noteq> [] \<and> Scheme s = []) (map TrimSpace (d_Servers dns))"

section \<open>The geo folder\<close>

text \<open>
  The asset variable of the process, the snapshot taken before the first override, the folder xray's matcher caches were
  filled from and mihomo's home.
\<close>

record geo =
  geo_env :: string
  geo_overridden :: bool
  geo_saved :: string
  xrayGeoFolder :: string
  mihomoHomeDir :: string

definition applyGeoAssetsDir :: "string \<Rightarrow> geo \<Rightarrow> geo" where
  "applyGeoAssetsDir dir g =
     (if dir = [] then
        (if geo_overridden g then g\<lparr>geo_env := geo_saved g, geo_overridden := False, geo_saved := []\<rparr> else g)
      else (let g = (if geo_overridden g then g else g\<lparr>geo_saved := geo_env g, geo_overridden := True\<rparr>)
            in g\<lparr>geo_env := dir\<rparr>))"

text \<open>The caches are emptied when the folder changed; \<open>ok\<close> says whether xray's reloads succeeded.\<close>

definition dropXrayGeoMatchersOnFolderChange :: "bool \<Rightarrow> geo \<Rightarrow> geo option" where
  "dropXrayGeoMatchersOnFolderChange ok g =
     (if geo_env g = xrayGeoFolder g then Some g
      else if \<not> ok then None
      else Some (g\<lparr>xrayGeoFolder := geo_env g\<rparr>))"

definition ensureMihomoHome :: "(string \<Rightarrow> bool) \<Rightarrow> string \<Rightarrow> geo \<Rightarrow> geo option" where
  "ensureMihomoHome isDir optDir g =
     (let dir = (if TrimSpace optDir = [] then TrimSpace (geo_env g) else TrimSpace optDir)
      in if dir = [] then None
         else if dir = mihomoHomeDir g then Some g
         else if \<not> isDir dir then None
         else Some (g\<lparr>mihomoHomeDir := dir\<rparr>))"

section \<open>What a start may rely on\<close>

text \<open>The options an engine start works with, against the request they came from.\<close>

definition opts_honoured :: "option_deps \<Rightarrow> EngineStartRequest \<Rightarrow> engine \<Rightarrow> engineOpts \<Rightarrow> bool" where
  "opts_honoured d req engine eo \<longleftrightarrow>
     (let m = req_Opts req; raw = TrimSpace (opt m ''routingTiers''); p = eo_routing eo
      in list_all (\<lambda>k. m k = None) legacyRuleKeys
         \<and> (if raw = [] then Tiers p = [] else \<exists>rest. od_tiers d raw = Some (Some (Tiers p), rest) \<and> \<not> dec_More rest)
         \<and> list_all (\<lambda>t. list_all (\<lambda>e. validateMatcher e = None) (Block t @ Direct t @ Proxy t)) (Tiers p)
         \<and> Mode p = opt m ''routingMode'' \<and> LocalNetworks p = boolOpt (opt m ''localNetworksDirect'')
         \<and> DomainStrategy p = TrimSpace (opt m ''domainStrategy'') \<and> DirectSendThrough p = [] \<and> DirectInterface p = []
         \<and> DisableIPv6 p = boolOpt (opt m ''disableIPv6'') \<and> DisableUDP p = boolOpt (opt m ''disableUDP'')
         \<and> eo_dns eo = requested_dns req \<and> d_DisableIPv6 (eo_dns eo) = DisableIPv6 p
         \<and> (Dns_Validate (effective_dns engine (eo_dns eo)) engine = None \<or> engine = EngineMihomo \<and> 0 < eo_proxyPort eo)
         \<and> 0 \<le> eo_proxyPort eo
         \<and> (eo_geoAssetsDir eo = [] \<or> od_isAbs d (eo_geoAssetsDir eo)))"

lemma validate_tiers_all:
  "validate_tiers i ts = None \<longleftrightarrow>
     list_all (\<lambda>t. list_all (\<lambda>e. validateMatcher e = None) (Block t @ Direct t @ Proxy t)) ts"
  unfolding validate_tiers_None by (auto simp: list_all_iff)

lemma read_tiers_Inr:
  "read_tiers d raw p = Inr p' \<longleftrightarrow>
     (\<exists>ts rest. od_tiers d raw = Some (Some ts, rest) \<and> \<not> dec_More rest \<and> Profile_Validate (p\<lparr>Tiers := ts\<rparr>) = None \<and> p' = p\<lparr>Tiers := ts\<rparr>)"
  by (auto simp: read_tiers_def split: option.splits prod.splits)

lemma routingFromOpts_Inr:
  assumes "routingFromOpts d m = Inr p"
  shows "list_all (\<lambda>k. m k = None) legacyRuleKeys"
    and "if TrimSpace (opt m ''routingTiers'') = [] then Tiers p = []
         else \<exists>rest. od_tiers d (TrimSpace (opt m ''routingTiers'')) = Some (Some (Tiers p), rest) \<and> \<not> dec_More rest"
    and "list_all (\<lambda>t. list_all (\<lambda>e. validateMatcher e = None) (Block t @ Direct t @ Proxy t)) (Tiers p)"
    and "Mode p = opt m ''routingMode''" and "LocalNetworks p = boolOpt (opt m ''localNetworksDirect'')"
    and "DomainStrategy p = TrimSpace (opt m ''domainStrategy'')" and "DirectSendThrough p = [] \<and> DirectInterface p = []"
    and "DisableIPv6 p = boolOpt (opt m ''disableIPv6'')" and "DisableUDP p = boolOpt (opt m ''disableUDP'')"
  using assms
  by (auto simp: routingFromOpts_def read_tiers_Inr Profile_Validate_def validate_tiers_all find_None_iff list_all_iff Let_def
      split: option.splits if_splits)

lemma dnsFromRequest_Inr:
  assumes "dnsFromRequest req engine = Inr c"
  shows "c = requested_dns req \<and> (Dns_Validate (effective_dns engine c) engine = None
    \<or> engine = EngineMihomo \<and> 0 < proxyPortFromOpts (req_Opts req))"
  using assms by (auto simp: dnsFromRequest_def Let_def split: option.splits if_splits)

lemma requested_dns_IPv6: "d_DisableIPv6 (requested_dns req) = boolOpt (opt (req_Opts req) ''disableIPv6'')"
  by (simp add: requested_dns_def)

lemma proxyPort_nonneg: "0 \<le> proxyPortFromOpts m"
  by (simp add: proxyPortFromOpts_def split: option.split)

lemma geoAssetsDirOpt_abs: "geoAssetsDirOpt d s = [] \<or> od_isAbs d (geoAssetsDirOpt d s)"
  by (simp add: geoAssetsDirOpt_def Let_def)

lemma opts_from_honoured:
  assumes "optsFromRequest d req engine = Inr eo"
  shows "opts_honoured d req engine eo"
proof -
  obtain prof dns where p: "routingFromOpts d (req_Opts req) = Inr prof" and c: "dnsFromRequest req engine = Inr dns"
    and eo: "eo_routing eo = prof" "eo_dns eo = dns" "eo_proxyPort eo = proxyPortFromOpts (req_Opts req)"
      "eo_geoAssetsDir eo = geoAssetsDirOpt d (opt (req_Opts req) ''geoAssetsDir'')"
    using assms by (auto simp: optsFromRequest_def Let_def)
  show ?thesis
    unfolding opts_honoured_def Let_def eo
    using routingFromOpts_Inr [OF p] dnsFromRequest_Inr [OF c] proxyPort_nonneg
      geoAssetsDirOpt_abs [of d "opt (req_Opts req) ''geoAssetsDir''"]
    by (auto simp: requested_dns_IPv6)
qed


definition sample_option_deps :: option_deps where
  "sample_option_deps = \<lparr>od_url = (\<lambda>_. None), od_isAbs = (\<lambda>s. HasPrefix s ''/''),
     od_tiers = (\<lambda>_. Some (Some [\<lparr>Block = [''ads.example''], Direct = [], Proxy = []\<rparr>], []))\<rparr>"

definition sample_request :: EngineStartRequest where
  "sample_request = \<lparr>req_Config = [], req_TunFD = 3, req_DNS = ''1.1.1.1'', req_LogLevel = 0,
     req_Opts = [''routingTiers'' \<mapsto> ''[...]'', ''disableUDP'' \<mapsto> ''yes''], req_DNSConfig = None\<rparr>"


section \<open>One unit per link\<close>

lemma isInterfaceHeader_TrimSpace [simp]: "isInterfaceHeader (TrimSpace l) = isInterfaceHeader l"
  by (simp add: isInterfaceHeader_def)

text \<open>
  A request is either one raw AmneziaWG configuration, alone, or links: no unit handed to an engine is blank or framed by
  blanks, none of several is an interface header, and the links keep their order and their number.
\<close>

theorem splitEngineLinks_units:
  assumes "splitEngineLinks raw = Inr links"
  shows "links = [TrimSpace raw] \<and> length (filter isInterfaceHeader (splitLinks raw)) = 1
      \<and> \<not> list_ex (\<lambda>l. linkLinePattern (TrimSpace l)) (splitLinks raw)
    \<or> links = filter (\<lambda>l. l \<noteq> []) (map TrimSpace (splitLinks raw)) \<and> \<not> list_ex isInterfaceHeader links"
proof (cases "filter isInterfaceHeader (splitLinks raw) = []")
  case True
  then have "\<not> list_ex isInterfaceHeader (filter (\<lambda>l. l \<noteq> []) (map TrimSpace (splitLinks raw)))"
    by (auto simp: list_ex_iff filter_empty_conv)
  with True assms show ?thesis by (simp add: splitEngineLinks_def Let_def)
next
  case False
  with assms show ?thesis
    by (auto simp: splitEngineLinks_def Let_def Suc_le_eq split: if_splits intro: le_antisym)
qed

section \<open>Geo folders do not leak between sessions\<close>

text \<open>
  Whatever folders earlier sessions asked for, a session reads the geo lists from its own folder, and one that names
  none reads them from the folder set before any session overrode it.
\<close>

theorem geo_override_never_leaks:
  "geo_env (fold applyGeoAssetsDir dirs (g\<lparr>geo_overridden := False\<rparr>)) =
     (if dirs = [] \<or> last dirs = [] then geo_env g else last dirs)"
proof -
  define base where "base = geo_env g"
  have "let g' = fold applyGeoAssetsDir dirs (g\<lparr>geo_overridden := False\<rparr>)
    in (geo_overridden g' \<longrightarrow> geo_saved g' = base) \<and> (\<not> geo_overridden g' \<longrightarrow> geo_env g' = base)
       \<and> (dirs \<noteq> [] \<longrightarrow> geo_overridden g' = (last dirs \<noteq> []) \<and> (last dirs \<noteq> [] \<longrightarrow> geo_env g' = last dirs))
       \<and> (dirs = [] \<longrightarrow> \<not> geo_overridden g')"
  proof (induction dirs rule: rev_induct)
    case Nil
    show ?case by (simp add: base_def)
  next
    case (snoc dir dirs)
    then show ?case by (auto simp: applyGeoAssetsDir_def Let_def)
  qed
  then show ?thesis by (auto simp: Let_def base_def)
qed

text \<open>
  A session that starts reads lists of its own folder: xray's caches hold that folder's lists, or the start failed, and
  mihomo's home is the folder named, which exists or is already in use.
\<close>

theorem geo_lists_current:
  "dropXrayGeoMatchersOnFolderChange ok (applyGeoAssetsDir dir g) = Some g' \<Longrightarrow> xrayGeoFolder g' = geo_env g'"
  "ensureMihomoHome isDir dir g = Some g' \<Longrightarrow> TrimSpace dir \<noteq> [] \<Longrightarrow> mihomoHomeDir g' = TrimSpace dir"
  by (auto simp: dropXrayGeoMatchersOnFolderChange_def ensureMihomoHome_def Let_def split: if_splits)

end
