(* ===== verification/Traffic_Stats.thy ===== *)
theory Traffic_Stats
  imports Machines Prelude "HOL-Library.Word"
begin

text \<open>
  Traffic counts: what mihomo's session reports as proxied (\<^verbatim>\<open>src/internal/core/engine_mihomo_traffic.go\<close>), the sum over
  xray's outbounds (\<^verbatim>\<open>xray.go\<close>) and the outbound in use that the growth of its counters gives away
  (\<^verbatim>\<open>xray_selection.go\<close>).

  mihomo's byte counts are \<^verbatim>\<open>int64\<close> and are taken not to reach their bound; xray's are kept at 64 bits. The bytes of the
  two directions never meet, so one direction of \<^verbatim>\<open>mihomoTraffic\<close> is a \<open>lane\<close>.
\<close>

section \<open>Proxied bytes of a mihomo session\<close>

text \<open>
  The last four fields are not in the program: direct bytes counted that the manager's total has yet to see, those it saw
  since the session's base was read, the bytes really proxied since then, and the direct bytes the reset forgot.
\<close>

record lane =
  l_total :: int  \<comment> \<open>of mihomo's manager\<close>
  l_direct :: int
  l_base :: int
  l_shown :: int
  l_starting :: bool  \<comment> \<open>\<^verbatim>\<open>startSession\<close> holds the lock\<close>
  l_pending :: int
  l_seen :: int
  l_proxied :: int
  l_forgotten :: int

definition no_lane :: lane where
  "no_lane = \<lparr>l_total = 0, l_direct = 0, l_base = 0, l_shown = 0, l_starting = False, l_pending = 0, l_seen = 0,
     l_proxied = 0, l_forgotten = 0\<rparr>"

definition startSession_base :: "lane \<Rightarrow> lane" where
  "startSession_base l = l\<lparr>l_base := l_total l, l_starting := True, l_seen := 0, l_proxied := 0\<rparr>"

definition startSession_reset :: "lane \<Rightarrow> lane" where
  "startSession_reset l =
     l\<lparr>l_direct := 0, l_shown := 0, l_starting := False, l_forgotten := l_pending l + l_seen l\<rparr>"

definition proxied :: "lane \<Rightarrow> lane" where
  "proxied l = l\<lparr>l_shown := max (l_shown l) (max (l_total l - (l_base l + l_direct l)) 0)\<rparr>"

definition count_direct :: "int \<Rightarrow> lane \<Rightarrow> lane" where
  "count_direct n l = l\<lparr>l_direct := l_direct l + n, l_pending := l_pending l + n\<rparr>"

text \<open>
  A session's start in its two steps, a report, and the chunks: a DIRECT connection counts one as it moves it, and the
  manager's total sees it later; a proxied one only reaches the total.
\<close>

datatype traffic_action = Base | Reset | Report | DirectChunk int | TotalSeesDirect int | ProxiedChunk int

fun exec_traffic :: "traffic_action \<Rightarrow> lane \<Rightarrow> lane option" where
  "exec_traffic Base l = (if l_starting l then None else Some (startSession_base l))"
| "exec_traffic Reset l = (if l_starting l then Some (startSession_reset l) else None)"
| "exec_traffic Report l = (if l_starting l then None else Some (proxied l))"
| "exec_traffic (DirectChunk n) l = (if 0 \<le> n then Some (count_direct n l) else None)"
| "exec_traffic (TotalSeesDirect n) l =
     (if 0 \<le> n \<and> n \<le> l_pending l
      then Some (l\<lparr>l_total := l_total l + n, l_pending := l_pending l - n, l_seen := l_seen l + n\<rparr>) else None)"
| "exec_traffic (ProxiedChunk n) l =
     (if 0 \<le> n then Some (l\<lparr>l_total := l_total l + n, l_proxied := l_proxied l + n\<rparr>) else None)"

definition traffic_trans :: "lane \<Rightarrow> lane \<Rightarrow> bool" where
  "traffic_trans l l' \<longleftrightarrow> (\<exists>a. exec_traffic a l = Some l')"

interpretation traffic: machine exec_traffic no_lane traffic_trans
  by unfold_locales (auto simp: traffic_trans_def)

definition inv_lane :: "lane \<Rightarrow> bool" where
  "inv_lane l \<longleftrightarrow> 0 \<le> l_pending l \<and> 0 \<le> l_seen l \<and> 0 \<le> l_proxied l \<and>
     (if l_starting l then l_total l - l_base l = l_proxied l + l_seen l
      else l_total l - l_base l = l_proxied l + l_forgotten l + l_direct l - l_pending l
           \<and> 0 \<le> l_shown l \<and> 0 \<le> l_forgotten l \<and> l_shown l \<le> l_proxied l + l_forgotten l)"

lemma inv_lane_step: "inv_lane l \<Longrightarrow> exec_traffic a l = Some l' \<Longrightarrow> inv_lane l'"
  by (cases a)
    (auto simp: inv_lane_def startSession_base_def startSession_reset_def proxied_def count_direct_def split: if_splits)

lemma inv_lane_reaches: "reaches exec_traffic no_lane l \<Longrightarrow> inv_lane l"
proof (induction rule: traffic.invariant)
  case init
  show ?case by (simp add: inv_lane_def no_lane_def)
next
  case (step s s')
  then show ?case by (auto simp: traffic_trans_def intro: inv_lane_step)
qed

text \<open>
  C22. In every interleaving of connections and reports, what a session reports as proxied never shrinks and never exceeds
  the bytes proxied since it began by more than the DIRECT bytes in flight while it began; and a report made with no
  DIRECT chunk in flight misses nothing.
\<close>

theorem proxied_report_exact:
  assumes "reaches exec_traffic no_lane l" "\<not> l_starting l"
  shows "\<exists>l'. exec_traffic Report l = Some l' \<and> l_shown l \<le> l_shown l' \<and> l_shown l' \<le> l_proxied l + l_forgotten l
    \<and> l_proxied l + l_forgotten l - l_pending l \<le> l_shown l'"
  using inv_lane_reaches [OF assms(1)] assms(2) by (auto simp: inv_lane_def proxied_def max_def)

theorem proxied_report_exact_witness:
  "\<exists>l l'. run exec_traffic [DirectChunk 5, TotalSeesDirect 5, Base, Reset, ProxiedChunk 7, DirectChunk 3, Report, TotalSeesDirect 3] no_lane
      = Some l \<and> l_shown l = 4 \<and> exec_traffic Report l = Some l' \<and> l_shown l' = 7"
proof -
  let ?as = "[DirectChunk 5, TotalSeesDirect 5, Base, Reset, ProxiedChunk 7, DirectChunk 3, Report, TotalSeesDirect 3]"
  obtain l where r: "run exec_traffic ?as no_lane = Some l" and l: "l_shown l = 4" "l_proxied l = 7" "l_forgotten l = 0"
    "l_pending l = 0" "\<not> l_starting l"
    by (simp add: no_lane_def startSession_base_def startSession_reset_def proxied_def count_direct_def)
  from proxied_report_exact [OF run_reaches [OF r] l(5)] r l show ?thesis by auto
qed

section \<open>Counters of xray's outbounds\<close>

text \<open>The statistics manager: the value of a counter, if it exists.\<close>

type_synonym statsSource = "string \<Rightarrow> int option"

definition counter_value :: "statsSource \<Rightarrow> string \<Rightarrow> 64 word" where
  "counter_value src name = (case src name of None \<Rightarrow> 0 | Some v \<Rightarrow> word_of_int v)"

definition outboundTraffic :: "statsSource \<Rightarrow> string \<Rightarrow> 64 word \<times> 64 word" where
  "outboundTraffic src tag =
     (counter_value src (''outbound>>>'' @ tag @ ''>>>traffic>>>uplink''),
      counter_value src (''outbound>>>'' @ tag @ ''>>>traffic>>>downlink''))"

definition tagTraffic :: "statsSource \<Rightarrow> string list \<Rightarrow> 64 word list" where
  "tagTraffic src tags = map (\<lambda>t. case outboundTraffic src t of (up, down) \<Rightarrow> up + down) tags"

definition sumOutboundTraffic :: "statsSource \<Rightarrow> string list \<Rightarrow> 64 word \<times> 64 word" where
  "sumOutboundTraffic src tags0 =
     (let tags = (if tags0 = [] then [''proxy''] else tags0)
      in fold (\<lambda>t (rx, tx). case outboundTraffic src t of (up, down) \<Rightarrow> (rx + down, tx + up)) tags (0, 0))"

section \<open>The outbound in use\<close>

definition minTagTrafficDelta :: "64 word" where "minTagTrafficDelta = 32 * 1024"
definition tagTrafficLead :: "64 word" where "tagTrafficLead = 2"

definition traffic_delta :: "64 word \<Rightarrow> 64 word \<Rightarrow> 64 word" where
  "traffic_delta prev cur = (if prev \<le> cur then cur - prev else 0)"

text \<open>The pass over the deltas: the best index, if any, its delta and the runner-up's.\<close>

fun pick_best :: "nat \<Rightarrow> 64 word list \<Rightarrow> nat option \<times> 64 word \<times> 64 word \<Rightarrow> nat option \<times> 64 word \<times> 64 word" where
  "pick_best i [] acc = acc"
| "pick_best i (delta # ds) (best, bestDelta, runnerUp) =
     pick_best (Suc i) ds
       (if bestDelta < delta then (Some i, delta, bestDelta)
        else if runnerUp < delta then (best, bestDelta, delta)
        else (best, bestDelta, runnerUp))"

definition picked :: "64 word list \<Rightarrow> nat option" where
  "picked deltas = (case pick_best 0 deltas (None, 0, 0) of (best, bestDelta, runnerUp) \<Rightarrow>
     if bestDelta < minTagTrafficDelta \<or> bestDelta < runnerUp * tagTrafficLead then None else best)"

text \<open>The picker keeps the counts of its last call, none before the first.\<close>

definition tagTrafficPickerFrom :: "64 word list \<Rightarrow> 64 word list option \<Rightarrow> nat option \<times> 64 word list option" where
  "tagTrafficPickerFrom cur prev = (case prev of
     None \<Rightarrow> (None, Some cur)
   | Some p \<Rightarrow> (picked (map2 traffic_delta p cur), Some cur))"

text \<open>The best and the runner-up of the pass: the largest delta at its first place, and the largest of the others.\<close>

definition best_ok :: "64 word list \<Rightarrow> nat option \<times> 64 word \<times> 64 word \<Rightarrow> bool" where
  "best_ok ds acc \<longleftrightarrow> (case acc of (best, b, r) \<Rightarrow>
     (case best of
        None \<Rightarrow> b = 0 \<and> r = 0 \<and> (\<forall>d \<in> set ds. d = 0)
      | Some i \<Rightarrow> i < length ds \<and> ds ! i = b \<and> 0 < b \<and> r \<le> b
           \<and> (\<forall>j < length ds. j \<noteq> i \<longrightarrow> ds ! j \<le> r) \<and> (r = 0 \<or> (\<exists>j < length ds. j \<noteq> i \<and> ds ! j = r))))"

lemma best_ok_None [simp]: "best_ok ds (None, b, r) \<longleftrightarrow> b = 0 \<and> r = 0 \<and> (\<forall>d \<in> set ds. d = 0)"
  by (simp add: best_ok_def)

lemma best_ok_Some: "best_ok ds (Some i, b, r) \<longleftrightarrow> i < length ds \<and> ds ! i = b \<and> 0 < b \<and> r \<le> b
    \<and> (\<forall>j < length ds. j \<noteq> i \<longrightarrow> ds ! j \<le> r) \<and> (r = 0 \<or> (\<exists>j < length ds. j \<noteq> i \<and> ds ! j = r))"
  by (simp add: best_ok_def)

lemma best_ok_new:
  assumes "best_ok ds (best, b, r)" "b < d"
  shows "best_ok (ds @ [d]) (Some (length ds), d, b)"
proof -
  have top: "ds ! j \<le> b" if "j < length ds" for j
  proof (cases best)
    case None
    with assms(1) that show ?thesis by simp
  next
    case (Some i)
    with assms(1) have "r \<le> b" "ds ! i = b" "j \<noteq> i \<Longrightarrow> ds ! j \<le> r" using that by (simp_all add: best_ok_Some)
    then show ?thesis by (cases "j = i") (auto intro: order_trans)
  qed
  have ex: "b = 0 \<or> (\<exists>j < length ds. ds ! j = b)"
    using assms(1) by (cases best) (auto simp: best_ok_Some)
  have "0 < d" using assms(2) order_le_less_trans word_zero_le by blast
  show ?thesis
    unfolding best_ok_Some
  proof (intro conjI)
    show "b = 0 \<or> (\<exists>j < length (ds @ [d]). j \<noteq> length ds \<and> (ds @ [d]) ! j = b)"
      using ex by (auto simp: nth_append intro: less_SucI)
  qed (use assms(2) top \<open>0 < d\<close> in \<open>auto simp: nth_append less_Suc_eq\<close>)
qed

lemma best_ok_keep:
  assumes "best_ok ds (Some i, b, r)" "d \<le> b"
  shows "best_ok (ds @ [d]) (Some i, b, if r < d then d else r)"
proof -
  let ?r = "if r < d then d else r"
  from assms(1) have i: "i < length ds" "ds ! i = b" "0 < b" "r \<le> b" "\<And>j. j < length ds \<Longrightarrow> j \<noteq> i \<Longrightarrow> ds ! j \<le> r"
    and ex: "r = 0 \<or> (\<exists>j < length ds. j \<noteq> i \<and> ds ! j = r)"
    by (auto simp: best_ok_Some)
  have r: "r \<le> ?r" "d \<le> ?r" "?r \<le> b" using assms(2) i(4) by auto
  have "(ds @ [d]) ! j \<le> ?r" if "j < length (ds @ [d])" "j \<noteq> i" for j
    using that i(5) [of j] r by (cases "j < length ds") (auto simp: nth_append less_Suc_eq)
  moreover have "?r = 0 \<or> (\<exists>j < length (ds @ [d]). j \<noteq> i \<and> (ds @ [d]) ! j = ?r)"
  proof (cases "r < d")
    case True
    with i(1) show ?thesis by (intro disjI2 exI [of _ "length ds"]) simp
  next
    case False
    with ex show ?thesis by (auto simp: nth_append intro: less_SucI)
  qed
  ultimately show ?thesis
    unfolding best_ok_Some using i(1-3) r(3) by (auto simp: nth_append)
qed

lemma best_ok_step:
  assumes "best_ok ds (best, b, r)"
  shows "best_ok (ds @ [d])
    (if b < d then (Some (length ds), d, b) else if r < d then (best, b, d) else (best, b, r))"
proof (cases "b < d")
  case True
  with best_ok_new [OF assms] show ?thesis by simp
next
  case False
  show ?thesis
  proof (cases best)
    case None
    with assms False show ?thesis by (simp add: word_gt_0)
  next
    case (Some i)
    have "d \<le> b" using False by simp
    from best_ok_keep [OF assms [unfolded Some] this] False Some show ?thesis by (cases "r < d") simp_all
  qed
qed

lemma pick_best_ok: "best_ok ds acc \<Longrightarrow> best_ok (ds @ es) (pick_best (length ds) es acc)"
proof (induction es arbitrary: ds acc)
  case (Cons e es)
  obtain best b r where acc: "acc = (best, b, r)" by (cases acc)
  from Cons.IH [OF best_ok_step [OF Cons.prems [unfolded acc], of e]] show ?case
    by (simp only: acc pick_best.simps length_append_singleton append_assoc append.simps)
qed simp

lemma pick_best_all: "best_ok ds (pick_best 0 ds (None, 0, 0))"
  using pick_best_ok [of "[]" "(None, 0, 0)" ds] by (simp add: best_ok_def)

lemma double_word: "(d :: 64 word) < 2 ^ 63 \<Longrightarrow> unat (d * 2) = unat d * 2"
  by (subst unat_mult_lem [THEN iffD1]) (simp_all add: word_less_nat_alt)

lemma double_mono: "(d :: 64 word) \<le> e \<Longrightarrow> e < 2 ^ 63 \<Longrightarrow> d * 2 \<le> e * 2"
  using double_word [of d] double_word [of e] by (simp add: word_le_nat_alt word_less_nat_alt)

lemma double_self: "(d :: 64 word) < 2 ^ 63 \<Longrightarrow> 0 < d \<Longrightarrow> \<not> d * 2 \<le> d"
  using double_word [of d] by (simp add: word_le_nat_alt word_less_nat_alt unat_gt_0)

text \<open>
  The picker names an outbound exactly when it stands out: its counters grew by at least 32 KiB since the last poll and
  by at least twice what any other's grew. (Growth is below \<open>2\<^sup>6\<^sup>3\<close> bytes, so that doubling it does not wrap.)
\<close>

theorem picked_stands_out:
  assumes "\<forall>d \<in> set ds. d < 2 ^ 63"
  shows "picked ds = Some i \<longleftrightarrow>
    i < length ds \<and> minTagTrafficDelta \<le> ds ! i \<and> (\<forall>j < length ds. j \<noteq> i \<longrightarrow> ds ! j * tagTrafficLead \<le> ds ! i)"
proof -
  obtain best b r where p: "pick_best 0 ds (None, 0, 0) = (best, b, r)" by (cases "pick_best 0 ds (None, 0, 0)")
  then have ok: "best_ok ds (best, b, r)" using pick_best_all [of ds] by simp
  have pos: "0 < minTagTrafficDelta" by (simp add: minTagTrafficDelta_def)
  have small: "\<And>j. j < length ds \<Longrightarrow> ds ! j < 2 ^ 63" using assms by simp
  show ?thesis
  proof (cases best)
    case None
    with ok have z: "\<And>j. j < length ds \<Longrightarrow> ds ! j = 0" and b: "b = 0" by simp_all
    show ?thesis using pos z [of i] by (auto simp: picked_def p b None)
  next
    case (Some k)
    note k = ok [unfolded Some best_ok_Some]
    have r: "r < 2 ^ 63" using k small by (cases "r = 0") auto
    have others: "ds ! j * 2 \<le> r * 2" if "j < length ds" "j \<noteq> k" for j
      using k that by (intro double_mono [OF _ r]) blast
    have lead: "(\<forall>j < length ds. j \<noteq> k \<longrightarrow> ds ! j * 2 \<le> b) \<longleftrightarrow> r * 2 \<le> b"
    proof
      assume "\<forall>j < length ds. j \<noteq> k \<longrightarrow> ds ! j * 2 \<le> b"
      with k show "r * 2 \<le> b" by (cases "r = 0") auto
    next
      assume "r * 2 \<le> b"
      with others show "\<forall>j < length ds. j \<noteq> k \<longrightarrow> ds ! j * 2 \<le> b" by (blast intro: order_trans)
    qed
    have only: "i = k" if "i < length ds" "minTagTrafficDelta \<le> ds ! i" "\<forall>j < length ds. j \<noteq> i \<longrightarrow> ds ! j * 2 \<le> ds ! i"
    proof (rule ccontr)
      assume "i \<noteq> k"
      then have "b * 2 \<le> ds ! i" "ds ! i \<le> r" "r \<le> b" using that k by auto
      then have "b * 2 \<le> b" by (blast intro: order_trans)
      moreover have "b < 2 ^ 63" "0 < b" using k small by auto
      ultimately show False using double_self by blast
    qed
    have eq: "picked ds = Some i \<longleftrightarrow> i = k \<and> minTagTrafficDelta \<le> b \<and> r * 2 \<le> b"
      by (auto simp: picked_def p Some tagTrafficLead_def not_less)
    show ?thesis
      unfolding tagTrafficLead_def eq using only lead k by metis
  qed
qed

theorem picked_stands_out_witness:
  "picked [10, 70000, 20000] = Some 1 \<and> picked [10, 70000, 40000] = None"
proof -
  have "picked [10, 70000, 20000] = Some 1"
    using picked_stands_out [of "[10, 70000, 20000]" 1]
    by (simp add: All_less_Suc minTagTrafficDelta_def tagTrafficLead_def)
  moreover have "picked [10, 70000, 40000] = None" by code_simp
  ultimately show ?thesis by simp
qed

end
