(* ===== verification/Xray_Outbounds.thy ===== *)
theory Xray_Outbounds
  imports Xray_Routing Share_Links "HOL-Library.Word"
begin

text \<open>
  xray outbounds from share links, and the configuration they go into: \<^verbatim>\<open>src/internal/xrayconfig/xrayconfig.go\<close>,
  \<^verbatim>\<open>vmess.go\<close>, \<^verbatim>\<open>transportsecurity.go\<close>, \<^verbatim>\<open>notcarried.go\<close>, \<^verbatim>\<open>tuning.go\<close> and \<^verbatim>\<open>loglevel.go\<close>.

  What the package asks of others is the record \<open>xray_deps\<close>, with nothing assumed of it: the URL and JSON readers, the
  check of an encryption key, the resolver, and xray's address parser and private-address lists.
\<close>

section \<open>Dependencies and results\<close>

record xray_deps =
  d_url :: url_parser
  d_json :: json_parser
  d_key :: "string \<Rightarrow> bool"
  d_lookup :: "string \<Rightarrow> string option"  \<comment> \<open>the first IPv4 of a name, as text\<close>
  d_address :: "string \<Rightarrow> nat list option"  \<comment> \<open>the address \<^verbatim>\<open>ParseAddress\<close> reads, None for a name\<close>
  d_private_ip :: "nat list \<Rightarrow> bool"
  d_private_name :: "string \<Rightarrow> bool"

text \<open>A link is refused for good, or because xray lacks something another engine may have.\<close>

datatype xray_error = Refused link_error | NotCarried string string

type_synonym gap = "(string \<times> string) option"

section \<open>Transport security\<close>

definition ssCiphers :: "string list" where
  "ssCiphers =
     [''aes-128-gcm'', ''aead_aes_128_gcm'', ''aes-256-gcm'', ''aead_aes_256_gcm'',
      ''chacha20-poly1305'', ''aead_chacha20_poly1305'', ''chacha20-ietf-poly1305'',
      ''xchacha20-poly1305'', ''aead_xchacha20_poly1305'', ''xchacha20-ietf-poly1305'',
      ''2022-blake3-aes-128-gcm'', ''2022-blake3-aes-256-gcm'', ''2022-blake3-chacha20-poly1305'']"

definition checkSSCipher :: "string \<Rightarrow> link_error + unit" where
  "checkSSCipher method = require (ToLower method \<in> set ssCiphers) (Unsupported ''method'' method)"

definition isPublicHost :: "xray_deps \<Rightarrow> string \<Rightarrow> bool" where
  "isPublicHost d host = (case d_address d host of
     Some ip \<Rightarrow> \<not> d_private_ip d ip
   | None \<Rightarrow> \<not> d_private_name d (TrimSuffix (ToLower host) ''.''))"

definition requireTransportSecurity :: "xray_deps \<Rightarrow> string \<Rightarrow> string \<Rightarrow> bool \<Rightarrow> link_error + unit" where
  "requireTransportSecurity d protocol address secured =
     require (secured \<or> \<not> isPublicHost d address) (Unsupported ''in the clear'' protocol)"

definition preResolveIPv4 :: "xray_deps \<Rightarrow> string \<Rightarrow> string" where
  "preResolveIPv4 d host =
     (if ParseIP host \<noteq> None then host
      else (case d_lookup d host of Some ip \<Rightarrow> ip | None \<Rightarrow> host))"

section \<open>Stream settings\<close>

definition stream_transport :: "string \<Rightarrow> url_values \<Rightarrow> StreamConfig \<times> gap" where
  "stream_transport host q =
     (let network = ToLower (TrimSpace (q ''type''));
          origin = (if q ''host'' \<noteq> [] then q ''host'' else host)
      in if network \<in> set [''tcp'', ''raw'', []] then
           (let header = ToLower (q ''headerType'')
            in (no_stream\<lparr>st_Network := Some ''tcp''\<rparr>,
                if header \<noteq> [] \<and> header \<noteq> ''none'' then Some (''tcp header'', header) else None))
         else if network \<in> set [''ws'', ''websocket''] then
           (no_stream\<lparr>st_Network := Some ''websocket'',
              st_WSSettings := Some \<lparr>ws_Path = q ''path'', ws_Host = origin\<rparr>\<rparr>, None)
         else if network = ''grpc'' then
           (no_stream\<lparr>st_Network := Some ''grpc'', st_GRPCServiceName := Some (q ''serviceName'')\<rparr>, None)
         else if network = ''httpupgrade'' then
           (no_stream\<lparr>st_Network := Some ''httpupgrade'',
              st_HTTPUPGRADESettings := Some \<lparr>hu_Path = q ''path'', hu_Host = q ''host''\<rparr>\<rparr>, None)
         else if network \<in> set [''xhttp'', ''splithttp''] then
           (no_stream\<lparr>st_Network := Some ''xhttp'',
              st_XHTTPSettings := Some \<lparr>xh_Path = q ''path'', xh_Mode = q ''mode'',
                xh_Extra = (if q ''extra'' \<noteq> [] then QueryUnescape (q ''extra'') else None), xh_Host = origin\<rparr>\<rparr>, None)
         else (no_stream, Some (''transport'', network)))"

definition tls_name :: "string \<Rightarrow> url_values \<Rightarrow> StreamConfig \<Rightarrow> string" where
  "tls_name host q stream =
     (let ws = (case st_WSSettings stream of Some w \<Rightarrow> ws_Host w | None \<Rightarrow> []);
          name = (if q ''sni'' \<noteq> [] then q ''sni'' else if ws \<noteq> [] then ws
                  else if q ''host'' \<noteq> [] then q ''host'' else host)
      in if name = [] then q ''host'' else name)"

definition tls_settings :: "string \<Rightarrow> url_values \<Rightarrow> StreamConfig \<Rightarrow> TLSConfig" where
  "tls_settings host q stream =
     \<lparr>tls_ServerName = tls_name host q stream,
      tls_ALPN = (if q ''alpn'' \<noteq> [] then Some (Split (q ''alpn'') CHR '','') else None),
      tls_Fingerprint = q ''fp'',
      tls_PinnedPeerCertSha256 = TrimSpace (q ''pcs''),
      tls_VerifyPeerCertByName = TrimSpace (q ''vcn''),
      tls_ECHConfigList = []\<rparr>"

definition reality_settings :: "url_values \<Rightarrow> REALITYConfig" where
  "reality_settings q = \<lparr>re_ServerName = q ''sni'', re_PublicKey = q ''pbk'', re_ShortId = q ''sid'', re_SpiderX = q ''spx'',
     re_Fingerprint = q ''fp''\<rparr>"

definition stream_security :: "string \<Rightarrow> url_values \<Rightarrow> StreamConfig \<Rightarrow> link_error + StreamConfig" where
  "stream_security host q stream =
     (let security = ToLower (TrimSpace (q ''security''))
      in if security = [] \<or> security = ''none'' then Inr stream
         else if security = ''tls'' then
           and_then (require (\<not> SkipsVerification q) (Unsupported ''certificate'' ''skipped'')) (\<lambda>_.
             Inr (stream\<lparr>st_Security := ''tls'', st_TLSSettings := Some (tls_settings host q stream)\<rparr>))
         else if security = ''reality'' then
           Inr (stream\<lparr>st_Security := ''reality'', st_REALITYSettings := Some (reality_settings q)\<rparr>)
         else Inl (Unsupported ''security'' security))"

definition keep_alive :: SocketConfig where
  "keep_alive = no_socket\<lparr>so_TCPKeepAliveInterval := 15\<rparr>"

definition buildStreamSettings :: "string \<Rightarrow> url_values \<Rightarrow> link_error + (StreamConfig \<times> gap)" where
  "buildStreamSettings host q =
     (case stream_transport host q of (stream, gap) \<Rightarrow>
        and_then (stream_security host q stream) (\<lambda>stream. Inr (stream\<lparr>st_SocketSettings := Some keep_alive\<rparr>, gap)))"

section \<open>Outbounds\<close>

type_synonym built = "OutboundDetourConfig \<times> string \<times> string"

fun refuse :: "link_error + 'a \<Rightarrow> xray_error + 'a" where
  "refuse (Inl e) = Inl (Refused e)"
| "refuse (Inr x) = Inr x"

definition carried :: "gap \<Rightarrow> xray_error + unit" where
  "carried gap = (case gap of None \<Rightarrow> Inr () | Some (kind, what) \<Rightarrow> Inl (NotCarried kind what))"

definition link_port :: "string \<Rightarrow> nat" where
  "link_port s = (case Atoi s of Some p \<Rightarrow> if 0 < p \<and> p \<le> 65535 then nat p else 0 | None \<Rightarrow> 0)"

definition outbound_of :: "string \<Rightarrow> string \<Rightarrow> outbound_settings \<Rightarrow> StreamConfig \<Rightarrow> OutboundDetourConfig" where
  "outbound_of protocol tag settings stream =
     no_outbound\<lparr>ob_Protocol := protocol, ob_Tag := tag, ob_Settings := settings, ob_StreamSetting := Some stream\<rparr>"

definition outboundFromVLESS :: "xray_deps \<Rightarrow> URL \<Rightarrow> string \<Rightarrow> xray_error + built" where
  "outboundFromVLESS d u tag =
     (let userID = Username u; host = u_Hostname u; port = link_port (u_Port u); q = u_Query u;
          flow = TrimSpace (q ''flow''); addr = preResolveIPv4 d host
      in and_then (refuse (require (\<not> (userID = [] \<or> host = [] \<or> port = 0)) BadLink)) (\<lambda>_.
         and_then (refuse (buildStreamSettings host q)) (\<lambda>(stream, gap).
         and_then (refuse (or_fail BadEncryption (Normalize_encryption (d_key d) (q ''encryption'')))) (\<lambda>enc.
         and_then (refuse (requireTransportSecurity d ''vless'' addr (st_Security stream \<noteq> [] \<or> enc \<noteq> NoEncryption))) (\<lambda>_.
         and_then (carried gap) (\<lambda>_.
           Inr (outbound_of ''vless'' tag
                  (VLessSettings addr port userID enc (if flow \<noteq> [] then Some flow else None)) stream, host, addr)))))))"

definition outboundFromTrojan :: "xray_deps \<Rightarrow> URL \<Rightarrow> string \<Rightarrow> xray_error + built" where
  "outboundFromTrojan d u tag =
     (let password = Username u; host = u_Hostname u; port = link_port (u_Port u);
          s = ToLower (TrimSpace (u_Query u ''security''));
          q = (u_Query u)(''security'' := if s \<noteq> ''tls'' \<and> s \<noteq> ''reality'' then ''tls'' else s);
          addr = preResolveIPv4 d host
      in and_then (refuse (require (\<not> (password = [] \<or> host = [] \<or> port = 0)) BadLink)) (\<lambda>_.
         and_then (refuse (buildStreamSettings host q)) (\<lambda>(stream, gap).
         and_then (carried gap) (\<lambda>_.
           Inr (outbound_of ''trojan'' tag (TrojanSettings addr port password) stream, host, addr)))))"

definition padBase64 :: "string \<Rightarrow> string" where
  "padBase64 s = (let m = length s mod 4 in if m \<noteq> 0 then s @ replicate (4 - m) CHR ''='' else s)"

definition tryDecodeBase64 :: "string \<Rightarrow> string option" where
  "tryDecodeBase64 s =
     or_else (b64_DecodeString url_alphabet False s)
       (or_else (b64_DecodeString url_alphabet True (padBase64 s)) (b64_DecodeString std_alphabet True (padBase64 s)))"

text \<open>Method, password, host and port of a link.\<close>

definition ss_payload :: "string \<Rightarrow> link_error + (string \<times> string \<times> string \<times> nat)" where
  "ss_payload text =
     (let raw = takeWhile (\<lambda>c. c \<noteq> CHR ''?'') (takeWhile (\<lambda>c. c \<noteq> CHR ''#'') (TrimPrefix text ''ss://''))
      in and_then (or_fail BadLink (tryDecodeBase64 raw)) (\<lambda>decoded.
         and_then (or_fail BadLink (LastIndexByte decoded CHR ''@'')) (\<lambda>at.
         and_then (require (0 < at) BadLink) (\<lambda>_.
         and_then (or_fail BadLink (IndexByte (take at decoded) CHR '':'')) (\<lambda>col.
         and_then (require (0 < col) BadLink) (\<lambda>_.
         and_then (or_fail BadLink (SplitHostPort (drop (at + 1) decoded))) (\<lambda>(host, port).
           Inr (take col (take at decoded), drop (col + 1) (take at decoded), host, link_port port))))))))"

definition ss_fields :: "URL \<Rightarrow> link_error + (string \<times> string \<times> string \<times> nat)" where
  "ss_fields u =
     (if u_User u \<noteq> None \<and> u_Hostname u \<noteq> [] \<and> u_Port u \<noteq> [] then
        (let (method, password) =
           (case Password u of
              Some pw \<Rightarrow> (Username u, pw)
            | None \<Rightarrow> (case tryDecodeBase64 (Username u) of
                Some decoded \<Rightarrow> (case Cut decoded CHR '':'' of (m, p, _) \<Rightarrow> (m, p))
              | None \<Rightarrow> (Username u, [])))
         in Inr (method, password, u_Hostname u, link_port (u_Port u)))
      else ss_payload (u_Text u))"

definition outboundFromSS :: "xray_deps \<Rightarrow> URL \<Rightarrow> string \<Rightarrow> xray_error + built" where
  "outboundFromSS d u tag =
     and_then (refuse (ss_fields u)) (\<lambda>(method, password, host, port).
     and_then (refuse (require (\<not> (method = [] \<or> password = [] \<or> host = [] \<or> port = 0)) BadLink)) (\<lambda>_.
     and_then (refuse (checkSSCipher method)) (\<lambda>_.
       Inr (outbound_of ''shadowsocks'' tag (ShadowsocksSettings host port method password)
              (no_stream\<lparr>st_SocketSettings := Some keep_alive\<rparr>), host, preResolveIPv4 d host))))"

definition xray_vmessCiphers :: "string list" where
  "xray_vmessCiphers = [''auto'', ''aes-128-gcm'', ''chacha20-poly1305'']"

definition vmess_ech :: "url_values \<Rightarrow> StreamConfig \<Rightarrow> link_error + StreamConfig" where
  "vmess_ech q stream = (case st_TLSSettings stream of
     None \<Rightarrow> Inr stream
   | Some tls \<Rightarrow>
       (let ech = TrimSpace (q ''ech''); s = ToLower ech
        in if s \<in> set [[], ''0'', ''false''] then Inr stream
           else if s \<in> set [''1'', ''true''] then Inl BadEch
           else Inr (stream\<lparr>st_TLSSettings := Some (tls\<lparr>tls_ECHConfigList := ech\<rparr>)\<rparr>)))"

definition outboundFromVMess :: "xray_deps \<Rightarrow> string \<Rightarrow> string \<Rightarrow> xray_error + built" where
  "outboundFromVMess d link tag =
     (case vmess_Parse (d_url d) (d_json d) link of (l, errs) \<Rightarrow>
        let cipher = ToLower (vl_Cipher l); q = vl_Params l; addr = preResolveIPv4 d (vl_Host l)
        in and_then (refuse (require (errs = []) BadLink)) (\<lambda>_.
           and_then (refuse (require (\<not> (vl_ID l = [] \<or> vl_Host l = [])) MissingHost)) (\<lambda>_.
           and_then (refuse (require (cipher \<in> set xray_vmessCiphers) (Unsupported ''cipher'' (vl_Cipher l)))) (\<lambda>_.
           and_then (refuse (require (ToLower (TrimSpace (q ''security'')) \<noteq> ''reality'') (Unsupported ''security'' ''reality'')))
             (\<lambda>_.
           and_then (refuse (buildStreamSettings (vl_Host l) q)) (\<lambda>(stream, streamGap).
           and_then (refuse (vmess_ech q stream)) (\<lambda>stream.
           and_then (carried (if 0 < vl_AlterID l then Some (''alterId'', itoa (vl_AlterID l)) else streamGap)) (\<lambda>_.
             Inr (outbound_of ''vmess'' tag (VMessSettings addr (nat (vl_Port l)) (vl_ID l) cipher) stream,
                  vl_Host l, addr)))))))))"

definition outboundFromLink :: "xray_deps \<Rightarrow> string \<Rightarrow> string \<Rightarrow> xray_error + built" where
  "outboundFromLink d link tag =
     (if IsLink link then outboundFromVMess d link tag
      else and_then (refuse (or_fail MalformedLink (d_url d link))) (\<lambda>u.
        let scheme = ToLower (u_Scheme u)
        in if scheme = ''vless'' then outboundFromVLESS d u tag
           else if scheme = ''ss'' then outboundFromSS d u tag
           else if scheme = ''trojan'' then outboundFromTrojan d u tag
           else Inl (Refused (Unsupported ''scheme'' (u_Scheme u)))))"

section \<open>The configuration\<close>

definition OutboundTag :: string where "OutboundTag = ''proxy''"
definition proxyTagPrefix :: string where "proxyTagPrefix = ''proxy-''"
definition balancerTag :: string where "balancerTag = ''vpn''"
definition StrategyLeastPing :: string where "StrategyLeastPing = ''leastping''"
definition StrategyRandom :: string where "StrategyRandom = ''random''"
definition StrategyRoundRobin :: string where "StrategyRoundRobin = ''roundrobin''"
definition defaultProbeURL :: string where "defaultProbeURL = ''https://www.gstatic.com/generate_204''"
definition defaultProbeIntervalSec :: int where "defaultProbeIntervalSec = 60"

record BalancerOptions =
  bo_Strategy :: string
  bo_ProbeURL :: string
  bo_ProbeIntervalSec :: int

definition normalized_options :: "BalancerOptions \<Rightarrow> link_error + BalancerOptions" where
  "normalized_options opts =
     (let s = ToLower (TrimSpace (bo_Strategy opts))
      in if s \<notin> set [[], StrategyLeastPing, StrategyRandom, StrategyRoundRobin]
         then Inl (Unsupported ''strategy'' (bo_Strategy opts))
         else Inr \<lparr>bo_Strategy = (if s = [] then StrategyLeastPing else s),
                   bo_ProbeURL = (if TrimSpace (bo_ProbeURL opts) = [] then defaultProbeURL else bo_ProbeURL opts),
                   bo_ProbeIntervalSec =
                     (if bo_ProbeIntervalSec opts \<le> 0 then defaultProbeIntervalSec else bo_ProbeIntervalSec opts)\<rparr>)"

record BuildResult =
  res_Config :: xconfig
  res_OutboundTags :: "string list"
  res_DialIPv4s :: "string list"
  res_Servers :: "string list"
  res_RouteTarget :: string
  res_RouteIsBalancer :: bool
  res_VisionTags :: "string list"  \<comment> \<open>the keys of the set\<close>

definition linkHasVision :: "xray_deps \<Rightarrow> string \<Rightarrow> bool" where
  "linkHasVision d link = (case d_url d link of
     None \<Rightarrow> False
   | Some u \<Rightarrow> EqualFold (u_Scheme u) ''vless'' \<and> Contains (ToLower (u_Query u ''flow'')) ''vision'')"

definition clean_links :: "string list \<Rightarrow> string list" where
  "clean_links links = filter (\<lambda>l. l \<noteq> []) (map TrimSpace links)"

definition proxyTag :: "nat \<Rightarrow> string" where
  "proxyTag i = proxyTagPrefix @ nat_digits i"

text \<open>The outbounds of several links, in link order, from the link number given; each with its host, dial address and tag.\<close>

fun build_outbounds :: "xray_deps \<Rightarrow> nat \<Rightarrow> string list \<Rightarrow> xray_error + (built \<times> string) list" where
  "build_outbounds d i [] = Inr []"
| "build_outbounds d i (link # links) =
     and_then (outboundFromLink d link (proxyTag i)) (\<lambda>b.
     and_then (build_outbounds d (Suc i) links) (\<lambda>bs. Inr ((b, link) # bs)))"

definition with_outbounds :: "xray_deps \<Rightarrow> (built \<times> string) list \<Rightarrow> xconfig \<Rightarrow> BuildResult" where
  "with_outbounds d bs cfg =
     \<lparr>res_Config = cfg\<lparr>cfg_OutboundConfigs := map (\<lambda>((ob, _, _), _). ob) bs\<rparr>,
      res_OutboundTags = map (\<lambda>((ob, _, _), _). ob_Tag ob) bs,
      res_DialIPv4s = filter (\<lambda>ip. ip \<noteq> []) (map (\<lambda>((_, _, ip), _). ip) bs),
      res_Servers = map (\<lambda>((_, server, _), _). server) bs,
      res_RouteTarget = OutboundTag, res_RouteIsBalancer = False,
      res_VisionTags = map (\<lambda>((ob, _, _), _). ob_Tag ob) (filter (\<lambda>(_, link). linkHasVision d link) bs)\<rparr>"

definition with_balancer :: "BalancerOptions \<Rightarrow> BuildResult \<Rightarrow> BuildResult" where
  "with_balancer opts res =
     res\<lparr>res_RouteTarget := balancerTag, res_RouteIsBalancer := True,
         res_Config := (res_Config res)\<lparr>
           cfg_RouterConfig := Some (no_router\<lparr>rc_Balancers :=
             [\<lparr>br_Tag = balancerTag, br_Selectors = [proxyTagPrefix], br_Strategy = bo_Strategy opts,
               br_FallbackTag = hd (res_OutboundTags res)\<rparr>]\<rparr>),
           cfg_Observatory := Some \<lparr>ov_SubjectSelector = [proxyTagPrefix], ov_ProbeURL = bo_ProbeURL opts,
             ov_ProbeIntervalSec = bo_ProbeIntervalSec opts, ov_EnableConcurrency = True\<rparr>\<rparr>\<rparr>"

definition routed :: "Profile \<Rightarrow> BuildResult \<Rightarrow> BuildResult" where
  "routed p res =
     res\<lparr>res_Config := applyRouting p (res_Config res) (res_RouteTarget res) (res_RouteIsBalancer res)\<rparr>"

definition xray_BuildConfig ::
    "xray_deps \<Rightarrow> string list \<Rightarrow> BalancerOptions \<Rightarrow> Profile \<Rightarrow> string \<Rightarrow> xray_error + BuildResult" where
  "xray_BuildConfig d links opts p level =
     (case clean_links links of
        [] \<Rightarrow> Inl (Refused BadLink)
      | [link] \<Rightarrow>
          and_then (outboundFromLink d link OutboundTag) (\<lambda>b. Inr (routed p (with_outbounds d [(b, link)] (new_config level))))
      | clean \<Rightarrow>
          and_then (refuse (normalized_options opts)) (\<lambda>opts.
          and_then (build_outbounds d 0 clean) (\<lambda>bs.
            Inr (routed p (with_balancer opts (with_outbounds d bs (new_config level)))))))"

section \<open>Tuning\<close>

definition XrayFingerprints :: "string list" where
  "XrayFingerprints = [''chrome'', ''firefox'', ''safari'', ''ios'', ''android'', ''edge'',
     ''360'', ''qq'', ''random'', ''randomized'', ''randomizednoalpn'', ''unsafe'']"

definition ValidXrayFingerprint :: "string \<Rightarrow> bool" where
  "ValidXrayFingerprint fp = (fp \<in> set XrayFingerprints)"

definition int16 :: "int \<Rightarrow> int" where
  "int16 n = sint (word_of_int n :: 16 word)"

definition mux_outbound :: "string list \<Rightarrow> int \<Rightarrow> int \<Rightarrow> OutboundDetourConfig \<Rightarrow> OutboundDetourConfig" where
  "mux_outbound visionTags concurrency xudp ob =
     (let c = (if ob_Tag ob \<in> set visionTags \<and> 0 < concurrency then - 1 else concurrency)
      in ob\<lparr>ob_MuxSettings := Some \<lparr>mux_Enabled = True, mux_Concurrency = int16 c, mux_XudpConcurrency = int16 xudp\<rparr>\<rparr>)"

definition ApplyMux :: "xconfig \<Rightarrow> string list \<Rightarrow> string list \<Rightarrow> int \<Rightarrow> int \<Rightarrow> xconfig" where
  "ApplyMux cfg proxyTags visionTags concurrency xudp =
     (if concurrency = 0 then cfg
      else cfg\<lparr>cfg_OutboundConfigs := map (\<lambda>ob. if ob_Tag ob \<in> set proxyTags
             then mux_outbound visionTags concurrency xudp ob else ob) (cfg_OutboundConfigs cfg)\<rparr>)"

definition set_fingerprint :: "string \<Rightarrow> StreamConfig \<Rightarrow> StreamConfig" where
  "set_fingerprint fp st =
     st\<lparr>st_TLSSettings := map_option (\<lambda>t. t\<lparr>tls_Fingerprint := fp\<rparr>) (st_TLSSettings st),
        st_REALITYSettings := map_option (\<lambda>r. r\<lparr>re_Fingerprint := fp\<rparr>) (st_REALITYSettings st)\<rparr>"

definition ApplyFingerprint :: "xconfig \<Rightarrow> string list \<Rightarrow> string \<Rightarrow> xconfig" where
  "ApplyFingerprint cfg proxyTags fp0 =
     (let fp = TrimSpace fp0
      in if fp = [] \<or> \<not> ValidXrayFingerprint fp then cfg
         else cfg\<lparr>cfg_OutboundConfigs := map (\<lambda>ob. if ob_Tag ob \<in> set proxyTags
                then ob\<lparr>ob_StreamSetting := map_option (set_fingerprint fp) (ob_StreamSetting ob)\<rparr> else ob)
                (cfg_OutboundConfigs cfg)\<rparr>)"

text \<open>The levels of xray and of tun2socks.\<close>

definition LogLevels :: "int \<Rightarrow> bool \<Rightarrow> string \<times> string" where
  "LogLevels requested loggingOn =
     (if \<not> loggingOn then (''error'', ''silent'')
      else if requested = 1 then (''warning'', ''warn'')
      else if requested = 2 then (''info'', ''info'')
      else if requested = 3 then (''debug'', ''debug'')
      else if requested = 4 then (''error'', ''error'')
      else if requested = 0 then (''warning'', ''silent'')
      else (''error'', ''silent''))"

section \<open>Only safe links are carried\<close>

text \<open>What the parameters of a link say of its security, and what an outbound must hold.\<close>

definition security_of :: "url_values \<Rightarrow> string" where
  "security_of q = (let s = ToLower (TrimSpace (q ''security'')) in if s = ''none'' then [] else s)"

definition known_security :: "url_values \<Rightarrow> bool" where
  "known_security q \<longleftrightarrow> security_of q \<in> {[], ''tls'', ''reality''} \<and> (security_of q = ''tls'' \<longrightarrow> \<not> SkipsVerification q)"

definition stream_secured :: "string \<Rightarrow> StreamConfig \<Rightarrow> bool" where
  "stream_secured security st \<longleftrightarrow> st_Security st = security
     \<and> (st_TLSSettings st \<noteq> None \<longleftrightarrow> security = ''tls'') \<and> (st_REALITYSettings st \<noteq> None \<longleftrightarrow> security = ''reality'')"

definition outbound_safe :: "xray_deps \<Rightarrow> OutboundDetourConfig \<Rightarrow> bool" where
  "outbound_safe d ob \<longleftrightarrow> (\<exists>st security. ob_StreamSetting ob = Some st \<and> stream_secured security st
     \<and> security \<in> {[], ''tls'', ''reality''}
     \<and> (case ob_Settings ob of
          VLessSettings addr port uid enc flow \<Rightarrow>
            security \<noteq> [] \<or> enc \<noteq> NoEncryption \<or> \<not> isPublicHost d addr
        | TrojanSettings addr port password \<Rightarrow> security \<noteq> []
        | ShadowsocksSettings addr port method password \<Rightarrow> ToLower method \<in> set ssCiphers
        | VMessSettings addr port uid cipher \<Rightarrow> cipher \<in> set xray_vmessCiphers \<and> security \<noteq> ''reality''
        | _ \<Rightarrow> False))"

text \<open>The links the package must refuse for good: no engine may be asked to run them in its place.\<close>

definition unsafe_url :: "xray_deps \<Rightarrow> URL \<Rightarrow> bool" where
  "unsafe_url d u =
     (let scheme = ToLower (u_Scheme u); q = u_Query u
      in if scheme = ''vless'' then
           \<not> known_security q
           \<or> (case Normalize_encryption (d_key d) (q ''encryption'') of
                None \<Rightarrow> True
              | Some enc \<Rightarrow> security_of q = [] \<and> enc = NoEncryption \<and> isPublicHost d (preResolveIPv4 d (u_Hostname u)))
         else if scheme = ''trojan'' then security_of q \<noteq> ''reality'' \<and> SkipsVerification q
         else if scheme = ''ss'' then
           (case ss_fields u of Inl _ \<Rightarrow> True | Inr (method, _) \<Rightarrow> ToLower method \<notin> set ssCiphers)
         else True)"

definition unsafe_link :: "xray_deps \<Rightarrow> string \<Rightarrow> bool" where
  "unsafe_link d link =
     (if IsLink link then
        (case vmess_Parse (d_url d) (d_json d) link of (l, errs) \<Rightarrow>
           errs \<noteq> [] \<or> ToLower (vl_Cipher l) \<notin> set xray_vmessCiphers
           \<or> \<not> known_security (vl_Params l) \<or> security_of (vl_Params l) = ''reality'')
      else (case d_url d link of None \<Rightarrow> True | Some u \<Rightarrow> unsafe_url d u))"

lemma and_then_Inl: "and_then r f = Inl e \<longleftrightarrow> r = Inl e \<or> (\<exists>x. r = Inr x \<and> f x = Inl e)"
  by (cases r) auto

lemma refuse_Inr [simp]: "refuse r = Inr x \<longleftrightarrow> r = Inr x"
  by (cases r) auto

lemma refuse_NotCarried [simp]: "refuse r \<noteq> Inl (NotCarried kind what)"
  by (cases r) auto

text \<open>A check that refuses for good is passed whenever the result is an outbound or a gap.\<close>

definition settled :: "xray_error + 'a \<Rightarrow> bool" where
  "settled r \<longleftrightarrow> (case r of Inl (Refused e) \<Rightarrow> False | _ \<Rightarrow> True)"

lemma settled_refuse: "settled (and_then (refuse r) f) \<longleftrightarrow> (\<exists>x. r = Inr x \<and> settled (f x))"
  by (cases r) (auto simp: settled_def)

lemma settled_carried: "settled (and_then (carried gap) (\<lambda>_. Inr b))"
  by (cases gap) (auto simp: settled_def carried_def)

lemma settled_Inr: "r = Inr x \<Longrightarrow> settled r"
  by (simp add: settled_def)

lemma settled_NotCarried: "r = Inl (NotCarried kind what) \<Longrightarrow> settled r"
  by (simp add: settled_def)

lemma stream_transport_plain:
  "st_Security (fst (stream_transport host q)) = [] \<and> st_TLSSettings (fst (stream_transport host q)) = None
     \<and> st_REALITYSettings (fst (stream_transport host q)) = None"
  by (simp add: stream_transport_def Let_def no_stream_def)

lemma stream_security_Inr:
  assumes "stream_security host q st = Inr st'" "stream_secured [] st"
  shows "known_security q \<and> stream_secured (security_of q) st'"
  using assms
  by (auto simp: stream_security_def known_security_def security_of_def stream_secured_def Let_def split: if_splits)

lemma buildStreamSettings_Inr:
  assumes "buildStreamSettings host q = Inr (st, gap)"
  shows "known_security q \<and> stream_secured (security_of q) st"
proof -
  obtain st0 st1 where t: "fst (stream_transport host q) = st0" and s: "stream_security host q st0 = Inr st1"
    and st: "st = st1\<lparr>st_SocketSettings := Some keep_alive\<rparr>"
    using assms by (auto simp: buildStreamSettings_def split: prod.splits)
  have "stream_secured [] st0"
    using stream_transport_plain [of host q] by (simp add: stream_secured_def t)
  from stream_security_Inr [OF s this] show ?thesis
    by (simp add: st stream_secured_def)
qed

lemma outboundFromVLESS_settled:
  assumes "settled (outboundFromVLESS d u tag)" "ToLower (u_Scheme u) = ''vless''"
  shows "\<not> unsafe_url d u"
  using assms
  by (fastforce simp: outboundFromVLESS_def unsafe_url_def settled_refuse Let_def requireTransportSecurity_def
      stream_secured_def dest: buildStreamSettings_Inr split: prod.splits)

lemma outboundFromVLESS_safe:
  assumes "outboundFromVLESS d u tag = Inr (ob, server, addr)"
  shows "ob_Tag ob = tag \<and> outbound_safe d ob"
proof -
  let ?flow = "TrimSpace (u_Query u ''flow'')"
  obtain st gap enc where
    b: "buildStreamSettings (u_Hostname u) (u_Query u) = Inr (st, gap)"
    and "Normalize_encryption (d_key d) (u_Query u ''encryption'') = Some enc"
    and r: "st_Security st \<noteq> [] \<or> enc \<noteq> NoEncryption \<or> \<not> isPublicHost d addr"
    and ob: "ob = outbound_of ''vless'' tag (VLessSettings addr (link_port (u_Port u)) (Username u) enc
        (if ?flow \<noteq> [] then Some ?flow else None)) st"
    using assms by (auto simp: outboundFromVLESS_def Let_def requireTransportSecurity_def simp del: split_paired_Ex)
  from buildStreamSettings_Inr [OF b] r show ?thesis
    by (auto simp: ob outbound_of_def outbound_safe_def known_security_def stream_secured_def)
qed

lemma security_of_set [simp]: "s = ''tls'' \<or> s = ''reality'' \<Longrightarrow> security_of (q(''security'' := s)) = s"
  by (auto simp: security_of_def TrimSpace_def Let_def) (code_simp+)

lemma SkipsVerification_security [simp]: "SkipsVerification (q(''security'' := s)) = SkipsVerification q"
  by (simp add: SkipsVerification_def)

lemma outboundFromTrojan_settled:
  assumes "settled (outboundFromTrojan d u tag)" "ToLower (u_Scheme u) = ''trojan''"
  shows "\<not> unsafe_url d u"
proof -
  let ?s = "ToLower (TrimSpace (u_Query u ''security''))"
  let ?s' = "if ?s \<noteq> ''tls'' \<and> ?s \<noteq> ''reality'' then ''tls'' else ?s"
  obtain st gap where "buildStreamSettings (u_Hostname u) ((u_Query u)(''security'' := ?s')) = Inr (st, gap)"
    using assms(1) by (auto simp: outboundFromTrojan_def settled_refuse Let_def simp del: split_paired_Ex)
  then have "known_security ((u_Query u)(''security'' := ?s'))"
    by (simp add: buildStreamSettings_Inr)
  then have "?s' = ''reality'' \<or> \<not> SkipsVerification (u_Query u)"
    by (auto simp: known_security_def split: if_splits)
  with assms(2) show ?thesis
    by (auto simp: unsafe_url_def security_of_def Let_def split: if_splits)
qed

lemma outboundFromTrojan_safe:
  assumes "outboundFromTrojan d u tag = Inr (ob, server, addr)"
  shows "ob_Tag ob = tag \<and> outbound_safe d ob"
proof -
  let ?s = "ToLower (TrimSpace (u_Query u ''security''))"
  let ?s' = "if ?s \<noteq> ''tls'' \<and> ?s \<noteq> ''reality'' then ''tls'' else ?s"
  obtain st gap where
    b: "buildStreamSettings (u_Hostname u) ((u_Query u)(''security'' := ?s')) = Inr (st, gap)"
    and ob: "ob = outbound_of ''trojan'' tag (TrojanSettings addr (link_port (u_Port u)) (Username u)) st"
    using assms by (auto simp: outboundFromTrojan_def Let_def simp del: split_paired_Ex)
  have "stream_secured ?s' st"
    using buildStreamSettings_Inr [OF b] security_of_set [of ?s' "u_Query u"] by auto
  then show ?thesis
    by (auto simp: ob outbound_of_def outbound_safe_def split: if_splits)
qed

lemma outboundFromSS_settled:
  assumes "settled (outboundFromSS d u tag)" "ToLower (u_Scheme u) = ''ss''"
  shows "\<not> unsafe_url d u"
  using assms by (auto simp: outboundFromSS_def unsafe_url_def settled_refuse checkSSCipher_def split: prod.splits)

lemma outboundFromSS_safe:
  assumes "outboundFromSS d u tag = Inr (ob, server, addr)"
  shows "ob_Tag ob = tag \<and> outbound_safe d ob"
  using assms
  by (auto simp: outboundFromSS_def checkSSCipher_def outbound_of_def outbound_safe_def stream_secured_def no_stream_def)

lemma vmess_ech_secured:
  assumes "vmess_ech q st = Inr st'" "stream_secured security st"
  shows "stream_secured security st'"
  using assms by (auto simp: vmess_ech_def stream_secured_def Let_def split: option.splits if_splits)

lemma outboundFromVMess_settled:
  assumes "settled (outboundFromVMess d link tag)" "IsLink link"
  shows "\<not> unsafe_link d link"
proof -
  obtain l errs where l: "vmess_Parse (d_url d) (d_json d) link = (l, errs)" by force
  obtain st gap where "errs = []" "ToLower (vl_Cipher l) \<in> set xray_vmessCiphers"
    "ToLower (TrimSpace (vl_Params l ''security'')) \<noteq> ''reality''"
    "buildStreamSettings (vl_Host l) (vl_Params l) = Inr (st, gap)"
    using assms(1) by (auto simp: outboundFromVMess_def l settled_refuse Let_def simp del: split_paired_Ex)
  then show ?thesis
    using assms(2) by (auto simp: unsafe_link_def l security_of_def Let_def dest: buildStreamSettings_Inr split: if_splits)
qed

lemma outboundFromVMess_safe:
  assumes "outboundFromVMess d link tag = Inr (ob, server, addr)"
  shows "ob_Tag ob = tag \<and> outbound_safe d ob"
proof -
  obtain l errs where l: "vmess_Parse (d_url d) (d_json d) link = (l, errs)" by force
  obtain st gap st' where c: "ToLower (vl_Cipher l) \<in> set xray_vmessCiphers"
    and r: "ToLower (TrimSpace (vl_Params l ''security'')) \<noteq> ''reality''"
    and b: "buildStreamSettings (vl_Host l) (vl_Params l) = Inr (st, gap)"
    and e: "vmess_ech (vl_Params l) st = Inr st'"
    and ob: "ob = outbound_of ''vmess'' tag (VMessSettings addr (nat (vl_Port l)) (vl_ID l) (ToLower (vl_Cipher l))) st'"
    using assms by (auto simp: outboundFromVMess_def l Let_def simp del: split_paired_Ex)
  have "stream_secured (security_of (vl_Params l)) st'" "known_security (vl_Params l)"
    using buildStreamSettings_Inr [OF b] vmess_ech_secured [OF e] by auto
  with c r show ?thesis
    by (auto simp: ob outbound_of_def outbound_safe_def known_security_def security_of_def Let_def split: if_splits)
qed

lemma outboundFromLink_settled:
  assumes "settled (outboundFromLink d link tag)"
  shows "\<not> unsafe_link d link"
proof (cases "IsLink link")
  case True
  with assms outboundFromVMess_settled show ?thesis by (simp add: outboundFromLink_def)
next
  case False
  with assms obtain u where u: "d_url d link = Some u" and s: "settled (let scheme = ToLower (u_Scheme u)
        in if scheme = ''vless'' then outboundFromVLESS d u tag else if scheme = ''ss'' then outboundFromSS d u tag
           else if scheme = ''trojan'' then outboundFromTrojan d u tag
           else Inl (Refused (Unsupported ''scheme'' (u_Scheme u))))"
    by (auto simp: outboundFromLink_def settled_refuse)
  from s have "\<not> unsafe_url d u"
    using outboundFromVLESS_settled outboundFromSS_settled outboundFromTrojan_settled
    by (auto simp: Let_def settled_def [of "Inl e" for e] split: if_splits)
  with False u show ?thesis by (simp add: unsafe_link_def)
qed

lemma outboundFromLink_safe:
  assumes "outboundFromLink d link tag = Inr (ob, server, addr)"
  shows "ob_Tag ob = tag \<and> outbound_safe d ob"
  using assms outboundFromVLESS_safe outboundFromTrojan_safe outboundFromSS_safe outboundFromVMess_safe
  by (auto simp: outboundFromLink_def Let_def split: if_splits)


section \<open>The configuration is consistent\<close>

definition added_tag :: "string \<Rightarrow> bool" where
  "added_tag t \<longleftrightarrow> t = directTag \<or> t = blockTag \<or> (\<exists>i. t = tierDirectTag i)"

definition extends :: "xconfig \<Rightarrow> xconfig \<Rightarrow> bool" where
  "extends cfg cfg' \<longleftrightarrow> (\<exists>extra. cfg_OutboundConfigs cfg' = cfg_OutboundConfigs cfg @ extra
     \<and> list_all (\<lambda>ob. added_tag (ob_Tag ob)) extra)
     \<and> (distinct (outbound_tags cfg) \<longrightarrow> distinct (outbound_tags cfg')) \<and> cfg_RouterConfig cfg' = cfg_RouterConfig cfg"

lemma extends_refl: "extends cfg cfg"
  by (simp add: extends_def)

lemma extends_trans: "extends a b \<Longrightarrow> extends b c \<Longrightarrow> extends a c"
  by (auto simp: extends_def)

lemma extends_ensure: "added_tag tag \<Longrightarrow> ob_Tag ob = tag \<Longrightarrow> extends cfg (ensureOutbound cfg tag ob)"
  by (auto simp: extends_def ensureOutbound_def hasOutbound_def outbound_tags_def)

lemma directOutbound_tag: "ob_Tag (directOutbound p t) = t" "ob_Tag (tierDirectOutbound p t rs) = t"
  by (simp_all add: directOutbound_def tierDirectOutbound_def no_outbound_def)

lemma added_tags: "added_tag directTag" "added_tag blockTag" "added_tag (tierDirectTag i)"
  by (auto simp: added_tag_def)

lemma extends_tier_rules: "extends cfg (fst (tier_rules p proxy i ts cfg))"
proof (induction ts arbitrary: i cfg)
  case Nil
  show ?case by (simp add: extends_refl)
next
  case (Cons t ts)
  let ?d = "t_tag (tier_directByIP p i t)"
  let ?cfg = "if needs_tier_direct p (tier_Entries t)
    then ensureOutbound cfg ?d (tierDirectOutbound p ?d (directFinalRules (tier_Entries t))) else cfg"
  have "added_tag ?d"
    by (simp add: tier_directByIP_def direct_target_def added_tags)
  then have "extends cfg ?cfg"
    by (simp add: extends_refl extends_ensure directOutbound_tag)
  from extends_trans [OF this Cons.IH [of ?cfg "Suc i"]] show ?case
    by (simp add: Let_def case_prod_unfold)
qed

lemma extends_fixed: "extends cfg (fixed_outbounds p cfg)"
proof -
  let ?c1 = "if needDirect p then ensureOutbound cfg directTag (directOutbound p directTag) else cfg"
  have "extends cfg ?c1"
    by (simp add: extends_refl extends_ensure directOutbound_tag added_tags)
  moreover have "extends ?c1 (fixed_outbounds p cfg)"
    unfolding fixed_outbounds_def Let_def
    by (simp add: extends_refl extends_ensure added_tags no_outbound_def)
  ultimately show ?thesis by (rule extends_trans)
qed

lemma proxyTag_inj [simp]: "proxyTag i = proxyTag j \<longleftrightarrow> i = j"
  using nat_digits_inj by (auto simp: proxyTag_def)

lemma added_tag_no_proxy: "added_tag t \<Longrightarrow> \<not> HasPrefix t proxyTagPrefix"
  by (auto simp: added_tag_def directTag_def blockTag_def tierDirectTag_def proxyTagPrefix_def HasPrefix_def)

lemma proxyTag_prefix: "HasPrefix (proxyTag i) proxyTagPrefix"
  by (simp add: proxyTag_def HasPrefix_append)

lemma build_outbounds_Inr:
  assumes "build_outbounds d i links = Inr bs"
  shows "map (\<lambda>((ob, _, _), _). ob_Tag ob) bs = map proxyTag [i..<i + length links]
    \<and> (\<forall>((ob, _, _), _) \<in> set bs. outbound_safe d ob)"
  using assms
proof (induction links arbitrary: i bs)
  case (Cons link links)
  then obtain ob server addr bs' where b: "outboundFromLink d link (proxyTag i) = Inr (ob, server, addr)"
    and r: "build_outbounds d (Suc i) links = Inr bs'" and bs: "bs = ((ob, server, addr), link) # bs'"
    by auto
  have "[i..<i + length (link # links)] = i # [Suc i..<Suc i + length links]"
    using upt_conv_Cons [of i "i + Suc (length links)"] by simp
  with Cons.IH [OF r] outboundFromLink_safe [OF b] show ?case
    by (simp add: bs)
qed simp

definition balancer_picks :: "BalancingRule \<Rightarrow> string list \<Rightarrow> string list" where
  "balancer_picks b tags = filter (\<lambda>t. list_ex (HasPrefix t) (br_Selectors b)) tags"

definition balancers :: "xconfig \<Rightarrow> BalancingRule list" where
  "balancers cfg = (case cfg_RouterConfig cfg of None \<Rightarrow> [] | Some r \<Rightarrow> rc_Balancers r)"

definition result_consistent :: "xray_deps \<Rightarrow> nat \<Rightarrow> BuildResult \<Rightarrow> bool" where
  "result_consistent d n res \<longleftrightarrow>
     (let cfg = res_Config res; tags = res_OutboundTags res
      in length tags = n \<and> length (res_Servers res) = n \<and> distinct (outbound_tags cfg)
         \<and> take n (outbound_tags cfg) = tags \<and> list_all (outbound_safe d) (take n (cfg_OutboundConfigs cfg))
         \<and> set (res_VisionTags res) \<subseteq> set tags
         \<and> (if res_RouteIsBalancer res
            then \<exists>b. balancers cfg = [b] \<and> br_Tag b = res_RouteTarget res
                   \<and> balancer_picks b (outbound_tags cfg) = tags \<and> br_FallbackTag b \<in> set tags
            else tags = [res_RouteTarget res])
         \<and> list_all (rule_ok \<lparr>t_tag = res_RouteTarget res, t_isBalancer = res_RouteIsBalancer res\<rparr> cfg) (rule_list cfg))"

lemma applyRouting_extends:
  "\<exists>extra. cfg_OutboundConfigs (applyRouting p cfg t bal) = cfg_OutboundConfigs cfg @ extra
     \<and> list_all (\<lambda>ob. added_tag (ob_Tag ob)) extra
     \<and> (distinct (outbound_tags cfg) \<longrightarrow> distinct (outbound_tags (applyRouting p cfg t bal)))"
  "balancers (applyRouting p cfg t bal) = balancers cfg"
proof -
  let ?proxy = "\<lparr>t_tag = t, t_isBalancer = bal\<rparr>"
  let ?T = "fst (tier_rules p ?proxy 0 (Tiers p) (fixed_outbounds p cfg))"
  have ext: "extends cfg ?T"
    by (rule extends_trans [OF extends_fixed extends_tier_rules])
  then show "\<exists>extra. cfg_OutboundConfigs (applyRouting p cfg t bal) = cfg_OutboundConfigs cfg @ extra
     \<and> list_all (\<lambda>ob. added_tag (ob_Tag ob)) extra
     \<and> (distinct (outbound_tags cfg) \<longrightarrow> distinct (outbound_tags (applyRouting p cfg t bal)))"
    by (auto simp: extends_def outbound_tags_def applyRouting_parts(2))
  have "balancers (applyRouting p cfg t bal) = balancers ?T"
    by (simp add: applyRouting_def balancers_def fixed_outbounds_def Let_def case_prod_unfold no_router_def
        split: option.split)
  with ext show "balancers (applyRouting p cfg t bal) = balancers cfg"
    by (simp add: extends_def balancers_def)
qed

lemma routed_fields [simp]:
  "res_OutboundTags (routed p res) = res_OutboundTags res" "res_Servers (routed p res) = res_Servers res"
  "res_VisionTags (routed p res) = res_VisionTags res" "res_RouteTarget (routed p res) = res_RouteTarget res"
  "res_RouteIsBalancer (routed p res) = res_RouteIsBalancer res"
  "res_Config (routed p res) = applyRouting p (res_Config res) (res_RouteTarget res) (res_RouteIsBalancer res)"
  by (simp_all add: routed_def)

text \<open>Routing keeps a result consistent: it adds outbounds under tags of its own and rules whose targets exist.\<close>

lemma result_consistent_routed:
  assumes tags: "res_OutboundTags res = outbound_tags (res_Config res)" "distinct (res_OutboundTags res)"
    and n: "length (res_OutboundTags res) = n" "length (res_Servers res) = n"
    and safe: "list_all (outbound_safe d) (cfg_OutboundConfigs (res_Config res))"
    and vision: "set (res_VisionTags res) \<subseteq> set (res_OutboundTags res)"
    and route: "res_RouteTarget res \<noteq> []"
      "if res_RouteIsBalancer res
       then \<exists>b. balancers (res_Config res) = [b] \<and> br_Tag b = res_RouteTarget res \<and> br_Selectors b = [proxyTagPrefix]
              \<and> list_all (\<lambda>t. HasPrefix t proxyTagPrefix) (res_OutboundTags res) \<and> br_FallbackTag b \<in> set (res_OutboundTags res)
       else res_OutboundTags res = [res_RouteTarget res]"
  shows "result_consistent d n (routed p res)"
proof -
  define cfg where "cfg = applyRouting p (res_Config res) (res_RouteTarget res) (res_RouteIsBalancer res)"
  obtain extra where e: "cfg_OutboundConfigs cfg = cfg_OutboundConfigs (res_Config res) @ extra"
    "list_all (\<lambda>ob. added_tag (ob_Tag ob)) extra" and dist: "distinct (outbound_tags cfg)"
    using applyRouting_extends(1) tags unfolding cfg_def by metis
  have len: "length (cfg_OutboundConfigs (res_Config res)) = n"
    using tags n by (simp add: outbound_tags_def)
  have picks: "filter (\<lambda>t. HasPrefix t proxyTagPrefix) (outbound_tags cfg) = res_OutboundTags res"
    if "list_all (\<lambda>t. HasPrefix t proxyTagPrefix) (res_OutboundTags res)"
    using that e(2) added_tag_no_proxy
    by (simp add: outbound_tags_def e tags list_all_iff filter_id_conv filter_empty_conv)
  have rules: "list_all (rule_ok \<lparr>t_tag = res_RouteTarget res, t_isBalancer = res_RouteIsBalancer res\<rparr> cfg) (rule_list cfg)"
    using applyRouting_targets_exist [OF route(1)] by (auto simp: list_all_iff cfg_def)
  have bal: "balancers cfg = balancers (res_Config res)"
    by (simp add: cfg_def applyRouting_extends(2))
  show ?thesis
    unfolding result_consistent_def Let_def routed_fields cfg_def [symmetric]
    using n dist rules route(2) picks safe vision tags len
    by (auto simp: bal e outbound_tags_def balancer_picks_def)
qed

lemma with_outbounds_fields [simp]:
  "res_OutboundTags (with_outbounds d bs cfg) = map (\<lambda>((ob, _, _), _). ob_Tag ob) bs"
  "outbound_tags (res_Config (with_outbounds d bs cfg)) = map (\<lambda>((ob, _, _), _). ob_Tag ob) bs"
  "length (res_Servers (with_outbounds d bs cfg)) = length bs"
  "set (res_VisionTags (with_outbounds d bs cfg)) \<subseteq> set (map (\<lambda>((ob, _, _), _). ob_Tag ob) bs)"
  "cfg_OutboundConfigs (res_Config (with_outbounds d bs cfg)) = map (\<lambda>((ob, _, _), _). ob) bs"
  "res_RouteTarget (with_outbounds d bs cfg) = OutboundTag"
  "\<not> res_RouteIsBalancer (with_outbounds d bs cfg)"
  by (simp_all add: with_outbounds_def outbound_tags_def case_prod_unfold comp_def) auto

lemma with_balancer_fields [simp]:
  "res_OutboundTags (with_balancer opts res) = res_OutboundTags res"
  "outbound_tags (res_Config (with_balancer opts res)) = outbound_tags (res_Config res)"
  "res_Servers (with_balancer opts res) = res_Servers res"
  "res_VisionTags (with_balancer opts res) = res_VisionTags res"
  "cfg_OutboundConfigs (res_Config (with_balancer opts res)) = cfg_OutboundConfigs (res_Config res)"
  "res_RouteTarget (with_balancer opts res) = balancerTag"
  "res_RouteIsBalancer (with_balancer opts res)"
  "balancers (res_Config (with_balancer opts res)) =
     [\<lparr>br_Tag = balancerTag, br_Selectors = [proxyTagPrefix], br_Strategy = bo_Strategy opts,
       br_FallbackTag = hd (res_OutboundTags res)\<rparr>]"
  by (simp_all add: with_balancer_def outbound_tags_def balancers_def no_router_def)

lemma single_consistent:
  assumes "outboundFromLink d link OutboundTag = Inr b"
  shows "result_consistent d 1 (routed p (with_outbounds d [(b, link)] (new_config level)))"
proof -
  obtain ob server addr where b: "b = (ob, server, addr)" by (cases b)
  from outboundFromLink_safe [OF assms [unfolded b]] show ?thesis
    using with_outbounds_fields(4) [of d "[(b, link)]"]
    by (intro result_consistent_routed) (auto simp: b OutboundTag_def)
qed

lemma balanced_consistent:
  assumes "build_outbounds d 0 links = Inr bs" "links \<noteq> []"
  shows "result_consistent d (length links) (routed p (with_balancer opts (with_outbounds d bs (new_config level))))"
proof -
  have tags: "map (\<lambda>((ob, _, _), _). ob_Tag ob) bs = map proxyTag [0..<length links]"
    and safe: "\<forall>((ob, _, _), _) \<in> set bs. outbound_safe d ob"
    using build_outbounds_Inr [OF assms(1)] by auto
  have len: "length bs = length links"
    using arg_cong [OF tags, of length] by simp
  let ?res = "with_balancer opts (with_outbounds d bs (new_config level))"
  have all: "res_OutboundTags ?res = map proxyTag [0..<length links]" by (simp add: tags)
  have "hd (map proxyTag [0..<length links]) \<in> set (map proxyTag [0..<length links])"
    using assms(2) by (intro hd_in_set) simp
  then have route: "\<exists>b. balancers (res_Config ?res) = [b] \<and> br_Tag b = res_RouteTarget ?res \<and> br_Selectors b = [proxyTagPrefix]
      \<and> list_all (\<lambda>t. HasPrefix t proxyTagPrefix) (res_OutboundTags ?res) \<and> br_FallbackTag b \<in> set (res_OutboundTags ?res)"
    unfolding all with_balancer_fields with_outbounds_fields tags
    by (simp add: list.pred_map comp_def proxyTag_prefix list.pred_True del: set_map)
  show ?thesis
  proof (rule result_consistent_routed)
    show "set (res_VisionTags ?res) \<subseteq> set (res_OutboundTags ?res)"
      using with_outbounds_fields(4) by simp
    show "list_all (outbound_safe d) (cfg_OutboundConfigs (res_Config ?res))"
      using safe by (auto simp: list_all_iff)
    show "distinct (res_OutboundTags ?res)"
      unfolding all by (simp add: distinct_map inj_on_def)
    show "if res_RouteIsBalancer ?res
       then \<exists>b. balancers (res_Config ?res) = [b] \<and> br_Tag b = res_RouteTarget ?res \<and> br_Selectors b = [proxyTagPrefix]
              \<and> list_all (\<lambda>t. HasPrefix t proxyTagPrefix) (res_OutboundTags ?res) \<and> br_FallbackTag b \<in> set (res_OutboundTags ?res)
       else res_OutboundTags ?res = [res_RouteTarget ?res]"
      using route by simp
  qed (simp_all add: tags len balancerTag_def)
qed


definition sample_vless :: URL where
  "sample_vless = \<lparr>u_Scheme = ''vless'', u_Text = [], u_Hostname = ''h.example'', u_Port = ''443'', u_User = Some (''id'', None),
     u_Query = (\<lambda>k. if k = ''security'' then ''tls'' else []), u_Fragment = []\<rparr>"

definition sample_deps :: xray_deps where
  "sample_deps = \<lparr>d_url = (\<lambda>_. Some sample_vless), d_json = (\<lambda>_. None), d_key = (\<lambda>_. True), d_lookup = (\<lambda>_. None),
     d_address = (\<lambda>_. None), d_private_ip = (\<lambda>_. False), d_private_name = (\<lambda>_. False)\<rparr>"

definition sample_options :: BalancerOptions where
  "sample_options = \<lparr>bo_Strategy = '' Random'', bo_ProbeURL = [], bo_ProbeIntervalSec = 0\<rparr>"

definition sample_profile :: Profile where
  "sample_profile = example_profile\<lparr>Tiers := [\<lparr>Block = [''ads.example''], Direct = [], Proxy = []\<rparr>]\<rparr>"


section \<open>Mux and Vision\<close>

lemma int16_id: "- 32768 \<le> n \<Longrightarrow> n < 32768 \<Longrightarrow> int16 n = n"
  by (simp add: int16_def sint_sbintrunc' signed_take_bit_int_eq_self)

lemma mux_vision:
  assumes "ob_Tag ob \<in> set visionTags"
  shows "\<exists>m. ob_MuxSettings (mux_outbound visionTags c xudp ob) = Some m
    \<and> (0 < mux_Concurrency m \<longleftrightarrow> c < 0 \<and> 0 < int16 c)"
  using assms int16_id [of "- 1"] int16_id [of 0]
  by (cases "c = 0") (auto simp: mux_outbound_def Let_def)

text \<open>
  C40. TCP mux and the Vision flow exclude each other. A Vision outbound gets TCP mux for no concurrency that fits 16 bits
  and for no positive one at all; but a negative one is tested before it is narrowed, and where the narrowed number is
  positive (65535 below zero gives 1) TCP mux is on.
\<close>

theorem vision_mux_exact:
  assumes "ob \<in> set (cfg_OutboundConfigs cfg)" "ob_Tag ob \<in> set proxyTags" "ob_Tag ob \<in> set visionTags" "c \<noteq> 0"
  shows "\<exists>ob' \<in> set (cfg_OutboundConfigs (ApplyMux cfg proxyTags visionTags c xudp)). ob_Tag ob' = ob_Tag ob
    \<and> (\<exists>m. ob_MuxSettings ob' = Some m \<and> (0 < mux_Concurrency m \<longleftrightarrow> c < - 32768 \<and> 0 < int16 c))"
proof -
  have "c < 0 \<and> 0 < int16 c \<longleftrightarrow> c < - 32768 \<and> 0 < int16 c"
    using int16_id [of c] by (cases "- 32768 \<le> c") auto
  with mux_vision [OF assms(3), of c xudp] assms(1,2,4) show ?thesis
    by (intro bexI [of _ "mux_outbound visionTags c xudp ob"])
      (auto simp: ApplyMux_def image_iff mux_outbound_def Let_def)
qed

definition vision_config :: xconfig where
  "vision_config = (new_config ''error'')\<lparr>cfg_OutboundConfigs := [no_outbound\<lparr>ob_Tag := ''proxy''\<rparr>]\<rparr>"

theorem vision_mux_exact_witness:
  "\<exists>ob' \<in> set (cfg_OutboundConfigs (ApplyMux vision_config [''proxy''] [''proxy''] (- 65535) 0)).
     \<exists>m. ob_MuxSettings ob' = Some m \<and> 0 < mux_Concurrency m"
proof -
  have "no_outbound\<lparr>ob_Tag := ''proxy''\<rparr> \<in> set (cfg_OutboundConfigs vision_config)" "0 < int16 (- 65535)"
    by (simp_all add: vision_config_def int16_def)
  from vision_mux_exact [OF this(1), of "[''proxy'']" "[''proxy'']" "- 65535" 0] this(2) show ?thesis by fastforce
qed

end
