(* ===== verification/Server_Selection.thy ===== *)
theory Server_Selection
  imports Xray_Outbounds Mihomo_Rules
begin

text \<open>
  The servers of a session as the client sees them: \<^verbatim>\<open>src/internal/serverinfo/serverinfo.go\<close>, the selection kept and
  announced by \<^verbatim>\<open>src/internal/core/serverstate.go\<close>, and how each engine fills it (\<^verbatim>\<open>xray_selection.go\<close>,
  \<^verbatim>\<open>engine_mihomo.go\<close>). \<open>json\<close> stands for \<^verbatim>\<open>json.Marshal\<close> of a selection, with nothing assumed of it.
\<close>

section \<open>Servers from links\<close>

record Server =
  sv_Index :: nat
  sv_Name :: string
  sv_Host :: string
  sv_Port :: int
  sv_Protocol :: string

definition no_server :: "nat \<Rightarrow> Server" where
  "no_server idx = \<lparr>sv_Index = idx, sv_Name = [], sv_Host = [], sv_Port = 0, sv_Protocol = []\<rparr>"

definition defaultsTo443 :: "string \<Rightarrow> bool" where
  "defaultsTo443 protocol \<longleftrightarrow> protocol = ''tuic'' \<or> protocol = ''anytls''"

definition ssLegacyHostPort :: "string \<Rightarrow> string \<times> int" where
  "ssLegacyHostPort link =
     (let raw = takeWhile (\<lambda>c. c \<noteq> CHR ''?'') (takeWhile (\<lambda>c. c \<noteq> CHR ''#'') (TrimPrefix link ''ss://''))
      in case DecodeBase64Flexible raw of
           None \<Rightarrow> ([], 0)
         | Some decoded \<Rightarrow> (case LastIndexByte decoded CHR ''@'' of
             None \<Rightarrow> ([], 0)
           | Some at \<Rightarrow>
               if at = length decoded - 1 then ([], 0)
               else (case SplitHostPort (drop (at + 1) decoded) of
                       None \<Rightarrow> (drop (at + 1) decoded, 0)
                     | Some (host, port) \<Rightarrow>
                         (host, case Atoi (TrimSpace port) of
                            None \<Rightarrow> 0 | Some p \<Rightarrow> if p < 0 \<or> 65535 < p then 0 else p))))"

definition ss_plain :: "URL \<Rightarrow> bool" where
  "ss_plain u \<longleftrightarrow> u_User u \<noteq> None \<and> u_Hostname u \<noteq> [] \<and> u_Port u \<noteq> []"

definition server_protocol :: "string \<Rightarrow> string" where
  "server_protocol scheme0 =
     (let scheme = ToLower scheme0 in if scheme = ''hy2'' \<or> scheme = ''hysteria2'' then ''hysteria2'' else scheme)"

definition server_of_url :: "URL \<Rightarrow> string \<Rightarrow> nat \<Rightarrow> Server" where
  "server_of_url u link idx =
     (let protocol = server_protocol (u_Scheme u);
          s = (no_server idx)\<lparr>sv_Protocol := protocol, sv_Name := TrimSpace (ReplaceByte (u_Fragment u) CHR ''+'' '' '')\<rparr>
      in if protocol = ''ss'' \<and> \<not> ss_plain u
         then (case ssLegacyHostPort link of (host, port) \<Rightarrow> s\<lparr>sv_Host := host, sv_Port := port\<rparr>)
         else s\<lparr>sv_Host := u_Hostname u,
                sv_Port := (case Atoi (u_Port u) of
                   Some p \<Rightarrow> if 0 < p \<and> p \<le> 65535 then p else 0
                 | None \<Rightarrow> if u_Port u = [] \<and> defaultsTo443 protocol then 443 else 0)\<rparr>)"

definition FromLink :: "url_parser \<Rightarrow> json_parser \<Rightarrow> string \<Rightarrow> nat \<Rightarrow> Server" where
  "FromLink parse json link0 idx =
     (let link = TrimSpace link0; s = no_server idx
      in if HasPrefix (ToLower link) LinkScheme \<or> Contains link ''[Interface]'' then
           (let s = s\<lparr>sv_Protocol := ''awg'', sv_Name := LinkName link\<rparr>
            in case NormalizeToINI link of
                 None \<Rightarrow> s
               | Some ini \<Rightarrow> (case EndpointHostPort ini of (host, port) \<Rightarrow> s\<lparr>sv_Host := host, sv_Port := port\<rparr>))
         else if IsLink link then
           (let l = fst (vmess_Parse parse json link)
            in s\<lparr>sv_Protocol := ''vmess'', sv_Name := vl_Name l, sv_Host := vl_Host l, sv_Port := vl_Port l\<rparr>)
         else (case parse link of None \<Rightarrow> s | Some u \<Rightarrow> server_of_url u link idx))"

fun from_links :: "url_parser \<Rightarrow> json_parser \<Rightarrow> nat \<Rightarrow> string list \<Rightarrow> Server list" where
  "from_links parse json n [] = []"
| "from_links parse json n (l # ls) =
     (if TrimSpace l = [] then from_links parse json n ls
      else FromLink parse json (TrimSpace l) n # from_links parse json (Suc n) ls)"

definition FromLinks :: "url_parser \<Rightarrow> json_parser \<Rightarrow> string list \<Rightarrow> Server list" where
  "FromLinks parse json links = from_links parse json 0 links"

section \<open>The announced selection\<close>

record Selection =
  sl_Engine :: string
  sl_Strategy :: string
  sl_Total :: nat
  sl_Selected :: "Server option"
  sl_Servers :: "Server list"

text \<open>The cached payload, the server events so far (newest first) and how often the exit address was asked for anew.\<close>

record view =
  serverSelJSON :: string
  serverEvents :: "string list"
  ipTriggers :: nat

definition setServerSelection :: "(Selection \<Rightarrow> string option) \<Rightarrow> Selection \<Rightarrow> view \<Rightarrow> view" where
  "setServerSelection json sel v = (case json sel of
     None \<Rightarrow> v
   | Some msg \<Rightarrow>
       (let prev = serverSelJSON v
        in if prev = msg then v
           else v\<lparr>serverSelJSON := msg, serverEvents := msg # serverEvents v,
                  ipTriggers := (if prev \<noteq> [] then ipTriggers v + 1 else ipTriggers v)\<rparr>))"

text \<open>One tick of the selection watch: \<open>current\<close> is what the engine names, None for unknown; \<open>taken\<close> the last index taken.\<close>

definition watch_tick ::
    "(Selection \<Rightarrow> string option) \<Rightarrow> Selection \<Rightarrow> nat option \<Rightarrow> nat option \<times> view \<Rightarrow> nat option \<times> view" where
  "watch_tick json base current st = (case st of (taken, v) \<Rightarrow>
     (case current of
        None \<Rightarrow> (taken, v)
      | Some idx \<Rightarrow>
          if length (sl_Servers base) \<le> idx \<or> Some idx = taken then (taken, v)
          else (Some idx, setServerSelection json (base\<lparr>sl_Selected := Some (sl_Servers base ! idx)\<rparr>) v)))"

definition watch :: "(Selection \<Rightarrow> string option) \<Rightarrow> Selection \<Rightarrow> nat option list \<Rightarrow> view \<Rightarrow> nat option \<times> view" where
  "watch json base currents v = fold (watch_tick json base) currents (None, v)"

text \<open>Each engine's first announcement, and the selection its watch starts from, if it starts one.\<close>

definition initXrayServerState ::
    "(Selection \<Rightarrow> string option) \<Rightarrow> Server list \<Rightarrow> BuildResult \<Rightarrow> string \<Rightarrow> view \<Rightarrow> view \<times> Selection option" where
  "initXrayServerState json servers res strategy v =
     (if servers = [] \<or> length servers \<noteq> length (res_OutboundTags res) then (v, None)
      else (let sel = \<lparr>sl_Engine = ''xray'', sl_Strategy = [], sl_Total = length servers, sl_Selected = None, sl_Servers = servers\<rparr>
            in if \<not> res_RouteIsBalancer res then (setServerSelection json (sel\<lparr>sl_Selected := Some (hd servers)\<rparr>) v, None)
               else (let s = ToLower (TrimSpace strategy);
                         sel = sel\<lparr>sl_Strategy := (if s = [] then StrategyLeastPing else s)\<rparr>;
                         v = setServerSelection json sel v
                     in (v, if sl_Strategy sel = StrategyLeastPing then Some sel else None))))"

definition initMihomoServerState ::
    "(Selection \<Rightarrow> string option) \<Rightarrow> Server list \<Rightarrow> string list \<Rightarrow> string \<Rightarrow> view \<Rightarrow> view \<times> Selection option" where
  "initMihomoServerState json servers names strategy v =
     (if servers = [] \<or> length servers \<noteq> length names then (v, None)
      else (let sel = \<lparr>sl_Engine = ''mihomo'', sl_Strategy = [], sl_Total = length servers, sl_Selected = None, sl_Servers = servers\<rparr>
            in if length servers = 1 then (setServerSelection json (sel\<lparr>sl_Selected := Some (hd servers)\<rparr>) v, None)
               else (let strat = (case NormalizeStrategy strategy of Some s \<Rightarrow> s | None \<Rightarrow> strategy);
                         sel = sel\<lparr>sl_Strategy := strat\<rparr>;
                         v = setServerSelection json sel v
                     in (v, if strat = ''url-test'' \<or> strat = ''fallback'' then Some sel else None))))"

section \<open>The positions agree\<close>

lemma from_links_map:
  "from_links parse json n links =
     map (\<lambda>(i, l). FromLink parse json l i) (zip [n..<n + length (clean_links links)] (clean_links links))"
proof (induction links arbitrary: n)
  case (Cons l ls)
  show ?case
  proof (cases "TrimSpace l = []")
    case False
    have "[n..<n + Suc (length (clean_links ls))] = n # [Suc n..<Suc n + length (clean_links ls)]"
      using upt_conv_Cons [of n "n + Suc (length (clean_links ls))"] by simp
    with False Cons [of "Suc n"] show ?thesis by (simp add: clean_links_def)
  qed (simp add: Cons clean_links_def)
qed (simp add: clean_links_def)

lemma FromLinks_nth:
  assumes "i < length (clean_links links)"
  shows "FromLinks parse json links ! i = FromLink parse json (clean_links links ! i) i"
  using assms by (simp add: FromLinks_def from_links_map)

lemma length_FromLinks [simp]: "length (FromLinks parse json links) = length (clean_links links)"
  by (simp add: FromLinks_def from_links_map)

lemma FromLink_index: "sv_Index (FromLink parse json link i) = i"
  by (simp add: FromLink_def server_of_url_def no_server_def Let_def split: option.split prod.split)

lemma nonblank_clean: "nonblank links = length (clean_links links)"
  by (simp add: nonblank_def clean_links_def filter_map comp_def)

text \<open>
  The links the engine and the server list read alike: not an AmneziaWG link or configuration, which xray does not run; and
  of the legacy \<^verbatim>\<open>ss\<close> links, with everything in one base64 payload, those whose parsed URL prints as it was and whose payload
  the two base64 readers take for the same text.
\<close>

definition ss_raw :: "string \<Rightarrow> string" where
  "ss_raw link = takeWhile (\<lambda>c. c \<noteq> CHR ''?'') (takeWhile (\<lambda>c. c \<noteq> CHR ''#'') (TrimPrefix link ''ss://''))"

definition read_alike :: "xray_deps \<Rightarrow> string \<Rightarrow> bool" where
  "read_alike d link \<longleftrightarrow> \<not> HasPrefix (ToLower link) LinkScheme \<and> \<not> Contains link ''[Interface]''
     \<and> (case d_url d link of
          Some u \<Rightarrow> ToLower (u_Scheme u) = ''ss'' \<longrightarrow>
            ss_plain u \<or> u_Text u = link \<and> DecodeBase64Flexible (ss_raw link) = tryDecodeBase64 (ss_raw link)
        | None \<Rightarrow> True)"

text \<open>The address and port an outbound dials, and the address it dials for a host: all but Shadowsocks resolve it before.\<close>

fun settings_address :: "outbound_settings \<Rightarrow> string" where
  "settings_address (VLessSettings a _ _ _ _) = a"
| "settings_address (TrojanSettings a _ _) = a"
| "settings_address (ShadowsocksSettings a _ _ _) = a"
| "settings_address (VMessSettings a _ _ _) = a"
| "settings_address _ = []"

definition dialled :: "xray_deps \<Rightarrow> outbound_settings \<Rightarrow> string \<Rightarrow> string" where
  "dialled d st host = (case st of ShadowsocksSettings _ _ _ _ \<Rightarrow> host | _ \<Rightarrow> preResolveIPv4 d host)"

fun settings_port :: "outbound_settings \<Rightarrow> nat" where
  "settings_port (VLessSettings _ p _ _ _) = p"
| "settings_port (TrojanSettings _ p _) = p"
| "settings_port (ShadowsocksSettings _ p _ _) = p"
| "settings_port (VMessSettings _ p _ _) = p"
| "settings_port _ = 0"

lemma link_port_atoi: "int (link_port s) = (case Atoi s of Some p \<Rightarrow> if 0 < p \<and> p \<le> 65535 then p else 0 | None \<Rightarrow> 0)"
  by (simp add: link_port_def split: option.split)

definition dials :: "xray_deps \<Rightarrow> OutboundDetourConfig \<Rightarrow> string \<Rightarrow> nat \<Rightarrow> bool" where
  "dials d ob host port \<longleftrightarrow>
     settings_address (ob_Settings ob) = dialled d (ob_Settings ob) host \<and> settings_port (ob_Settings ob) = port"

lemma vless_dials:
  assumes "outboundFromVLESS d u tag = Inr (ob, server, addr)"
  shows "dials d ob (u_Hostname u) (link_port (u_Port u))"
  using assms by (auto simp: outboundFromVLESS_def Let_def outbound_of_def dials_def dialled_def)

lemma trojan_dials:
  assumes "outboundFromTrojan d u tag = Inr (ob, server, addr)"
  shows "dials d ob (u_Hostname u) (link_port (u_Port u))"
  using assms by (auto simp: outboundFromTrojan_def Let_def outbound_of_def dials_def dialled_def)

lemma ss_dials:
  assumes "outboundFromSS d u tag = Inr (ob, server, addr)"
  shows "\<exists>m pw host port. ss_fields u = Inr (m, pw, host, port) \<and> port \<noteq> 0 \<and> dials d ob host port"
  using assms
  by (auto simp: outboundFromSS_def outbound_of_def dials_def dialled_def split: prod.splits)

lemma vmess_dials:
  assumes "outboundFromVMess d link tag = Inr (ob, server, addr)"
  shows "dials d ob (vl_Host (fst (vmess_Parse (d_url d) (d_json d) link)))
    (nat (vl_Port (fst (vmess_Parse (d_url d) (d_json d) link))))"
  using assms by (auto simp: outboundFromVMess_def Let_def outbound_of_def dials_def dialled_def split: prod.splits)

lemma SplitHostPort_Nil: "SplitHostPort [] = None"
  by (simp add: SplitHostPort_def LastIndexByte_def)

lemma Atoi_trimmed:
  assumes "Atoi s = Some n"
  shows "TrimSpace s = s"
proof (rule visible_trimmed)
  have "\<forall>c \<in> set s. is_digit c \<or> c = CHR ''-'' \<or> c = CHR ''+''"
  proof (cases s)
    case (Cons c r)
    with assms have "list_all is_digit (if c = CHR ''-'' \<or> c = CHR ''+'' then r else c # r)"
      by (auto simp: Atoi_def ParseInt64_def Let_def split: if_splits)
    thus ?thesis using Cons by (auto simp: list_all_iff split: if_splits)
  qed simp
  thus "\<forall>c \<in> set s. byte c < 128 \<and> \<not> is_space1 c" by (auto simp: is_digit_def is_space1_def)
qed

lemma link_port_trim:
  assumes "link_port s \<noteq> 0"
  shows "(case Atoi (TrimSpace s) of None \<Rightarrow> 0 | Some p \<Rightarrow> if p < 0 \<or> 65535 < p then 0 else p) = int (link_port s)"
proof -
  obtain p where p: "Atoi s = Some p" "0 < p" "p \<le> 65535"
    using assms by (auto simp: link_port_def split: option.splits if_splits)
  have "TrimSpace s = s" by (rule Atoi_trimmed [OF p(1)])
  thus ?thesis using p by (simp add: link_port_def)
qed

lemma ssLegacy_dials:
  assumes "ss_payload link = Inr (m, pw, host, port)" "port \<noteq> 0"
    and "DecodeBase64Flexible (ss_raw link) = tryDecodeBase64 (ss_raw link)"
  shows "ssLegacyHostPort link = (host, int port)"
proof -
  obtain decoded at p where d: "tryDecodeBase64 (ss_raw link) = Some decoded" "LastIndexByte decoded CHR ''@'' = Some at"
    "SplitHostPort (drop (at + 1) decoded) = Some (host, p)" "port = link_port p"
    using assms(1) by (auto simp: ss_payload_def ss_raw_def [symmetric] Let_def split: option.splits)
  moreover have "at \<noteq> length decoded - 1" using d(3) SplitHostPort_Nil by (cases decoded) auto
  ultimately show ?thesis
    using assms(2,3) link_port_trim [of p] unfolding ssLegacyHostPort_def ss_raw_def [symmetric] by simp
qed

lemma FromLink_outbound:
  fixes i
  assumes b: "outboundFromLink d link tag = Inr (ob, server, addr)" and alike: "read_alike d link" and t: "TrimSpace link = link"
  defines "s \<equiv> FromLink (d_url d) (d_json d) link i"
  shows "dials d ob (sv_Host s) (nat (sv_Port s))"
proof (cases "IsLink link")
  case True
  with b have "outboundFromVMess d link tag = Inr (ob, server, addr)" by (simp add: outboundFromLink_def)
  from vmess_dials [OF this] True alike show ?thesis
    by (simp add: s_def FromLink_def t read_alike_def Let_def)
next
  case False
  with b obtain u where u: "d_url d link = Some u"
    and o: "(let scheme = ToLower (u_Scheme u)
        in if scheme = ''vless'' then outboundFromVLESS d u tag else if scheme = ''ss'' then outboundFromSS d u tag
           else if scheme = ''trojan'' then outboundFromTrojan d u tag
           else Inl (Refused (Unsupported ''scheme'' (u_Scheme u)))) = Inr (ob, server, addr)"
    by (auto simp: outboundFromLink_def)
  have scheme: "ToLower (u_Scheme u) \<in> {''vless'', ''ss'', ''trojan''}"
    using o by (auto simp: Let_def split: if_splits)
  then have proto: "server_protocol (u_Scheme u) = ToLower (u_Scheme u)" "\<not> defaultsTo443 (ToLower (u_Scheme u))"
    by (auto simp: server_protocol_def defaultsTo443_def)
  have s: "s = server_of_url u link i" using False alike by (simp add: s_def FromLink_def t read_alike_def u Let_def)
  show ?thesis
  proof (cases "ToLower (u_Scheme u) = ''ss'' \<and> \<not> ss_plain u")
    case True
    then obtain m pw host port where f: "ss_payload link = Inr (m, pw, host, port)" "port \<noteq> 0" "dials d ob host port"
      using o ss_dials [of d u tag ob server addr] alike by (auto simp: u read_alike_def ss_fields_def ss_plain_def)
    have "ssLegacyHostPort link = (host, int port)"
      using ssLegacy_dials [OF f(1,2)] True alike by (simp add: read_alike_def u)
    then show ?thesis using True f(3) proto(1) by (simp add: s server_of_url_def Let_def)
  next
    case False
    have "dials d ob (u_Hostname u) (link_port (u_Port u))"
    proof (cases "ToLower (u_Scheme u) = ''ss''")
      case True
      with False o ss_dials [of d u tag ob server addr] show ?thesis
        by (auto simp: ss_fields_def ss_plain_def split: prod.splits option.splits)
    next
      case False
      with o scheme vless_dials [of d u tag ob server addr] trojan_dials [of d u tag ob server addr] show ?thesis
        by (auto simp: Let_def split: if_splits)
    qed
    moreover have "sv_Host s = u_Hostname u" "sv_Port s = int (link_port (u_Port u))"
      using False proto by (auto simp: s server_of_url_def link_port_atoi Let_def split: option.split)
    ultimately show ?thesis by simp
  qed
qed

text \<open>A link's outbound at its place, for one link and for several.\<close>

lemma build_outbounds_nth:
  assumes "build_outbounds d i links = Inr bs" "k < length links"
  shows "length bs = length links \<and> snd (bs ! k) = links ! k
    \<and> outboundFromLink d (links ! k) (proxyTag (i + k)) = Inr (fst (bs ! k))"
  using assms
proof (induction links arbitrary: i bs k)
  case (Cons link links)
  then obtain b bs' where b: "outboundFromLink d link (proxyTag i) = Inr b" "build_outbounds d (Suc i) links = Inr bs'"
    "bs = (b, link) # bs'" by auto
  have "length bs' = length links"
  proof (cases links)
    case (Cons _ _)
    with Cons.IH [OF b(2), of 0] show ?thesis by simp
  qed (use b in simp)
  with Cons.IH [OF b(2)] Cons.prems(2) b show ?case by (cases k) auto
qed simp

lemma routed_outbounds:
  assumes "i < length (cfg_OutboundConfigs (res_Config res))"
  shows "cfg_OutboundConfigs (res_Config (routed p res)) ! i = cfg_OutboundConfigs (res_Config res) ! i"
  using applyRouting_extends(1) [of p "res_Config res" "res_RouteTarget res" "res_RouteIsBalancer res"] assms
  by (auto simp: nth_append)

lemma BuildConfig_nth:
  assumes "xray_BuildConfig d links opts p level = Inr res" "i < length (clean_links links)"
  shows "\<exists>tag addr. outboundFromLink d (clean_links links ! i) tag =
      Inr (cfg_OutboundConfigs (res_Config res) ! i, res_Servers res ! i, addr)
    \<and> length (res_OutboundTags res) = length (clean_links links)"
proof -
  consider link where "clean_links links = [link]" | l1 l2 ls where "clean_links links = l1 # l2 # ls"
    using assms(2) by (cases "clean_links links" rule: remdups_adj.cases) auto
  then show ?thesis
  proof cases
    case 1
    with assms obtain b where b: "outboundFromLink d link OutboundTag = Inr b"
      and r: "res = routed p (with_outbounds d [(b, link)] (new_config level))"
      by (auto simp: xray_BuildConfig_def)
    have "res_Servers res = [fst (snd b)]" "cfg_OutboundConfigs (res_Config res) ! 0 = fst b"
      using routed_outbounds [of 0 "with_outbounds d [(b, link)] (new_config level)" p]
      by (simp_all add: r with_outbounds_def case_prod_unfold)
    with assms(2) 1 b show ?thesis
      by (intro exI [of _ OutboundTag] exI [of _ "snd (snd b)"]) (simp add: r)
  next
    case 2
    with assms(1) obtain opts' bs where b: "build_outbounds d 0 (clean_links links) = Inr bs"
      and r: "res = routed p (with_balancer opts' (with_outbounds d bs (new_config level)))"
      by (auto simp: xray_BuildConfig_def simp del: build_outbounds.simps)
    note n = build_outbounds_nth [OF b assms(2)]
    have "cfg_OutboundConfigs (res_Config res) ! i = fst (fst (bs ! i))"
      using routed_outbounds [of i "with_balancer opts' (with_outbounds d bs (new_config level))" p] n assms(2)
      by (simp add: r case_prod_unfold)
    moreover have "res_Servers res ! i = fst (snd (fst (bs ! i)))"
      using n assms(2) by (simp add: r with_outbounds_def case_prod_unfold)
    ultimately show ?thesis
      using n by (intro exI [of _ "proxyTag i"] exI [of _ "snd (snd (fst (bs ! i)))"]) (simp add: r)
  qed
qed

lemma clean_trimmed: "i < length (clean_links links) \<Longrightarrow> TrimSpace (clean_links links ! i) = clean_links links ! i"
  using nth_mem [of i "clean_links links"] by (auto simp: clean_links_def)



section \<open>Announcements\<close>

definition no_view :: view where
  "no_view = \<lparr>serverSelJSON = [], serverEvents = [], ipTriggers = 0\<rparr>"

definition view_ok :: "view \<Rightarrow> bool" where
  "view_ok v \<longleftrightarrow> successively (\<noteq>) (serverEvents v) \<and> ipTriggers v = length (serverEvents v) - 1
     \<and> serverSelJSON v = (case serverEvents v of [] \<Rightarrow> [] | e # _ \<Rightarrow> e) \<and> list_all (\<lambda>e. e \<noteq> []) (serverEvents v)"

lemma view_ok_set:
  assumes "view_ok v" "json sel \<noteq> Some []"
  shows "view_ok (setServerSelection json sel v)"
  using assms by (auto simp: view_ok_def setServerSelection_def Let_def successively_Cons split: option.splits list.splits)

lemma view_ok_tick:
  assumes "view_ok (snd st)" "\<And>sel. json sel \<noteq> Some []"
  shows "view_ok (snd (watch_tick json base current st))"
  using assms by (auto simp: watch_tick_def intro: view_ok_set split: option.split prod.split)

text \<open>
  The session's announcements never repeat the one before, the cached payload is the last one made, and the exit address
  is asked for anew exactly once for every change after the first.
\<close>

theorem announcements_differ:
  assumes "\<And>sel. json sel \<noteq> Some []"
  shows "view_ok (snd (watch json base currents (setServerSelection json sel no_view)))"
proof -
  have "view_ok (snd (fold (watch_tick json base) currents st))" if "view_ok (snd st)" for st
    using that by (induction currents arbitrary: st) (simp_all add: view_ok_tick assms)
  moreover have "view_ok (setServerSelection json sel no_view)"
    by (intro view_ok_set assms) (simp add: view_ok_def no_view_def)
  ultimately show ?thesis by (simp add: watch_def)
qed

end
