(* ===== verification/Bridge_Pipe.thy ===== *)
theory Bridge_Pipe
  imports Machines Prelude
begin

text \<open>
  The in-process connections of the TUN bridge: the half-closing pipe of \<^verbatim>\<open>src/internal/core/bridge_pipe.go\<close> and the read
  deadline of \<^verbatim>\<open>bridge_flow.go\<close>, both as machines whose threads interleave.
\<close>

section \<open>One way of the pipe\<close>

text \<open>
  \<^verbatim>\<open>bridgePipe\<close> crosses the channels of two ends, so each way has a writing end and a reading end. \<^verbatim>\<open>Write\<close> is at the top of
  its loop, in its select, or waiting for the count of a chunk it handed over, with the bytes it was given and how many
  were taken; \<^verbatim>\<open>wrMu\<close> admits one writer. \<^verbatim>\<open>Read\<close> is in its select with room for some bytes, or about to answer with the
  count. A channel that is closed is a flag. \<open>wrote\<close> are the writes that have returned and \<open>delivered\<close> the bytes reads
  have copied, in order.
\<close>

datatype writer = WIdle | WTop string nat | WSelect string nat | WAwait string nat
datatype reader = RIdle | RSelect nat | RAnswer nat

record pipe =
  wr :: writer
  rd :: reader
  wrLocalDone :: bool  \<comment> \<open>the writing end is closed\<close>
  writeDone :: bool  \<comment> \<open>its write side is\<close>
  rdLocalDone :: bool  \<comment> \<open>the reading end is closed\<close>
  rdExpired :: bool
  wrote :: "(string \<times> nat \<times> bool) list"
  delivered :: string

definition bridgePipe :: pipe where
  "bridgePipe = \<lparr>wr = WIdle, rd = RIdle, wrLocalDone = False, writeDone = False, rdLocalDone = False, rdExpired = False,
     wrote = [], delivered = []\<rparr>"

definition write_barred :: "pipe \<Rightarrow> bool" where
  "write_barred p \<longleftrightarrow> wrLocalDone p \<or> writeDone p \<or> rdLocalDone p"

datatype read_error = ErrClosedPipe | EOF | ErrDeadlineExceeded

fun read_fails :: "read_error \<Rightarrow> pipe \<Rightarrow> bool" where
  "read_fails ErrClosedPipe p = rdLocalDone p"
| "read_fails EOF p = (wrLocalDone p \<or> writeDone p)"
| "read_fails ErrDeadlineExceeded p = rdExpired p"

definition end_write :: "string \<Rightarrow> nat \<Rightarrow> bool \<Rightarrow> pipe \<Rightarrow> pipe" where
  "end_write bs n ok p = p\<lparr>wr := WIdle, wrote := wrote p @ [(bs, n, ok)]\<rparr>"

text \<open>
  The steps: a write begins, tests the flags at the top of its loop and gives up or enters its select, or gives up there;
  a read enters its select unless a flag bars it, or gives up there; a chunk passes from a writer to a reader, both in
  their selects; the reader's answer passes back; ends close and the deadline comes and goes.
\<close>

datatype pipe_action =
    BeginWrite string | TopOfLoop | GiveUpWrite | BeginRead nat | GiveUpRead read_error
  | Chunk | Answer | CloseWrite | CloseWriter | CloseReader | SetExpired bool

fun exec_pipe :: "pipe_action \<Rightarrow> pipe \<Rightarrow> pipe option" where
  "exec_pipe (BeginWrite bs) p = (if wr p = WIdle then Some (p\<lparr>wr := WTop bs 0\<rparr>) else None)"
| "exec_pipe TopOfLoop p = (case wr p of
     WTop bs n \<Rightarrow> Some (if write_barred p then end_write bs n False p else p\<lparr>wr := WSelect bs n\<rparr>) | _ \<Rightarrow> None)"
| "exec_pipe GiveUpWrite p = (case wr p of
     WSelect bs n \<Rightarrow> if write_barred p then Some (end_write bs n False p) else None | _ \<Rightarrow> None)"
| "exec_pipe (BeginRead room) p =
     (if rd p = RIdle \<and> \<not> rdLocalDone p \<and> \<not> wrLocalDone p \<and> \<not> writeDone p \<and> \<not> rdExpired p
      then Some (p\<lparr>rd := RSelect room\<rparr>) else None)"
| "exec_pipe (GiveUpRead e) p = (case rd p of
     RSelect room \<Rightarrow> if read_fails e p then Some (p\<lparr>rd := RIdle\<rparr>) else None | _ \<Rightarrow> None)"
| "exec_pipe Chunk p = (case (wr p, rd p) of
     (WSelect bs n, RSelect room) \<Rightarrow>
       (let k = min room (length bs - n)
        in Some (p\<lparr>wr := WAwait bs n, rd := RAnswer k, delivered := delivered p @ take k (drop n bs)\<rparr>))
   | _ \<Rightarrow> None)"
| "exec_pipe Answer p = (case (wr p, rd p) of
     (WAwait bs n, RAnswer k) \<Rightarrow>
       (let p = p\<lparr>rd := RIdle\<rparr>
        in Some (if n + k < length bs then p\<lparr>wr := WTop bs (n + k)\<rparr> else end_write bs (n + k) True p))
   | _ \<Rightarrow> None)"
| "exec_pipe CloseWrite p = Some (p\<lparr>writeDone := True\<rparr>)"
| "exec_pipe CloseWriter p = Some (p\<lparr>wrLocalDone := True\<rparr>)"
| "exec_pipe CloseReader p = Some (p\<lparr>rdLocalDone := True\<rparr>)"
| "exec_pipe (SetExpired b) p = Some (p\<lparr>rdExpired := b\<rparr>)"

definition pipe_trans :: "pipe \<Rightarrow> pipe \<Rightarrow> bool" where
  "pipe_trans p p' \<longleftrightarrow> (\<exists>a. exec_pipe a p = Some p')"

interpretation pipe: machine exec_pipe bridgePipe pipe_trans
  by unfold_locales (auto simp: pipe_trans_def)

text \<open>The bytes taken from returned writes, and from the write under way.\<close>

definition acknowledged :: "pipe \<Rightarrow> string" where
  "acknowledged p = concat (map (\<lambda>(bs, n, _). take n bs) (wrote p))"

fun under_way :: "writer \<Rightarrow> reader \<Rightarrow> string" where
  "under_way (WTop bs n) _ = take n bs"
| "under_way (WSelect bs n) _ = take n bs"
| "under_way (WAwait bs n) (RAnswer k) = take (n + k) bs"
| "under_way _ _ = []"

definition paired :: "writer \<Rightarrow> reader \<Rightarrow> bool" where
  "paired w r = (case w of
     WAwait bs n \<Rightarrow> (case r of RAnswer k \<Rightarrow> n + k \<le> length bs | _ \<Rightarrow> False)
   | _ \<Rightarrow> (case r of RAnswer k \<Rightarrow> False | _ \<Rightarrow> True))"

definition inv_pipe :: "pipe \<Rightarrow> bool" where
  "inv_pipe p \<longleftrightarrow> delivered p = acknowledged p @ under_way (wr p) (rd p) \<and> paired (wr p) (rd p)
     \<and> (case wr p of WTop bs n \<Rightarrow> n \<le> length bs | WSelect bs n \<Rightarrow> n \<le> length bs | _ \<Rightarrow> True)
     \<and> list_all (\<lambda>(bs, n, ok). n \<le> length bs \<and> (ok \<longrightarrow> n = length bs)) (wrote p)"

lemma inv_pipe_step: "inv_pipe p \<Longrightarrow> exec_pipe a p = Some p' \<Longrightarrow> inv_pipe p'"
  by (cases a; cases "wr p"; cases "rd p")
    (auto simp: inv_pipe_def paired_def acknowledged_def end_write_def take_add Let_def split: if_splits)

lemma inv_pipe_reaches: "reaches exec_pipe bridgePipe p \<Longrightarrow> inv_pipe p"
proof (induction rule: pipe.invariant)
  case init
  show ?case by (simp add: inv_pipe_def bridgePipe_def acknowledged_def paired_def)
next
  case (step s s')
  then show ?case by (auto simp: pipe_trans_def intro: inv_pipe_step)
qed

text \<open>
  C16. Whatever the ends do, reads get exactly the bytes writes report as taken, in order: no byte a write counts is lost to a
  close, a half-close or a deadline, and none is delivered twice. A write that reports success had all its bytes taken.
  And a writer that has handed over a chunk is never left waiting: the reader's answer can always be given.
\<close>

theorem pipe_delivers_what_is_written:
  assumes "reaches exec_pipe bridgePipe p"
  shows "(wr p = WIdle \<longrightarrow> delivered p = concat (map (\<lambda>(bs, n, _). take n bs) (wrote p)))
    \<and> list_all (\<lambda>(bs, n, ok). n \<le> length bs \<and> (ok \<longrightarrow> n = length bs)) (wrote p)
    \<and> (\<forall>bs n. wr p = WAwait bs n \<longrightarrow> exec_pipe Answer p \<noteq> None)"
  using inv_pipe_reaches [OF assms]
  by (auto simp: inv_pipe_def acknowledged_def paired_def Let_def split: reader.splits)

theorem pipe_delivers_what_is_written_witness:
  "\<exists>p. run exec_pipe [BeginWrite ''hello'', TopOfLoop, BeginRead 3, Chunk, CloseWrite, Answer, TopOfLoop] bridgePipe = Some p
     \<and> wr p = WIdle \<and> wrote p = [(''hello'', 3, False)] \<and> delivered p = ''hel''"
proof -
  let ?as = "[BeginWrite ''hello'', TopOfLoop, BeginRead 3, Chunk, CloseWrite, Answer, TopOfLoop]"
  obtain p where r: "run exec_pipe ?as bridgePipe = Some p" and w: "wr p = WIdle" "wrote p = [(''hello'', 3, False)]"
    by (simp add: bridgePipe_def write_barred_def end_write_def Let_def)
  from pipe_delivers_what_is_written [OF run_reaches [OF r]] r w show ?thesis by simp
qed

section \<open>The read deadline\<close>

text \<open>
  The deadline's channel is numbered, with the channels closed so far, oldest first; a timer is armed with the channel it
  will close, or firing: \<^verbatim>\<open>Stop\<close> no longer stops it and its function has yet to close the channel. \<^verbatim>\<open>set\<close> with no deadline,
  one to come or one past; it waits (here: is refused) while the timer is firing.
\<close>

datatype timer = NoTimer | Armed nat | Firing nat
datatype deadline_time = Never | Later | Past

record deadline =
  dl_timer :: timer
  dl_expired :: nat
  dl_fresh :: nat  \<comment> \<open>the number of the next channel made\<close>
  dl_closed :: "nat list"

definition new_deadline :: deadline where
  "new_deadline = \<lparr>dl_timer = NoTimer, dl_expired = 0, dl_fresh = 1, dl_closed = []\<rparr>"

definition fresh_channel :: "deadline \<Rightarrow> deadline" where
  "fresh_channel d = d\<lparr>dl_expired := dl_fresh d, dl_fresh := Suc (dl_fresh d)\<rparr>"

definition set_deadline :: "deadline_time \<Rightarrow> deadline \<Rightarrow> deadline" where
  "set_deadline t d0 =
     (let d = d0\<lparr>dl_timer := NoTimer\<rparr>; closed = dl_expired d \<in> set (dl_closed d)
      in case t of
           Never \<Rightarrow> if closed then fresh_channel d else d
         | Later \<Rightarrow> (let d = (if closed then fresh_channel d else d) in d\<lparr>dl_timer := Armed (dl_expired d)\<rparr>)
         | Past \<Rightarrow> if closed then d else d\<lparr>dl_closed := dl_closed d @ [dl_expired d]\<rparr>)"

datatype deadline_action = SetDeadline deadline_time | Fire | TimerCloses

fun exec_deadline :: "deadline_action \<Rightarrow> deadline \<Rightarrow> deadline option" where
  "exec_deadline (SetDeadline t) d = (case dl_timer d of Firing c \<Rightarrow> None | _ \<Rightarrow> Some (set_deadline t d))"
| "exec_deadline Fire d = (case dl_timer d of Armed c \<Rightarrow> Some (d\<lparr>dl_timer := Firing c\<rparr>) | _ \<Rightarrow> None)"
| "exec_deadline TimerCloses d = (case dl_timer d of
     Firing c \<Rightarrow> Some (d\<lparr>dl_timer := NoTimer, dl_closed := dl_closed d @ [c]\<rparr>) | _ \<Rightarrow> None)"

definition deadline_trans :: "deadline \<Rightarrow> deadline \<Rightarrow> bool" where
  "deadline_trans d d' \<longleftrightarrow> (\<exists>a. exec_deadline a d = Some d')"

interpretation deadline: machine exec_deadline new_deadline deadline_trans
  by unfold_locales (auto simp: deadline_trans_def)

definition inv_deadline :: "deadline \<Rightarrow> bool" where
  "inv_deadline d \<longleftrightarrow> distinct (dl_closed d) \<and> dl_expired d < dl_fresh d \<and> (\<forall>c \<in> set (dl_closed d). c < dl_fresh d)
     \<and> (case dl_timer d of NoTimer \<Rightarrow> True
        | Armed c \<Rightarrow> c = dl_expired d \<and> c \<notin> set (dl_closed d) | Firing c \<Rightarrow> c = dl_expired d \<and> c \<notin> set (dl_closed d))"

lemma inv_deadline_step: "inv_deadline d \<Longrightarrow> exec_deadline a d = Some d' \<Longrightarrow> inv_deadline d'"
  by (cases a; cases "dl_timer d")
    (force simp: inv_deadline_def set_deadline_def fresh_channel_def Let_def split: deadline_time.splits if_splits)+

lemma inv_deadline_reaches: "reaches exec_deadline new_deadline d \<Longrightarrow> inv_deadline d"
proof (induction rule: deadline.invariant)
  case init
  show ?case by (simp add: inv_deadline_def new_deadline_def)
next
  case (step s s')
  then show ?case by (auto simp: deadline_trans_def intro: inv_deadline_step)
qed

text \<open>
  However deadlines are set and timers fire, no channel is closed twice (which would panic), and a deadline moved while
  the channel is open keeps the channel: a read already waiting on it sees the new deadline.
\<close>

theorem deadline_channels:
  assumes "reaches exec_deadline new_deadline d"
  shows "distinct (dl_closed d)
    \<and> (dl_expired d \<notin> set (dl_closed d) \<longrightarrow> (\<forall>t. dl_expired (set_deadline t d) = dl_expired d))
    \<and> (dl_expired d \<in> set (dl_closed d) \<longrightarrow> dl_expired (set_deadline Later d) \<notin> set (dl_closed (set_deadline Later d)))"
  using inv_deadline_reaches [OF assms]
  by (auto simp: inv_deadline_def set_deadline_def fresh_channel_def Let_def split: deadline_time.split)

theorem deadline_channels_witness:
  "\<exists>d. run exec_deadline [SetDeadline Later, Fire, TimerCloses, SetDeadline Later, SetDeadline Past] new_deadline = Some d
     \<and> dl_closed d = [0, 1] \<and> distinct (dl_closed d)"
proof -
  obtain d where r: "run exec_deadline [SetDeadline Later, Fire, TimerCloses, SetDeadline Later, SetDeadline Past] new_deadline = Some d"
    and c: "dl_closed d = [0, 1]"
    by (simp add: new_deadline_def set_deadline_def fresh_channel_def Let_def)
  from deadline_channels [OF run_reaches [OF r]] r c show ?thesis by blast
qed

end
