(* ===== verification/Bridge_Flow.thy ===== *)
theory Bridge_Flow
  imports Machines Routing "HOL-Library.Sublist"
begin

text \<open>
  Flows of the TUN bridge: the UDP flow of \<^verbatim>\<open>src/internal/core/bridge_flow.go\<close>, the per-process split of \<^verbatim>\<open>bridge_proxy.go\<close>,
  and the bridges into the engines (\<^verbatim>\<open>engine_mihomo_bridge_proxy.go\<close>, \<^verbatim>\<open>xray_bridge.go\<close>).
\<close>

section \<open>A UDP flow\<close>

definition Unmap :: "ip \<Rightarrow> ip" where
  "Unmap a = (case a of IP4 b \<Rightarrow> a | IP6 b z \<Rightarrow> if take 12 b = v4_mapped_prefix then IP4 (drop 12 b) else a)"

type_synonym addrPort = "ip \<times> nat"

definition bridgeFlowQueue :: nat where "bridgeFlowQueue = 128"

text \<open>
  The flow with the replies that were taken and read so far, and how often it was released; \<open>accepted\<close> and \<open>readOut\<close> are
  the history, oldest first.
\<close>

record flowConn =
  fl_dst :: addrPort
  fl_replies :: "string list"
  fl_done :: bool
  fl_released :: nat
  fl_accepted :: "(string \<times> addrPort option) list"
  fl_readOut :: "string list"

definition newBridgeFlowConn :: "addrPort \<Rightarrow> flowConn" where
  "newBridgeFlowConn dst = \<lparr>fl_dst = dst, fl_replies = [], fl_done = False, fl_released = 0, fl_accepted = [], fl_readOut = []\<rparr>"

definition queue_reply :: "string \<Rightarrow> addrPort option \<Rightarrow> flowConn \<Rightarrow> flowConn" where
  "queue_reply b from c =
     (if fl_done c \<or> bridgeFlowQueue \<le> length (fl_replies c) then c
      else c\<lparr>fl_replies := fl_replies c @ [b], fl_accepted := fl_accepted c @ [(b, from)]\<rparr>)"

definition deliverFrom :: "string \<Rightarrow> addrPort option \<Rightarrow> flowConn \<Rightarrow> flowConn" where
  "deliverFrom b from c = (case from of
     Some (a, port) \<Rightarrow> if (Unmap a, port) \<noteq> fl_dst c then c else queue_reply b from c
   | None \<Rightarrow> queue_reply b from c)"

text \<open>
  A read that has a reply to take: the bytes it returns, at most \<open>room\<close> (the rest of a longer reply is lost, as with a
  socket), and the sender it names.
\<close>

definition readFrom :: "nat \<Rightarrow> flowConn \<Rightarrow> (flowConn \<times> string \<times> addrPort) option" where
  "readFrom room c = (case fl_replies c of
     b # bs \<Rightarrow> if fl_done c then None
       else Some (c\<lparr>fl_replies := bs, fl_readOut := fl_readOut c @ [b]\<rparr>, take room b, fl_dst c)
   | [] \<Rightarrow> None)"

text \<open>A write passes its datagram to the engine while the flow is open.\<close>

definition writeTo :: "string \<Rightarrow> flowConn \<Rightarrow> string option" where
  "writeTo b c = (if fl_done c then None else Some b)"

definition close_flow :: "flowConn \<Rightarrow> flowConn" where
  "close_flow c = (if fl_done c then c else c\<lparr>fl_done := True, fl_released := fl_released c + 1\<rparr>)"

datatype flow_action = DeliverFrom string "addrPort option" | ReadFrom nat | CloseFlow

fun exec_flow :: "flow_action \<Rightarrow> flowConn \<Rightarrow> flowConn option" where
  "exec_flow (DeliverFrom b from) c = Some (deliverFrom b from c)"
| "exec_flow (ReadFrom room) c = map_option fst (readFrom room c)"
| "exec_flow CloseFlow c = Some (close_flow c)"

definition flow_trans :: "flowConn \<Rightarrow> flowConn \<Rightarrow> bool" where
  "flow_trans c c' \<longleftrightarrow> (\<exists>a. exec_flow a c = Some c')"

interpretation flow: machine exec_flow "newBridgeFlowConn dst" flow_trans for dst
  by unfold_locales (auto simp: flow_trans_def)

definition inv_flow :: "addrPort \<Rightarrow> flowConn \<Rightarrow> bool" where
  "inv_flow dst c \<longleftrightarrow> fl_dst c = dst \<and> length (fl_replies c) \<le> bridgeFlowQueue
     \<and> fl_released c = (if fl_done c then 1 else 0)
     \<and> list_all (\<lambda>(b, from). case from of None \<Rightarrow> True | Some (a, port) \<Rightarrow> (Unmap a, port) = dst) (fl_accepted c)
     \<and> map fst (fl_accepted c) = fl_readOut c @ fl_replies c"

lemma inv_flow_step: "inv_flow dst c \<Longrightarrow> exec_flow a c = Some c' \<Longrightarrow> inv_flow dst c'"
  by (cases a)
    (auto simp: inv_flow_def deliverFrom_def queue_reply_def readFrom_def close_flow_def not_le
      split: option.splits list.splits if_splits)

lemma inv_flow_reaches: "reaches exec_flow (newBridgeFlowConn dst) c \<Longrightarrow> inv_flow dst c"
proof (induction rule: flow.invariant)
  case init
  show ?case by (simp add: inv_flow_def newBridgeFlowConn_def)
next
  case (step s s')
  then show ?case by (auto simp: flow_trans_def intro: inv_flow_step)
qed

text \<open>
  Reads of a flow yield replies of its one destination only, in the order they came and each at most once, and name that
  destination as the sender; at most 128 wait; and a flow is released once, when it is first closed, after which it yields
  nothing.
\<close>

theorem flow_replies_in_order:
  assumes "reaches exec_flow (newBridgeFlowConn dst) c"
  shows "prefix (fl_readOut c) (map fst (fl_accepted c))
    \<and> list_all (\<lambda>(b, from). case from of None \<Rightarrow> True | Some (a, port) \<Rightarrow> (Unmap a, port) = dst) (fl_accepted c)
    \<and> length (fl_replies c) \<le> 128 \<and> fl_released c = (if fl_done c then 1 else 0)
    \<and> (case readFrom room c of Some (c', bytes, sender) \<Rightarrow> \<not> fl_done c \<and> sender = dst \<and> prefix bytes (hd (fl_replies c)) | None \<Rightarrow> True)"
  using inv_flow_reaches [OF assms]
  by (auto simp: inv_flow_def bridgeFlowQueue_def readFrom_def take_is_prefix split: list.split)

definition sample_dst :: addrPort where "sample_dst = (IP4 [192, 0, 2, 1], 53)"

theorem flow_replies_in_order_witness:
  "\<exists>c. run exec_flow [DeliverFrom ''a'' (Some (IP6 (v4_mapped_prefix @ [192, 0, 2, 1]) [], 53)),
         DeliverFrom ''x'' (Some (IP4 [192, 0, 2, 9], 53)), DeliverFrom ''b'' None, ReadFrom 1, CloseFlow, CloseFlow]
         (newBridgeFlowConn sample_dst) = Some c
     \<and> fl_accepted c = [(''a'', Some (IP6 (v4_mapped_prefix @ [192, 0, 2, 1]) [], 53)), (''b'', None)] \<and> fl_released c = 1
     \<and> prefix (fl_readOut c) (map fst (fl_accepted c))"
proof -
  let ?as = "[DeliverFrom ''a'' (Some (IP6 (v4_mapped_prefix @ [192, 0, 2, 1]) [], 53)),
         DeliverFrom ''x'' (Some (IP4 [192, 0, 2, 9], 53)), DeliverFrom ''b'' None, ReadFrom 1, CloseFlow, CloseFlow]"
  obtain c where r: "run exec_flow ?as (newBridgeFlowConn sample_dst) = Some c"
    and c: "fl_accepted c = [(''a'', Some (IP6 (v4_mapped_prefix @ [192, 0, 2, 1]) [], 53)), (''b'', None)]" "fl_released c = 1"
    by (simp add: newBridgeFlowConn_def deliverFrom_def queue_reply_def readFrom_def close_flow_def Unmap_def v4_mapped_prefix_def
        sample_dst_def bridgeFlowQueue_def)
  from flow_replies_in_order [OF run_reaches [OF r]] r c show ?thesis by blast
qed

section \<open>Where a flow goes\<close>

text \<open>
  The per-process split: \<open>owner\<close> is the path of the process that owns the flow, if \<^verbatim>\<open>FindProcessName\<close> finds it, and \<open>base_name\<close>
  stands for \<^verbatim>\<open>filepath.Base\<close>, which depends on the platform. \<open>split\<close> is the rules of a session, None where there are none.
\<close>

datatype dialer = EngineBase | EngineForce | PhysicalInterface | Refuse

definition process_decision :: "(string \<Rightarrow> string) \<Rightarrow> (string \<rightharpoonup> Target) \<Rightarrow> string option \<Rightarrow> Target option" where
  "process_decision base_name rules owner = (case owner of
     None \<Rightarrow> None
   | Some path \<Rightarrow> if path = [] then None else rules (ToLower (base_name path)))"

definition proxyFor :: "bool \<Rightarrow> dialer" where
  "proxyFor hasForce = (if hasForce then EngineForce else EngineBase)"

definition processSplit_dial :: "(string \<Rightarrow> string) \<Rightarrow> (string \<rightharpoonup> Target) \<Rightarrow> bool \<Rightarrow> string option \<Rightarrow> dialer" where
  "processSplit_dial base_name rules hasForce owner = (case process_decision base_name rules owner of
     Some TargetDirect \<Rightarrow> PhysicalInterface
   | Some TargetBlock \<Rightarrow> Refuse
   | Some TargetProxy \<Rightarrow> proxyFor hasForce
   | None \<Rightarrow> EngineBase)"

definition sessionBridge_dial :: "bool \<Rightarrow> (string \<Rightarrow> string) \<Rightarrow> Profile \<Rightarrow> bool \<Rightarrow> string option \<Rightarrow> dialer" where
  "sessionBridge_dial android base_name p hasForce owner =
     (if android then EngineBase else processSplit_dial base_name (ProcessRules p) hasForce owner)"

text \<open>
  The bridges into the engines, once they have a flow: refused when the session that made the bridge has ended, answered by
  mihomo's resolver when it hijacks port 53, or handed to the engine under the inbound's name.
\<close>

datatype bridged = SessionEnded | HijackedDNS | ToEngine string

definition mihomoBridge_dial :: "int \<Rightarrow> int \<Rightarrow> bool \<Rightarrow> string \<Rightarrow> nat \<Rightarrow> bridged" where
  "mihomoBridge_dial sessionGen mark hijackDNS inName dstPort =
     (if sessionGen \<noteq> mark then SessionEnded else if hijackDNS \<and> dstPort = 53 then HijackedDNS else ToEngine inName)"

definition xrayBridge_dispatch :: "int \<Rightarrow> int \<Rightarrow> string \<Rightarrow> bridged" where
  "xrayBridge_dispatch sessionGen mark tag = (if sessionGen \<noteq> mark then SessionEnded else ToEngine tag)"

text \<open>
  The bridge of a session leads nowhere once the session has ended, whatever the flow's destination.
\<close>

lemma ended_bridge_refuses:
  "sessionGen \<noteq> mark \<Longrightarrow> mihomoBridge_dial sessionGen mark hijackDNS inName dstPort = SessionEnded
     \<and> xrayBridge_dispatch sessionGen mark tag = SessionEnded"
  by (simp add: mihomoBridge_dial_def xrayBridge_dispatch_def)

text \<open>
  A flow of an app a tier blocks by name never leaves, and one of an app that must go direct never enters the tunnel;
  that the names of a profile are read in the order of its tiers is a matter of \<^const>\<open>ProcessRules\<close>.
\<close>

lemma split_obeys_rules:
  assumes "path \<noteq> []" "ProcessRules p (ToLower (base_name path)) = Some t"
  shows "sessionBridge_dial False base_name p True (Some path) =
    (case t of TargetDirect \<Rightarrow> PhysicalInterface | TargetBlock \<Rightarrow> Refuse | TargetProxy \<Rightarrow> EngineForce)"
  using assms by (simp add: sessionBridge_dial_def processSplit_dial_def process_decision_def proxyFor_def split: Target.split)

end
