(* ===== verification/Start_Config.thy ===== *)
theory Start_Config
  imports Core_Options Server_Selection Xray_Socks Mihomo_Config
begin

text \<open>
  From a start request to the configuration an engine runs: the assembly in \<^verbatim>\<open>xrayStart\<close> (\<^verbatim>\<open>src/internal/core/xray.go\<close>)
  and the choice of an inbound in \<^verbatim>\<open>mihomoStart\<close> (\<^verbatim>\<open>engine_mihomo.go\<close>, \<^verbatim>\<open>engine_mihomo_bridge_multi.go\<close>).

  The physical interface, and whether the JSON wrappers of the DNS part could be built, are parameters.
\<close>

section \<open>xray\<close>

record host_facts =
  hf_physicalIP :: string
  hf_physicalName :: string
  hf_poolOk :: bool
  hf_hostsOk :: bool

datatype start_error = BadDomainStrategy string | LinkError xray_error | NoOutbound | BadProxyPort int

definition session_profile :: "host_facts \<Rightarrow> Profile \<Rightarrow> start_error + Profile" where
  "session_profile h prof =
     (case NormalizeDomainStrategy (DomainStrategy prof) of (ds, ok) \<Rightarrow>
        if \<not> ok then Inl (BadDomainStrategy (DomainStrategy prof))
        else Inr (prof\<lparr>DirectSendThrough := hf_physicalIP h, DirectInterface := hf_physicalName h, DomainStrategy := ds\<rparr>))"

fun link_error :: "xray_error + 'a \<Rightarrow> start_error + 'a" where
  "link_error (Inl e) = Inl (LinkError e)"
| "link_error (Inr x) = Inr x"

definition tuned_config :: "host_facts \<Rightarrow> engineOpts \<Rightarrow> Profile \<Rightarrow> BuildResult \<Rightarrow> xconfig" where
  "tuned_config h eo prof res =
     ApplyFingerprint
       (ApplyMux (ApplyDNS (hf_poolOk h) (hf_hostsOk h) (res_Config res) (eo_dns eo) prof)
          (res_OutboundTags res) (res_VisionTags res) (eo_muxConcurrency eo) (eo_xudpConcurrency eo))
       (res_OutboundTags res) (eo_fingerprint eo)"

definition with_inbound :: "engineOpts \<Rightarrow> Profile \<Rightarrow> xconfig \<Rightarrow> start_error + xconfig" where
  "with_inbound eo prof cfg =
     (if 0 < eo_proxyPort eo then
        (case ApplyProxyInbound cfg (eo_proxyPort eo) (eo_proxyUser eo) (eo_proxyPass eo) of
           None \<Rightarrow> Inl (BadProxyPort (eo_proxyPort eo))
         | Some (cfg, _) \<Rightarrow> Inr (ApplySniffing cfg (eo_sniffing eo) (LocalNetworks prof)))
      else Inr cfg)"

definition xray_session_config ::
    "xray_deps \<Rightarrow> host_facts \<Rightarrow> engineOpts \<Rightarrow> string \<Rightarrow> string \<Rightarrow> start_error + (xconfig \<times> BuildResult \<times> Profile)" where
  "xray_session_config d h eo rawconfig level =
     and_then (session_profile h (eo_routing eo)) (\<lambda>prof.
     and_then (link_error (xray_BuildConfig d (splitLinks rawconfig)
       \<lparr>bo_Strategy = eo_strategy eo, bo_ProbeURL = eo_probeURL eo, bo_ProbeIntervalSec = 0\<rparr> prof level)) (\<lambda>res.
     and_then (require (cfg_OutboundConfigs (res_Config res) \<noteq> []) NoOutbound) (\<lambda>_.
     and_then (with_inbound eo prof (tuned_config h eo prof res)) (\<lambda>cfg. Inr (cfg, res, prof)))))"

lemma link_error_Inr [simp]: "link_error r = Inr x \<longleftrightarrow> r = Inr x"
  by (cases r) auto

lemma tuning_keeps:
  "rule_list (ApplyMux cfg tags vision c x) = rule_list cfg" "outbound_tags (ApplyMux cfg tags vision c x) = outbound_tags cfg"
  "rule_list (ApplyFingerprint cfg tags fp) = rule_list cfg" "outbound_tags (ApplyFingerprint cfg tags fp) = outbound_tags cfg"
  by (auto simp: ApplyMux_def ApplyFingerprint_def mux_outbound_def rule_list_def outbound_tags_def Let_def)

lemma with_inbound_keeps:
  assumes "with_inbound eo prof cfg = Inr cfg'"
  shows "rule_list cfg' = rule_list cfg" "outbound_tags cfg' = outbound_tags cfg"
  using assms
  by (auto simp: with_inbound_def ApplyProxyInbound_def ApplySniffing_def rule_list_def outbound_tags_def Let_def
      split: if_splits)

lemma plain_dns_rules: "rule_list (applyPlainDNS ok cfg dns prof) = rule_list cfg"
  by (simp add: applyPlainDNS_def rule_list_def Let_def)

text \<open>What decides a flow once the DNS part has put its rules ahead.\<close>

definition session_route ::
    "bool \<Rightarrow> bool \<Rightarrow> (field \<Rightarrow> string \<Rightarrow> bool) \<Rightarrow> string \<Rightarrow> target option \<Rightarrow> target option" where
  "session_route fake hasDirect hits itag rest =
     (if fake \<and> itag = dnsInternalTag \<and> hasDirect then Some direct_target
      else if fake \<and> itag \<in> {AppTrafficTag, ForceProxyTag} \<and> hits FPort ''53''
      then Some \<lparr>t_tag = dnsOutboundTag, t_isBalancer = False\<rparr>
      else rest)"

lemma dns_route:
  assumes "xray_field_contract applies itag hits" "hf_poolOk h"
  shows "route applies (rule_list (ApplyDNS (hf_poolOk h) hosts_ok cfg dns prof)) =
    session_route (FakeIP dns) (hasOutbound cfg directTag) hits itag (route applies (rule_list cfg))"
proof (cases "FakeIP dns")
  case True
  with fake_dns_route [OF assms(1) True] assms(2) show ?thesis by (simp add: session_route_def)
next
  case False
  then show ?thesis by (simp add: ApplyDNS_def plain_dns_rules session_route_def)
qed

lemma built_route:
  assumes "xray_BuildConfig d links opts p level = Inr res" "xray_field_contract applies itag hits"
  shows "route applies (rule_list (res_Config res)) =
    profile_policy p \<lparr>t_tag = res_RouteTarget res, t_isBalancer = res_RouteIsBalancer res\<rparr> itag hits"
proof -
  have "\<exists>r. res = routed p r \<and> res_RouteTarget r \<noteq> []"
    using assms(1)
    by (auto simp: xray_BuildConfig_def balancerTag_def OutboundTag_def simp del: build_outbounds.simps split: list.splits)
  then show ?thesis
    using applyRouting_policy [OF assms(2)] by auto
qed


definition sample_facts :: host_facts where
  "sample_facts = \<lparr>hf_physicalIP = [], hf_physicalName = ''eth0'', hf_poolOk = True, hf_hostsOk = True\<rparr>"

definition link_request :: EngineStartRequest where
  "link_request = sample_request\<lparr>req_Config := ''vless://a''\<rparr>"


section \<open>mihomo\<close>

definition xrayDefaultDnsServer :: string where "xrayDefaultDnsServer = ''1.1.1.1''"
definition defaultTunMTU :: int where "defaultTunMTU = 1420"

record bridgeSetup =
  bs_forceProxy :: bool
  bs_hijackDNS :: bool

text \<open>The DNS intent of a tunnel: fake-ip when no mode is named, and some server.\<close>

definition tunnel_dns :: "DnsConfig \<Rightarrow> DnsConfig" where
  "tunnel_dns dns0 =
     (let dns = (if TrimSpace (d_Mode dns0) = [] then dns0\<lparr>d_Mode := ModeFakeIP\<rparr> else dns0)
      in if NormalizedServers dns [] = [] then dns\<lparr>d_Servers := [xrayDefaultDnsServer]\<rparr> else dns)"

definition routingHasForceProxy :: "Profile \<Rightarrow> bool" where
  "routingHasForceProxy prof = hasProcessProxy prof"

definition mihomoUsesBridge :: "string \<Rightarrow> bool \<Rightarrow> int \<Rightarrow> bool" where
  "mihomoUsesBridge os androidBridge proxyPort =
     (if 0 < proxyPort then False else if os = ''android'' then androidBridge else os = ''windows'')"

definition no_inbound :: "DnsConfig \<Rightarrow> Inbound" where
  "no_inbound dns = \<lparr>MixedPort = 0, Tun = None, Bridge = False, Interface_name = [], ForceProxy = False, in_DNS = dns,
     ProxyUser = [], ProxyPass = []\<rparr>"

definition mihomoBridgeInbound :: "host_facts \<Rightarrow> DnsConfig \<Rightarrow> Profile \<Rightarrow> Inbound \<times> bridgeSetup" where
  "mihomoBridgeInbound h dns0 prof =
     (let dns = tunnel_dns dns0;
          b = \<lparr>bs_forceProxy = routingHasForceProxy prof, bs_hijackDNS = FakeIP dns\<rparr>
      in ((no_inbound dns)\<lparr>Bridge := True, Interface_name := hf_physicalName h, ForceProxy := bs_forceProxy b\<rparr>, b))"

definition mihomo_inbound ::
    "string \<Rightarrow> bool \<Rightarrow> host_facts \<Rightarrow> int \<Rightarrow> engineOpts \<Rightarrow> Inbound \<times> bridgeSetup option" where
  "mihomo_inbound os androidBridge h tunFd eo =
     (if 0 < eo_proxyPort eo then
        ((no_inbound (eo_dns eo))\<lparr>MixedPort := eo_proxyPort eo, ProxyUser := eo_proxyUser eo, ProxyPass := eo_proxyPass eo\<rparr>, None)
      else if mihomoUsesBridge os androidBridge (eo_proxyPort eo) then
        (case mihomoBridgeInbound h (eo_dns eo) (eo_routing eo) of (inb, b) \<Rightarrow> (inb, Some b))
      else
        ((no_inbound no_dns)\<lparr>Tun := Some
           \<lparr>FileDescriptor = (if 0 \<le> tunFd then tunFd else 0), Device = (if 0 \<le> tunFd then [] else ''GlitchVPNMeta''),
            MTU = defaultTunMTU, tun_DNS = tunnel_dns (eo_dns eo)\<rparr>\<rparr>, None))"

definition mihomo_options :: "engineOpts \<Rightarrow> Options" where
  "mihomo_options eo = \<lparr>Strategy = eo_strategy eo, DisableSniffing = \<not> eo_sniffing eo, ProbeURL = eo_probeURL eo,
     Fingerprint = eo_fingerprint eo\<rparr>"

lemma FakeIP_mode: "d_Mode a = d_Mode b \<Longrightarrow> FakeIP a = FakeIP b"
  by (simp add: FakeIP_def)

lemma tunnel_dns_fields:
  "d_Mode (tunnel_dns c) = d_Mode (effective_dns EngineMihomo c)"
  "d_FakeIPFilter (tunnel_dns c) = d_FakeIPFilter c" "d_DisableIPv6 (tunnel_dns c) = d_DisableIPv6 c"
  "d_FakeIPFilter (effective_dns e c) = d_FakeIPFilter c"
  by (simp_all add: tunnel_dns_def effective_dns_def Let_def)

lemma tunnel_dns_valid:
  assumes "Dns_Validate (effective_dns EngineMihomo c) EngineMihomo = None"
  shows "Dns_Validate (tunnel_dns c) EngineMihomo = None"
  using assms FakeIP_mode [OF tunnel_dns_fields(1), of c]
  by (auto simp: Dns_Validate_def NormalizedFilter_def tunnel_dns_fields Let_def split: if_splits)

lemma tunnel_dns_fake: "TrimSpace (d_Mode c) = [] \<Longrightarrow> FakeIP (tunnel_dns c)"
proof -
  have "EqualFold (TrimSpace ModeFakeIP) ModeFakeIP" by code_simp
  then show "TrimSpace (d_Mode c) = [] \<Longrightarrow> FakeIP (tunnel_dns c)"
    by (simp add: FakeIP_def tunnel_dns_def Let_def)
qed

lemma tunnel_dns_servers: "NormalizedServers (tunnel_dns c) [] \<noteq> []"
proof -
  have "trimmed [xrayDefaultDnsServer] \<noteq> []" by code_simp
  then show ?thesis
    by (simp add: tunnel_dns_def NormalizedServers_def Let_def)
qed

text \<open>
  C20. What the options of a mihomo start were checked for is what runs. A tunnel's DNS intent, after the defaults that start
  fills in, still passes mihomo's check of the filter, names some server and carries the request's IPv6 switch; it is in
  fake-ip mode when the request names none; and exactly one inbound is set: the loopback port with the caller's
  credentials, the bridge, or mihomo's own TUN.
\<close>

theorem mihomo_start_runs_what_was_checked:
  assumes "optsFromRequest od req EngineMihomo = Inr eo" "mihomo_inbound os androidBridge h tunFd eo = (inb, b)"
  shows "(if 0 < eo_proxyPort eo
      then MixedPort inb = eo_proxyPort eo \<and> Tun inb = None \<and> \<not> Bridge inb \<and> b = None
        \<and> ProxyUser inb = opt (req_Opts req) ''proxyUser'' \<and> ProxyPass inb = opt (req_Opts req) ''proxyPass''
      else MixedPort inb = 0 \<and> Bridge inb = (Tun inb = None) \<and> Bridge inb = (b \<noteq> None)
        \<and> (let dns = (case Tun inb of Some t \<Rightarrow> tun_DNS t | None \<Rightarrow> in_DNS inb)
           in Dns_Validate dns EngineMihomo = None \<and> NormalizedServers dns [] \<noteq> []
              \<and> d_DisableIPv6 dns = boolOpt (opt (req_Opts req) ''disableIPv6'')
              \<and> (TrimSpace (d_Mode (eo_dns eo)) = [] \<longrightarrow> FakeIP dns)
              \<and> (case b of Some setup \<Rightarrow> bs_hijackDNS setup = FakeIP dns | None \<Rightarrow> True)))"
proof (cases "0 < eo_proxyPort eo")
  case True
  have "eo_proxyUser eo = opt (req_Opts req) ''proxyUser''" "eo_proxyPass eo = opt (req_Opts req) ''proxyPass''"
    using assms(1) by (auto simp: optsFromRequest_def Let_def)
  with True assms(2) show ?thesis by (auto simp: mihomo_inbound_def no_inbound_def)
next
  case False
  have h: "opts_honoured od req EngineMihomo eo" by (rule opts_from_honoured [OF assms(1)])
  have v: "Dns_Validate (tunnel_dns (eo_dns eo)) EngineMihomo = None"
    using h False by (intro tunnel_dns_valid) (auto simp: opts_honoured_def Let_def)
  have s: "NormalizedServers (tunnel_dns (eo_dns eo)) [] \<noteq> []"
    by (rule tunnel_dns_servers)
  have i: "d_DisableIPv6 (tunnel_dns (eo_dns eo)) = boolOpt (opt (req_Opts req) ''disableIPv6'')"
    using h by (simp add: opts_honoured_def Let_def tunnel_dns_fields requested_dns_IPv6)
  have f: "TrimSpace (d_Mode (eo_dns eo)) = [] \<longrightarrow> FakeIP (tunnel_dns (eo_dns eo))"
    by (simp add: tunnel_dns_fake)
  from False assms(2) v s i f show ?thesis
    by (auto simp: mihomo_inbound_def mihomoBridgeInbound_def no_inbound_def Let_def split: if_splits)
qed

theorem mihomo_start_runs_what_was_checked_witness:
  "\<exists>eo. optsFromRequest sample_option_deps sample_request EngineMihomo = Inr eo
     \<and> Bridge (fst (mihomo_inbound ''windows'' False sample_facts 3 eo))
     \<and> Dns_Validate (in_DNS (fst (mihomo_inbound ''windows'' False sample_facts 3 eo))) EngineMihomo = None"
proof -
  let ?o = "optsFromRequest sample_option_deps sample_request EngineMihomo"
  have "\<not> isl ?o" by code_simp
  then have o: "?o = Inr (projr ?o)" by (metis sum.collapse(2))
  have p: "eo_proxyPort (projr ?o) = 0" by code_simp
  have b: "Bridge (fst (mihomo_inbound ''windows'' False sample_facts 3 (projr ?o)))" by code_simp
  obtain inb b' where m: "mihomo_inbound ''windows'' False sample_facts 3 (projr ?o) = (inb, b')" by force
  have "Dns_Validate (in_DNS inb) EngineMihomo = None"
    using mihomo_start_runs_what_was_checked [OF o m] b p by (simp add: m Let_def)
  with o b m show ?thesis by (intro exI [of _ "projr ?o"]) simp
qed

end
