(* ===== verification/Start_Resources.thy ===== *)
theory Start_Resources
  imports Prelude
begin

text \<open>
  What a start acquires and what a failed start or a stop gives back: the bodies of \<^verbatim>\<open>xrayStart\<close>, \<^verbatim>\<open>mihomoStart\<close> and
  \<^verbatim>\<open>awgStart\<close> after their guards, with \<^verbatim>\<open>startTun2socks\<close>, \<^verbatim>\<open>xrayRollback\<close>, \<^verbatim>\<open>mihomoTeardown\<close> and the stops
  (\<^verbatim>\<open>src/internal/core/xray.go\<close>, \<^verbatim>\<open>engine_mihomo.go\<close>, \<^verbatim>\<open>awg.go\<close>, \<^verbatim>\<open>tun2socks_bridge.go\<close>, \<^verbatim>\<open>engine_mihomo_bridge_multi.go\<close>).

  A resource is a flag: held or not. Whether a step that can fail succeeds is a parameter.
\<close>

section \<open>Resources\<close>

record resources =
  r_instance :: bool  \<comment> \<open>\<^verbatim>\<open>xrayCoreInstance\<close>\<close>
  r_life :: bool  \<comment> \<open>\<^verbatim>\<open>xrayLife\<close>, not cancelled\<close>
  r_dialer :: bool  \<comment> \<open>the system dialer is kept on the session\<close>
  r_traffic :: bool
  r_logBridge :: bool
  r_applied :: bool  \<comment> \<open>a session's configuration is applied to mihomo\<close>
  r_inspector :: bool
  r_handle :: bool  \<comment> \<open>an AmneziaWG device\<close>
  r_tun2socks :: bool
  r_bridgeProxy :: bool
  r_routes :: bool  \<comment> \<open>what \<^verbatim>\<open>configureTunV3\<close> set\<close>
  r_running :: bool  \<comment> \<open>of the session that starts\<close>

definition no_resources :: resources where
  "no_resources = \<lparr>r_instance = False, r_life = False, r_dialer = False, r_traffic = False, r_logBridge = False, r_applied = False,
     r_inspector = False, r_handle = False, r_tun2socks = False, r_bridgeProxy = False, r_routes = False, r_running = False\<rparr>"

section \<open>tun2socks\<close>

record tun_host =
  h_windows :: bool
  h_adapter :: bool  \<comment> \<open>once the device is closed, \<^verbatim>\<open>cleanupTun\<close> still finds the adapter\<close>

record tun_outcome =
  to_host :: tun_host
  to_fd :: bool  \<comment> \<open>the start has a TUN fd\<close>
  to_engine :: bool
  to_configured :: bool

definition cleanup_routes :: "tun_host \<Rightarrow> resources \<Rightarrow> resources" where
  "cleanup_routes h r = (if h_windows h \<and> h_adapter h then r\<lparr>r_routes := False\<rparr> else r)"

definition startTun2socks :: "tun_outcome \<Rightarrow> resources \<Rightarrow> bool \<times> resources" where
  "startTun2socks t r =
     (if \<not> h_windows (to_host t) \<and> \<not> to_fd t then (False, r)
      else (let r = r\<lparr>r_bridgeProxy := True\<rparr>
            in if \<not> to_engine t then (False, r\<lparr>r_bridgeProxy := False\<rparr>)
               else (let r = r\<lparr>r_tun2socks := True\<rparr>
                     in if h_windows (to_host t) then (to_configured t, r\<lparr>r_routes := True\<rparr>) else (True, r))))"

definition stopTun2socks :: "tun_host \<Rightarrow> resources \<Rightarrow> resources" where
  "stopTun2socks h r =
     (if \<not> r_tun2socks r then r else cleanup_routes h (r\<lparr>r_tun2socks := False, r_bridgeProxy := False\<rparr>))"

section \<open>xray\<close>

record xray_outcome =
  xo_build :: bool
  xo_new :: bool
  xo_start :: bool
  xo_socks :: bool
  xo_sniffing :: bool
  xo_appBridge :: bool
  xo_forceBridge :: bool
  xo_tun :: tun_outcome

definition newXrayInstance :: "bool \<Rightarrow> resources \<Rightarrow> bool \<times> resources" where
  "newXrayInstance ok r =
     (if ok then (True, r\<lparr>r_instance := True, r_dialer := True, r_life := True\<rparr>) else (False, r\<lparr>r_instance := False\<rparr>))"

definition endXrayLife :: "resources \<Rightarrow> resources" where
  "endXrayLife r = r\<lparr>r_life := False\<rparr>"

definition xrayRollback :: "resources \<Rightarrow> resources" where
  "xrayRollback r =
     (let r = endXrayLife (r\<lparr>r_running := False, r_traffic := False\<rparr>)
      in if r_instance r then r\<lparr>r_dialer := False, r_instance := False\<rparr> else r)"

definition xrayStopLocked :: "tun_host \<Rightarrow> resources \<Rightarrow> resources" where
  "xrayStopLocked h r =
     (let r = endXrayLife (stopTun2socks h r)
      in if r_running r then r\<lparr>r_dialer := False, r_instance := False, r_running := False, r_traffic := False\<rparr> else r)"

definition xrayStart_instance :: "xray_outcome \<Rightarrow> resources \<Rightarrow> bool \<times> resources" where
  "xrayStart_instance x r =
     (if \<not> xo_build x then (False, r)
      else (case newXrayInstance (xo_new x) r of (ok, r) \<Rightarrow>
        if \<not> ok then (False, r)
        else (let r = r\<lparr>r_traffic := True, r_running := True\<rparr>
              in if \<not> xo_start x then (False, xrayRollback r) else (True, r))))"

definition xrayStart_proxy :: "xray_outcome \<Rightarrow> resources \<Rightarrow> bool \<times> resources" where
  "xrayStart_proxy x r = (case xrayStart_instance x r of (ok, r) \<Rightarrow>
     if \<not> ok then (False, r) else if \<not> xo_socks x then (False, xrayRollback r) else (True, r))"

definition xrayStart_tun :: "xray_outcome \<Rightarrow> bool \<Rightarrow> resources \<Rightarrow> bool \<times> resources" where
  "xrayStart_tun x force r = (case xrayStart_instance x r of (ok, r) \<Rightarrow>
     if \<not> ok then (False, r)
     else if \<not> xo_sniffing x then (False, xrayRollback r)
     else if \<not> xo_appBridge x then (False, xrayRollback r)
     else if force \<and> \<not> xo_forceBridge x then (False, xrayRollback r)
     else (case startTun2socks (xo_tun x) r of (ok, r) \<Rightarrow>
       if \<not> ok then (False, xrayRollback (stopTun2socks (to_host (xo_tun x)) r)) else (True, r)))"

section \<open>mihomo\<close>

record mihomo_outcome =
  mo_home :: bool
  mo_build :: bool
  mo_tunUp :: bool  \<comment> \<open>mihomo's own TUN stayed enabled\<close>
  mo_tun :: tun_outcome

definition mihomoTeardown :: "resources \<Rightarrow> resources" where
  "mihomoTeardown r = r\<lparr>r_applied := False, r_logBridge := False, r_inspector := False\<rparr>"

definition mihomoStartBridge :: "tun_outcome \<Rightarrow> resources \<Rightarrow> bool \<times> resources" where
  "mihomoStartBridge t r = (case startTun2socks t r of (ok, r) \<Rightarrow>
     if \<not> ok then (False, stopTun2socks (to_host t) r) else (True, r))"

definition mihomoStart :: "mihomo_outcome \<Rightarrow> bool \<Rightarrow> bool \<Rightarrow> resources \<Rightarrow> bool \<times> resources" where
  "mihomoStart m bridge proxy r =
     (if \<not> mo_home m then (False, r)
      else (let r = r\<lparr>r_logBridge := True\<rparr>
            in if \<not> mo_build m then (False, r\<lparr>r_logBridge := False\<rparr>)
               else (let r = r\<lparr>r_applied := True\<rparr>
                     in if \<not> bridge \<and> \<not> proxy \<and> \<not> mo_tunUp m then (False, mihomoTeardown r)
                        else (case (if bridge then mihomoStartBridge (mo_tun m) r else (True, r)) of (ok, r) \<Rightarrow>
                          if \<not> ok then (False, mihomoTeardown r)
                          else (True, r\<lparr>r_running := True, r_inspector := True\<rparr>)))))"

definition mihomoStopLocked :: "tun_host \<Rightarrow> resources \<Rightarrow> resources" where
  "mihomoStopLocked h r =
     (if \<not> r_running r then r else (mihomoTeardown (stopTun2socks h r))\<lparr>r_running := False\<rparr>)"

section \<open>AmneziaWG\<close>

record awg_outcome =
  ao_parse :: bool
  ao_device :: bool
  ao_host :: tun_host
  ao_configured :: bool
  ao_routesSet :: bool  \<comment> \<open>\<^verbatim>\<open>configureTunV3\<close> set routes before it failed\<close>

definition awgDeviceUp :: "awg_outcome \<Rightarrow> resources \<Rightarrow> bool \<times> resources" where
  "awgDeviceUp a r =
     (if \<not> ao_device a then (False, r)
      else (let r = r\<lparr>r_handle := True\<rparr>
            in if \<not> h_windows (ao_host a) then (True, r)
               else if ao_configured a then (True, r\<lparr>r_routes := True\<rparr>)
               else (False, r\<lparr>r_handle := False, r_routes := ao_routesSet a\<rparr>)))"

definition awgStart :: "awg_outcome \<Rightarrow> resources \<Rightarrow> bool \<times> resources" where
  "awgStart a r =
     (if \<not> ao_parse a then (False, r)
      else (case awgDeviceUp a r of (ok, r) \<Rightarrow> if \<not> ok then (False, r) else (True, r\<lparr>r_running := True\<rparr>)))"

definition awgDeviceDown :: "tun_host \<Rightarrow> resources \<Rightarrow> resources" where
  "awgDeviceDown h r = (if \<not> r_handle r then r else cleanup_routes h (r\<lparr>r_handle := False\<rparr>))"

definition awgStopLocked :: "tun_host \<Rightarrow> resources \<Rightarrow> resources" where
  "awgStopLocked h r = (if \<not> r_running r then r else (awgDeviceDown h r)\<lparr>r_running := False\<rparr>)"

section \<open>Nothing is left behind\<close>

text \<open>Everything is given back, but for the routes of a Windows host whose adapter went with the device.\<close>

definition released :: "tun_host \<Rightarrow> resources \<Rightarrow> bool" where
  "released h r \<longleftrightarrow> r\<lparr>r_routes := False\<rparr> = no_resources \<and> (r_routes r \<longrightarrow> h_windows h \<and> \<not> h_adapter h)"

lemmas resource_defs =
  released_def no_resources_def cleanup_routes_def startTun2socks_def stopTun2socks_def newXrayInstance_def endXrayLife_def
  xrayRollback_def xrayStopLocked_def xrayStart_instance_def xrayStart_proxy_def xrayStart_tun_def mihomoTeardown_def
  mihomoStartBridge_def mihomoStart_def mihomoStopLocked_def awgDeviceUp_def awgStart_def awgDeviceDown_def awgStopLocked_def

lemma xrayStart_proxy_released:
  "case xrayStart_proxy x no_resources of
     (ok, r) \<Rightarrow> if ok then r_running r \<and> r_instance r \<and> xrayStopLocked h r = no_resources else r = no_resources"
  by (cases "xo_build x"; cases "xo_new x"; cases "xo_start x"; cases "xo_socks x"; simp add: resource_defs Let_def)

lemma xrayStart_tun_released:
  "case xrayStart_tun x force no_resources of
     (ok, r) \<Rightarrow> if ok then r_running r \<and> r_instance r \<and> r_tun2socks r \<and> released (to_host (xo_tun x)) (xrayStopLocked (to_host (xo_tun x)) r)
                else released (to_host (xo_tun x)) r"
  by (cases "xo_build x"; cases "xo_new x"; cases "xo_start x"; cases "xo_sniffing x"; cases "xo_appBridge x"; cases "force \<and> \<not> xo_forceBridge x"; cases "h_windows (to_host (xo_tun x))"; simp add: resource_defs Let_def)

lemma mihomoStart_released:
  "case mihomoStart m bridge proxy no_resources of
     (ok, r) \<Rightarrow> if ok then r_running r \<and> r_applied r \<and> r_tun2socks r = bridge \<and> released (to_host (mo_tun m)) (mihomoStopLocked (to_host (mo_tun m)) r)
                else released (to_host (mo_tun m)) r"
  by (cases "mo_home m"; cases "mo_build m"; cases bridge; cases proxy; cases "mo_tunUp m"; cases "h_windows (to_host (mo_tun m))"; simp add: resource_defs Let_def)


text \<open>
  An AmneziaWG start that fails leaves the routes in one more case: on Windows, when they were set before their
  configuration failed, the device is closed and nothing removes them, adapter or not.
\<close>

lemma failed_awg_start:
  "case awgStart a no_resources of
     (ok, r) \<Rightarrow> if ok then r_running r \<and> r_handle r \<and> released (ao_host a) (awgStopLocked (ao_host a) r)
                else r = no_resources\<lparr>r_routes := ao_parse a \<and> ao_device a \<and> h_windows (ao_host a) \<and> ao_routesSet a\<rparr>"
  by (cases "ao_parse a"; cases "ao_device a"; cases "h_windows (ao_host a)"; cases "ao_configured a"; simp add: resource_defs Let_def)

end
