(* ===== verification/Tun_Windows.thy ===== *)
theory Tun_Windows
  imports Go_Netip
begin

text \<open>
  The Windows tunnel interface: its address, the split default routes, the local networks and servers kept on the physical
  gateway, its resolver, and the cleanup (\<^verbatim>\<open>src/internal/core/tun_windows_config.go\<close>).

  The calls into Windows (package \<^verbatim>\<open>winipcfg\<close>, the resolver, the clock) are fields of a record over an abstract state of
  the operating system; a \<^verbatim>\<open>Sleep\<close> is a step of it, so adapters may come and go while a loop waits. What the theorems rely on
  is \<open>winipcfg_laws\<close>: adding and deleting a route do that and nothing else.
\<close>

section \<open>Windows\<close>

type_synonym luid = nat
type_synonym pfx = "ip \<times> nat"
type_synonym route = "luid \<times> pfx \<times> ip"

record adapter =
  ad_name :: string
  ad_luid :: luid
  ad_ifIndex :: nat

record forward_row =
  fr_length :: nat
  fr_hop :: "ip option"
  fr_metric :: nat
  fr_ifIndex :: nat

datatype set_address = Assigned | Not_Found | Refused

record 'os winipcfg =
  GetAdaptersAddresses :: "'os \<Rightarrow> adapter list"
  GetIPForwardTable2 :: "'os \<Rightarrow> forward_row list option"
  LUIDFromIndex :: "'os \<Rightarrow> nat \<Rightarrow> luid option"
  InterfaceByIndex :: "'os \<Rightarrow> nat \<Rightarrow> (string \<times> nat list list) option"  \<comment> \<open>its name and its addresses, 16 bytes each\<close>
  SetIPAddressesForFamily :: "luid \<Rightarrow> pfx \<Rightarrow> 'os \<Rightarrow> set_address \<times> 'os"
  FlushIPAddresses :: "luid \<Rightarrow> 'os \<Rightarrow> 'os"
  AddRoute :: "luid \<Rightarrow> pfx \<Rightarrow> ip \<Rightarrow> 'os \<Rightarrow> 'os"
  DeleteRoute :: "luid \<Rightarrow> pfx \<Rightarrow> ip \<Rightarrow> 'os \<Rightarrow> 'os"
  SetDNS :: "luid \<Rightarrow> ip list \<Rightarrow> 'os \<Rightarrow> 'os"
  providerLookupIPv4 :: "string \<Rightarrow> ip option"
  Sleep :: "'os \<Rightarrow> 'os"

record 'os tun_state =
  os :: 'os
  lastPhyLUID :: luid
  lastServerIPv4s :: "ip list"
  lastExclusionsSet :: bool
  lastPhyIfIndex :: nat

section \<open>Adapters and the default gateway\<close>

definition defaultTunCIDR :: string where
  "defaultTunCIDR = ''198.18.0.1/32''"

definition friendlyMatch :: "string \<Rightarrow> string \<Rightarrow> bool" where
  "friendlyMatch actual expected \<longleftrightarrow>
     actual = expected \<or>
     HasPrefix actual expected \<and> list_all is_digit (TrimSpace (TrimPrefix actual expected))"

definition best_adapter :: "string \<Rightarrow> adapter list \<Rightarrow> adapter option" where
  "best_adapter name ifs = foldl (\<lambda>best ad.
     if friendlyMatch (ad_name ad) name \<and> (case best of None \<Rightarrow> True | Some b \<Rightarrow> ad_ifIndex b < ad_ifIndex ad)
     then Some ad else best) None ifs"

fun wait_rounds :: "'os winipcfg \<Rightarrow> string \<Rightarrow> nat \<Rightarrow> 'os \<Rightarrow> luid option \<times> 'os" where
  "wait_rounds w name 0 s = (None, s)"
| "wait_rounds w name (Suc n) s =
     (case best_adapter name (GetAdaptersAddresses w s) of
        Some ad \<Rightarrow> (Some (ad_luid ad), s)
      | None \<Rightarrow> wait_rounds w name n (Sleep w s))"

definition waitForInterfaceLike :: "'os winipcfg \<Rightarrow> string \<Rightarrow> 'os \<Rightarrow> luid option \<times> 'os" where
  "waitForInterfaceLike w name s = wait_rounds w name 50 s"

fun address_rounds :: "'os winipcfg \<Rightarrow> luid \<Rightarrow> pfx \<Rightarrow> nat \<Rightarrow> 'os \<Rightarrow> bool \<times> 'os" where
  "address_rounds w l p 0 s = (False, s)"
| "address_rounds w l p (Suc n) s =
     (case SetIPAddressesForFamily w l p s of
        (Assigned, s) \<Rightarrow> (True, s)
      | (Not_Found, s) \<Rightarrow> address_rounds w l p n (Sleep w s)
      | (Refused, s) \<Rightarrow> (False, s))"

definition setAddressWithRetry :: "'os winipcfg \<Rightarrow> luid \<Rightarrow> pfx \<Rightarrow> 'os \<Rightarrow> bool \<times> 'os" where
  "setAddressWithRetry w l p s = address_rounds w l p 20 s"

definition luidToIfIndex :: "'os winipcfg \<Rightarrow> luid \<Rightarrow> 'os \<Rightarrow> nat option" where
  "luidToIfIndex w l s = map_option ad_ifIndex (find (\<lambda>ad. ad_luid ad = l) (GetAdaptersAddresses w s))"

definition best_row :: "forward_row option \<Rightarrow> forward_row \<Rightarrow> forward_row option" where
  "best_row best r =
     (if fr_length r \<noteq> 0 then best
      else case fr_hop r of
        Some (IP4 _) \<Rightarrow>
          if fr_metric r < (case best of None \<Rightarrow> 2 ^ 32 - 1 | Some b \<Rightarrow> fr_metric b) then Some r else best
      | _ \<Rightarrow> best)"

definition defaultGateway :: "'os winipcfg \<Rightarrow> 'os \<Rightarrow> (ip \<times> nat) option" where
  "defaultGateway w s =
     (case GetIPForwardTable2 w s of
        None \<Rightarrow> None
      | Some tbl \<Rightarrow> map_option (\<lambda>r. (the (fr_hop r), fr_ifIndex r)) (foldl best_row None tbl))"

definition physicalInterfaceIP :: "'os winipcfg \<Rightarrow> 'os \<Rightarrow> string" where
  "physicalInterfaceIP w s =
     (case defaultGateway w s of
        None \<Rightarrow> []
      | Some (_, ifIdx) \<Rightarrow>
          case InterfaceByIndex w s ifIdx of
            None \<Rightarrow> []
          | Some (_, addrs) \<Rightarrow> (case find is_v4 addrs of None \<Rightarrow> [] | Some a \<Rightarrow> Addr_String (drop 12 a)))"

definition physicalInterfaceName :: "'os winipcfg \<Rightarrow> 'os \<Rightarrow> string" where
  "physicalInterfaceName w s =
     (case defaultGateway w s of
        None \<Rightarrow> []
      | Some (_, ifIdx) \<Rightarrow> (case InterfaceByIndex w s ifIdx of None \<Rightarrow> [] | Some (name, _) \<Rightarrow> name))"

section \<open>The resolver\<close>

fun dns_addrs :: "string list \<Rightarrow> string list \<Rightarrow> ip list" where
  "dns_addrs seen [] = []"
| "dns_addrs seen (tok # toks) =
     (let h = (case SplitHostPort tok of Some (hh, _) \<Rightarrow> if hh \<noteq> [] then hh else tok | None \<Rightarrow> tok)
      in case ParseAddr h of
           Some (IP4 b) \<Rightarrow>
             if Addr_String b \<in> set seen then dns_addrs seen toks else IP4 b # dns_addrs (Addr_String b # seen) toks
         | _ \<Rightarrow> dns_addrs seen toks)"

definition parseDNSListToAddrs :: "string \<Rightarrow> ip list" where
  "parseDNSListToAddrs s =
     dns_addrs [] (Fields (TrimSpace (map (\<lambda>c. if c = CHR '','' \<or> c = CHR '';'' \<or> c = CHR 0x09 then CHR '' '' else c) s)))"

definition setDNS :: "'os winipcfg \<Rightarrow> nat \<Rightarrow> string \<Rightarrow> 'os \<Rightarrow> 'os" where
  "setDNS w tunIfIndex dnsAddr s =
     (case LUIDFromIndex w s tunIfIndex of
        None \<Rightarrow> s
      | Some l \<Rightarrow> (if parseDNSListToAddrs dnsAddr = [] then s else SetDNS w l (parseDNSListToAddrs dnsAddr) s))"

section \<open>configureTunV3\<close>

definition any4 :: ip where
  "any4 = IP4 [0, 0, 0, 0]"

definition split_defaults :: "pfx list" where
  "split_defaults = [(IP4 [0, 0, 0, 0], 1), (IP4 [128, 0, 0, 0], 1)]"

definition local_excludes :: "pfx list" where
  "local_excludes = [(IP4 [10, 0, 0, 0], 8), (IP4 [172, 16, 0, 0], 12), (IP4 [192, 168, 0, 0], 16), (IP4 [100, 64, 0, 0], 10)]"

fun setup_rounds :: "'os winipcfg \<Rightarrow> string \<Rightarrow> pfx \<Rightarrow> nat \<Rightarrow> 'os \<Rightarrow> luid option \<times> 'os" where
  "setup_rounds w name p 0 s = (None, s)"
| "setup_rounds w name p (Suc n) s =
     (case waitForInterfaceLike w name s of
        (None, s) \<Rightarrow> setup_rounds w name p n (Sleep w s)
      | (Some l, s) \<Rightarrow>
          case setAddressWithRetry w l p s of
            (False, s) \<Rightarrow> setup_rounds w name p n (Sleep w s)
          | (True, s) \<Rightarrow> (Some l, s))"

definition next_hop :: "pfx \<Rightarrow> ip" where
  "next_hop p = (if snd p = 32 then any4 else fst p)"

definition add_routes :: "'os winipcfg \<Rightarrow> luid \<Rightarrow> ip \<Rightarrow> pfx list \<Rightarrow> 'os \<Rightarrow> 'os" where
  "add_routes w l hop ps s = foldl (\<lambda>s p. AddRoute w l p hop s) s ps"

definition delete_routes :: "'os winipcfg \<Rightarrow> luid \<Rightarrow> ip \<Rightarrow> pfx list \<Rightarrow> 'os \<Rightarrow> 'os" where
  "delete_routes w l hop ps s = foldl (\<lambda>s p. DeleteRoute w l p hop s) s ps"

definition exclude_local :: "'os winipcfg \<Rightarrow> 'os tun_state \<Rightarrow> 'os tun_state" where
  "exclude_local w st =
     (case defaultGateway w (os st) of
        None \<Rightarrow> st
      | Some (gw, ifIdx) \<Rightarrow>
          case LUIDFromIndex w (os st) ifIdx of
            None \<Rightarrow> st
          | Some phy \<Rightarrow> st\<lparr>os := add_routes w phy gw local_excludes (os st),
                            lastPhyLUID := phy, lastPhyIfIndex := ifIdx, lastExclusionsSet := True\<rparr>)"

definition server_ipv4 :: "'os winipcfg \<Rightarrow> string \<Rightarrow> ip option" where
  "server_ipv4 w host =
     (if host = [] then None
      else case ParseAddr host of Some (IP4 b) \<Rightarrow> Some (IP4 b) | _ \<Rightarrow> providerLookupIPv4 w host)"

definition pin_server :: "'os winipcfg \<Rightarrow> luid \<Rightarrow> ip \<times> nat \<Rightarrow> ip \<Rightarrow> 'os tun_state \<Rightarrow> 'os tun_state" where
  "pin_server w tun g ip st =
     (let st = st\<lparr>os := DeleteRoute w tun (ip, 32) any4 (os st)\<rparr>
      in case LUIDFromIndex w (os st) (snd g) of
           None \<Rightarrow> st
         | Some phy \<Rightarrow> st\<lparr>os := AddRoute w phy (ip, 32) (fst g) (os st), lastServerIPv4s := lastServerIPv4s st @ [ip]\<rparr>)"

fun pin_servers :: "'os winipcfg \<Rightarrow> luid \<Rightarrow> (ip \<times> nat) option \<Rightarrow> string list \<Rightarrow> 'os tun_state \<Rightarrow> bool \<times> 'os tun_state" where
  "pin_servers w tun g [] st = (True, st)"
| "pin_servers w tun g (host # hosts) st =
     (case server_ipv4 w host of
        None \<Rightarrow> pin_servers w tun g hosts st
      | Some ip \<Rightarrow>
          case (case g of Some g \<Rightarrow> Some g | None \<Rightarrow> defaultGateway w (os st)) of
            None \<Rightarrow> (False, st)
          | Some g \<Rightarrow> pin_servers w tun (Some g) hosts (pin_server w tun g ip st))"

definition set_tun_dns :: "'os winipcfg \<Rightarrow> luid \<Rightarrow> string \<Rightarrow> 'os tun_state \<Rightarrow> bool \<times> 'os tun_state" where
  "set_tun_dns w tun dnsAddr st =
     (case luidToIfIndex w tun (os st) of
        None \<Rightarrow> (False, st)
      | Some i \<Rightarrow> (True, st\<lparr>os := setDNS w i dnsAddr (os st)\<rparr>))"

definition configureTunV3 :: "'os winipcfg \<Rightarrow> string \<Rightarrow> string \<Rightarrow> string list \<Rightarrow> string \<Rightarrow> 'os tun_state \<Rightarrow> bool \<times> 'os tun_state" where
  "configureTunV3 w ifaceName tunCIDR servers dnsAddr st =
     (case ParsePrefix (TrimSpace (if tunCIDR = [] then defaultTunCIDR else tunCIDR)) of
        None \<Rightarrow> (False, st)
      | Some p \<Rightarrow>
          case setup_rounds w ifaceName p 50 (os st) of
            (None, s) \<Rightarrow> (False, st\<lparr>os := s\<rparr>)
          | (Some tun, s) \<Rightarrow>
              let st = exclude_local w (st\<lparr>os := add_routes w tun (next_hop p) split_defaults s\<rparr>)
              in case pin_servers w tun None servers (st\<lparr>lastServerIPv4s := []\<rparr>) of
                   (False, st) \<Rightarrow> (False, st)
                 | (True, st) \<Rightarrow> set_tun_dns w tun dnsAddr st)"

section \<open>cleanupTun\<close>

definition old_hop :: ip where
  "old_hop = IP4 [198, 18, 0, 1]"

definition unpin_servers :: "'os winipcfg \<Rightarrow> 'os tun_state \<Rightarrow> 'os tun_state" where
  "unpin_servers w st =
     (if lastServerIPv4s st = [] then st
      else (case defaultGateway w (os st) of
              None \<Rightarrow> st
            | Some (gw, ifIdx) \<Rightarrow>
                case LUIDFromIndex w (os st) ifIdx of
                  None \<Rightarrow> st
                | Some phy \<Rightarrow> st\<lparr>os := delete_routes w phy gw (map (\<lambda>ip. (ip, 32)) (lastServerIPv4s st)) (os st)\<rparr>)
           \<lparr>lastServerIPv4s := []\<rparr>)"

definition include_local :: "'os winipcfg \<Rightarrow> 'os tun_state \<Rightarrow> 'os tun_state" where
  "include_local w st =
     (if \<not> (lastExclusionsSet st \<and> lastPhyLUID st \<noteq> 0) then st
      else (case defaultGateway w (os st) of
              None \<Rightarrow> st
            | Some (gw, _) \<Rightarrow> st\<lparr>os := delete_routes w (lastPhyLUID st) gw local_excludes (os st)\<rparr>)
           \<lparr>lastExclusionsSet := False, lastPhyLUID := 0, lastPhyIfIndex := 0\<rparr>)"

definition drop_split_defaults :: "'os winipcfg \<Rightarrow> luid \<Rightarrow> 'os \<Rightarrow> 'os" where
  "drop_split_defaults w tun s =
     foldl (\<lambda>s p. DeleteRoute w tun p old_hop (DeleteRoute w tun p any4 s)) s split_defaults"

definition cleanupTun :: "'os winipcfg \<Rightarrow> string \<Rightarrow> 'os tun_state \<Rightarrow> 'os tun_state" where
  "cleanupTun w ifaceName st =
     (case waitForInterfaceLike w ifaceName (os st) of
        (None, s) \<Rightarrow> st\<lparr>os := s\<rparr>
      | (Some tun, s) \<Rightarrow>
          include_local w (unpin_servers w
            (st\<lparr>os := SetDNS w tun [] (FlushIPAddresses w tun (drop_split_defaults w tun s))\<rparr>)))"

section \<open>What the calls into Windows do\<close>

text \<open>
  A call leaves the adapters, the interface numbers and the default routes alone. Only a route of non-zero length is ever added or
  deleted. \<open>routes\<close> are the routes the program sets, apart from those Windows keeps for the interface addresses.
\<close>

definition default_rows :: "'os winipcfg \<Rightarrow> 'os \<Rightarrow> forward_row list option" where
  "default_rows w s = map_option (filter (\<lambda>r. fr_length r = 0)) (GetIPForwardTable2 w s)"

definition same_host :: "'os winipcfg \<Rightarrow> 'os \<Rightarrow> 'os \<Rightarrow> bool" where
  "same_host w s s' \<longleftrightarrow>
     GetAdaptersAddresses w s' = GetAdaptersAddresses w s \<and> LUIDFromIndex w s' = LUIDFromIndex w s \<and>
     default_rows w s' = default_rows w s"

definition winipcfg_laws :: "'os winipcfg \<Rightarrow> ('os \<Rightarrow> route set) \<Rightarrow> bool" where
  "winipcfg_laws w routes \<longleftrightarrow>
     (\<forall>l p h s. snd p \<noteq> 0 \<longrightarrow> routes (AddRoute w l p h s) = insert (l, p, h) (routes s) \<and> same_host w s (AddRoute w l p h s)) \<and>
     (\<forall>l p h s. snd p \<noteq> 0 \<longrightarrow> routes (DeleteRoute w l p h s) = routes s - {(l, p, h)} \<and> same_host w s (DeleteRoute w l p h s)) \<and>
     (\<forall>l p s. routes (snd (SetIPAddressesForFamily w l p s)) = routes s \<and> same_host w s (snd (SetIPAddressesForFamily w l p s))) \<and>
     (\<forall>l s. routes (FlushIPAddresses w l s) = routes s \<and> same_host w s (FlushIPAddresses w l s)) \<and>
     (\<forall>l ns s. routes (SetDNS w l ns s) = routes s \<and> same_host w s (SetDNS w l ns s)) \<and>
     (\<forall>s. routes (Sleep w s) = routes s) \<and>
     (\<forall>s i l. LUIDFromIndex w s i = Some l \<longrightarrow> l \<noteq> 0)"

text \<open>Nothing else happens to the network while a loop sleeps.\<close>

definition steady :: "'os winipcfg \<Rightarrow> bool" where
  "steady w \<longleftrightarrow> (\<forall>s. same_host w s (Sleep w s))"

lemma winipcfg_lawsD:
  assumes "winipcfg_laws w routes"
  shows "\<forall>l p h s. snd p \<noteq> 0 \<longrightarrow> routes (AddRoute w l p h s) = insert (l, p, h) (routes s) \<and> same_host w s (AddRoute w l p h s)"
    "\<forall>l p h s. snd p \<noteq> 0 \<longrightarrow> routes (DeleteRoute w l p h s) = routes s - {(l, p, h)} \<and> same_host w s (DeleteRoute w l p h s)"
    "\<forall>l p s. routes (snd (SetIPAddressesForFamily w l p s)) = routes s \<and> same_host w s (snd (SetIPAddressesForFamily w l p s))"
    "\<forall>l s. routes (FlushIPAddresses w l s) = routes s \<and> same_host w s (FlushIPAddresses w l s)"
    "\<forall>l ns s. routes (SetDNS w l ns s) = routes s \<and> same_host w s (SetDNS w l ns s)"
    "\<forall>s. routes (Sleep w s) = routes s"
    "\<forall>s i l. LUIDFromIndex w s i = Some l \<longrightarrow> l \<noteq> 0"
  using assms unfolding winipcfg_laws_def by - (elim conjE, assumption)+

lemma winipcfg_route_laws:
  assumes "winipcfg_laws w routes" "snd p \<noteq> 0"
  shows "routes (AddRoute w l p h s) = insert (l, p, h) (routes s)" "same_host w s (AddRoute w l p h s)"
    "routes (DeleteRoute w l p h s) = routes s - {(l, p, h)}" "same_host w s (DeleteRoute w l p h s)"
  using winipcfg_lawsD(1,2) [OF assms(1), rule_format, OF assms(2)] by simp_all

lemma winipcfg_other_laws:
  assumes "winipcfg_laws w routes"
  shows "routes (snd (SetIPAddressesForFamily w l p s)) = routes s" "same_host w s (snd (SetIPAddressesForFamily w l p s))"
    "routes (FlushIPAddresses w l s) = routes s" "same_host w s (FlushIPAddresses w l s)"
    "routes (SetDNS w l ns s) = routes s" "same_host w s (SetDNS w l ns s)"
    "routes (Sleep w s) = routes s"
  using winipcfg_lawsD(3-6) [OF assms, rule_format] by simp_all

lemma LUIDFromIndex_nonzero: "winipcfg_laws w routes \<Longrightarrow> LUIDFromIndex w s i = Some l \<Longrightarrow> l \<noteq> 0"
  by (rule winipcfg_lawsD(7) [rule_format])

lemma steady_Sleep: "steady w \<Longrightarrow> same_host w s (Sleep w s)"
  unfolding steady_def by blast

lemma best_row_skips: "foldl best_row b tbl = foldl best_row b (filter (\<lambda>r. fr_length r = 0) tbl)"
  by (induction tbl arbitrary: b) (auto simp: best_row_def)

lemma defaultGateway_rows:
  "defaultGateway w s = (case default_rows w s of None \<Rightarrow> None
     | Some tbl \<Rightarrow> map_option (\<lambda>r. (the (fr_hop r), fr_ifIndex r)) (foldl best_row None tbl))"
  by (auto simp: defaultGateway_def default_rows_def best_row_skips [symmetric] split: option.split)

lemma same_host_refl [simp]: "same_host w s s"
  by (simp add: same_host_def)

lemma same_host_trans: "same_host w a b \<Longrightarrow> same_host w b c \<Longrightarrow> same_host w a c"
  by (simp add: same_host_def)

lemma same_hostD:
  assumes "same_host w s s'"
  shows "GetAdaptersAddresses w s' = GetAdaptersAddresses w s" "LUIDFromIndex w s' i = LUIDFromIndex w s i"
    "defaultGateway w s' = defaultGateway w s"
  using assms by (simp_all add: same_host_def defaultGateway_rows)

lemma add_routes_law:
  assumes "winipcfg_laws w routes" "\<forall>p \<in> set ps. snd p \<noteq> 0"
  shows "routes (add_routes w l h ps s) = routes s \<union> (\<lambda>p. (l, p, h)) ` set ps \<and> same_host w s (add_routes w l h ps s)"
  using assms(2)
proof (induction ps arbitrary: s)
  case (Cons p ps)
  have step: "routes (AddRoute w l p h s) = insert (l, p, h) (routes s)" "same_host w s (AddRoute w l p h s)"
    using winipcfg_route_laws [OF assms(1), of p] Cons.prems by simp_all
  have "add_routes w l h (p # ps) s = add_routes w l h ps (AddRoute w l p h s)" by (simp add: add_routes_def)
  with Cons.IH [of "AddRoute w l p h s"] Cons.prems step(1) same_host_trans [OF step(2)] show ?case by auto
qed (simp add: add_routes_def)

lemma delete_routes_law:
  assumes "winipcfg_laws w routes" "\<forall>p \<in> set ps. snd p \<noteq> 0"
  shows "routes (delete_routes w l h ps s) = routes s - (\<lambda>p. (l, p, h)) ` set ps \<and> same_host w s (delete_routes w l h ps s)"
  using assms(2)
proof (induction ps arbitrary: s)
  case (Cons p ps)
  have step: "routes (DeleteRoute w l p h s) = routes s - {(l, p, h)}" "same_host w s (DeleteRoute w l p h s)"
    using winipcfg_route_laws [OF assms(1), of p] Cons.prems by simp_all
  have "delete_routes w l h (p # ps) s = delete_routes w l h ps (DeleteRoute w l p h s)" by (simp add: delete_routes_def)
  with Cons.IH [of "DeleteRoute w l p h s"] Cons.prems step(1) same_host_trans [OF step(2)] show ?case by auto
qed (simp add: delete_routes_def)

lemma drop_split_defaults_law:
  assumes "winipcfg_laws w routes"
  shows "routes (drop_split_defaults w tun s) =
      routes s - {(tun, p, h) | p h. p \<in> set split_defaults \<and> (h = any4 \<or> h = old_hop)} \<and>
    same_host w s (drop_split_defaults w tun s)"
proof -
  have law: "routes (DeleteRoute w l p h s) = routes s - {(l, p, h)}" "same_host w s (DeleteRoute w l p h s)"
    if "snd p \<noteq> 0" for l p h s
    using winipcfg_route_laws(3,4) [OF assms that] by auto
  have two: "same_host w s (DeleteRoute w l p h (DeleteRoute w l q g s))" if "snd p \<noteq> 0" "snd q \<noteq> 0" for l p q h g s
    using law(2) [OF that(1)] law(2) [OF that(2)] by (rule same_host_trans [rotated])
  have "same_host w s (drop_split_defaults w tun s)"
    by (simp add: drop_split_defaults_def split_defaults_def, rule same_host_trans [OF two two]) simp_all
  moreover have "routes (drop_split_defaults w tun s) =
      routes s - {(tun, p, h) | p h. p \<in> set split_defaults \<and> (h = any4 \<or> h = old_hop)}"
    by (auto simp: drop_split_defaults_def split_defaults_def law(1))
  ultimately show ?thesis by simp
qed

lemma wait_rounds_law:
  assumes "winipcfg_laws w routes" "steady w" "wait_rounds w name n s = (r, s')"
  shows "routes s' = routes s \<and> same_host w s s' \<and>
    (\<forall>l. r = Some l \<longrightarrow> map_option ad_luid (best_adapter name (GetAdaptersAddresses w s')) = Some l)"
  using assms(3)
proof (induction n arbitrary: s)
  case (Suc n)
  have sleep: "routes (Sleep w s) = routes s" "same_host w s (Sleep w s)"
    using winipcfg_other_laws(7) [OF assms(1)] steady_Sleep [OF assms(2)] by auto
  show ?case
  proof (cases "best_adapter name (GetAdaptersAddresses w s)")
    case None
    then have "wait_rounds w name n (Sleep w s) = (r, s')" using Suc.prems by simp
    from Suc.IH [OF this] sleep(1) same_host_trans [OF sleep(2)] show ?thesis by simp
  next
    case (Some ad)
    with Suc.prems show ?thesis by auto
  qed
qed auto

lemma address_rounds_law:
  assumes "winipcfg_laws w routes" "steady w" "address_rounds w l p n s = (r, s')"
  shows "routes s' = routes s \<and> same_host w s s'"
  using assms(3)
proof (induction n arbitrary: s)
  case (Suc n)
  obtain a t where at: "SetIPAddressesForFamily w l p s = (a, t)" by (cases "SetIPAddressesForFamily w l p s")
  have "routes (snd (SetIPAddressesForFamily w l p s)) = routes s" "same_host w s (snd (SetIPAddressesForFamily w l p s))"
    using winipcfg_other_laws(1,2) [OF assms(1)] by auto
  then have set: "routes t = routes s" "same_host w s t" by (simp_all add: at)
  have sleep: "routes (Sleep w t) = routes t" "same_host w t (Sleep w t)"
    using winipcfg_other_laws(7) [OF assms(1)] steady_Sleep [OF assms(2)] by auto
  have far: "same_host w s (Sleep w t)" using set(2) sleep(2) by (rule same_host_trans)
  show ?case
  proof (cases a)
    case Not_Found
    then have "address_rounds w l p n (Sleep w t) = (r, s')" using Suc.prems at by simp
    from Suc.IH [OF this] set(1) sleep(1) same_host_trans [OF far] show ?thesis by simp
  qed (use Suc.prems at set in auto)
qed auto

lemma setup_rounds_law:
  assumes "winipcfg_laws w routes" "steady w" "setup_rounds w name p n s = (r, s')"
  shows "routes s' = routes s \<and> same_host w s s' \<and>
    (\<forall>l. r = Some l \<longrightarrow> map_option ad_luid (best_adapter name (GetAdaptersAddresses w s')) = Some l)"
  using assms(3)
proof (induction n arbitrary: s)
  case (Suc n)
  have sleep: "routes (Sleep w t) = routes t" "same_host w t (Sleep w t)" for t
    using winipcfg_other_laws(7) [OF assms(1)] steady_Sleep [OF assms(2)] by auto
  obtain f t where ft: "waitForInterfaceLike w name s = (f, t)" by (cases "waitForInterfaceLike w name s")
  have t: "routes t = routes s" "same_host w s t"
    and found: "\<And>l. f = Some l \<Longrightarrow> map_option ad_luid (best_adapter name (GetAdaptersAddresses w t)) = Some l"
    using wait_rounds_law [OF assms(1,2) ft [unfolded waitForInterfaceLike_def]] by auto
  have retry: ?case if "setup_rounds w name p n (Sleep w u) = (r, s')" "routes u = routes s" "same_host w s u" for u
    using Suc.IH [OF that(1)] that(2) sleep(1) [of u] same_host_trans [OF same_host_trans [OF that(3) sleep(2)]] by simp
  show ?case
  proof (cases f)
    case None
    then show ?thesis using Suc.prems ft retry [OF _ t] by simp
  next
    case (Some l)
    obtain b u where bu: "setAddressWithRetry w l p t = (b, u)" by (cases "setAddressWithRetry w l p t")
    have u: "routes u = routes t" "same_host w t u"
      using address_rounds_law [OF assms(1,2) bu [unfolded setAddressWithRetry_def]] by auto
    have su: "same_host w s u" using t(2) u(2) by (rule same_host_trans)
    show ?thesis
    proof (cases b)
      case True
      then have "r = Some l" "s' = u" using Suc.prems ft Some bu by simp_all
      then show ?thesis using t(1) u(1) su found [OF Some] same_hostD(1) [OF u(2)] by simp
    next
      case False
      then have "setup_rounds w name p n (Sleep w u) = (r, s')" using Suc.prems ft Some bu by simp
      then show ?thesis by (rule retry) (use t(1) u(1) su in simp_all)
    qed
  qed
qed auto

section \<open>A session's routes\<close>

text \<open>The physical interface and its gateway, and the routes to prefixes through it.\<close>

definition physical :: "'os winipcfg \<Rightarrow> 'os \<Rightarrow> (luid \<times> ip) option" where
  "physical w s = (case defaultGateway w s of
     None \<Rightarrow> None
   | Some (gw, i) \<Rightarrow> map_option (\<lambda>l. (l, gw)) (LUIDFromIndex w s i))"

definition via_gateway :: "'os winipcfg \<Rightarrow> 'os \<Rightarrow> pfx set \<Rightarrow> route set" where
  "via_gateway w s P = (case physical w s of None \<Rightarrow> {} | Some (l, gw) \<Rightarrow> (\<lambda>p. (l, p, gw)) ` P)"

definition host_pfx :: "ip \<Rightarrow> pfx" where
  "host_pfx ip = (ip, 32)"

lemma same_host_physical: "same_host w s s' \<Longrightarrow> physical w s' = physical w s"
  by (simp add: physical_def same_hostD split: option.split)

lemma same_host_via: "same_host w s s' \<Longrightarrow> via_gateway w s' P = via_gateway w s P"
  by (simp add: via_gateway_def same_host_physical)

lemma exclude_local_law:
  assumes "winipcfg_laws w routes"
  shows "routes (os (exclude_local w st)) = routes (os st) \<union> via_gateway w (os st) (set local_excludes)"
    "same_host w (os st) (os (exclude_local w st))"
    "physical w (os st) = Some (l, h) \<Longrightarrow> lastExclusionsSet (exclude_local w st) \<and> lastPhyLUID (exclude_local w st) = l"
proof -
  have "\<forall>p \<in> set local_excludes. snd p \<noteq> 0" by (simp add: local_excludes_def)
  note law = add_routes_law [OF assms this]
  show "routes (os (exclude_local w st)) = routes (os st) \<union> via_gateway w (os st) (set local_excludes)"
    "same_host w (os st) (os (exclude_local w st))"
    using law by (simp_all add: exclude_local_def via_gateway_def physical_def split: option.split)
  show "lastExclusionsSet (exclude_local w st) \<and> lastPhyLUID (exclude_local w st) = l" if "physical w (os st) = Some (l, h)"
    using that by (auto simp: exclude_local_def physical_def split: option.splits prod.splits)
qed

lemma pin_server_law:
  assumes "winipcfg_laws w routes" "defaultGateway w (os st) = Some g"
  shows "same_host w (os st) (os (pin_server w tun g ip st))"
    "routes (os (pin_server w tun g ip st)) =
      routes (os st) - {(tun, host_pfx ip, any4)} \<union> via_gateway w (os st) {host_pfx ip}"
    "set (lastServerIPv4s st) \<subseteq> set (lastServerIPv4s (pin_server w tun g ip st))"
    "physical w (os st) \<noteq> None \<Longrightarrow> ip \<in> set (lastServerIPv4s (pin_server w tun g ip st))"
    "lastExclusionsSet (pin_server w tun g ip st) = lastExclusionsSet st" "lastPhyLUID (pin_server w tun g ip st) = lastPhyLUID st"
proof -
  let ?d = "DeleteRoute w tun (ip, 32) any4 (os st)"
  have d: "same_host w (os st) ?d" "routes ?d = routes (os st) - {(tun, (ip, 32), any4)}"
    using winipcfg_route_laws [OF assms(1), of "(ip, 32)"] by simp_all
  have a: "same_host w ?d (AddRoute w l (ip, 32) h ?d)" "routes (AddRoute w l (ip, 32) h ?d) = insert (l, (ip, 32), h) (routes ?d)" for l h
    using winipcfg_route_laws [OF assms(1), of "(ip, 32)"] by simp_all
  have e: "LUIDFromIndex w ?d i = LUIDFromIndex w (os st) i" for i using d(1) by (rule same_hostD)
  show "same_host w (os st) (os (pin_server w tun g ip st))"
    using d(1) same_host_trans [OF d(1) a(1)] by (simp add: pin_server_def Let_def split: option.split)
  show "routes (os (pin_server w tun g ip st)) =
      routes (os st) - {(tun, host_pfx ip, any4)} \<union> via_gateway w (os st) {host_pfx ip}"
    using d(2) a(2) assms(2)
    by (cases g) (simp add: pin_server_def Let_def via_gateway_def physical_def host_pfx_def e split: option.split)
  show "set (lastServerIPv4s st) \<subseteq> set (lastServerIPv4s (pin_server w tun g ip st))"
    "lastExclusionsSet (pin_server w tun g ip st) = lastExclusionsSet st" "lastPhyLUID (pin_server w tun g ip st) = lastPhyLUID st"
    by (auto simp: pin_server_def Let_def split: option.split)
  show "ip \<in> set (lastServerIPv4s (pin_server w tun g ip st))" if "physical w (os st) \<noteq> None"
    using that assms(2) e by (cases g) (auto simp: pin_server_def Let_def physical_def split: option.split)
qed

text \<open>What pinning the servers does to the routes, and what it keeps.\<close>

definition pinned :: "'os winipcfg \<Rightarrow> ('os \<Rightarrow> route set) \<Rightarrow> 'os tun_state \<Rightarrow> 'os tun_state \<Rightarrow> bool" where
  "pinned w routes st st' \<longleftrightarrow>
     same_host w (os st) (os st') \<and> set (lastServerIPv4s st) \<subseteq> set (lastServerIPv4s st') \<and>
     lastExclusionsSet st' = lastExclusionsSet st \<and> lastPhyLUID st' = lastPhyLUID st \<and>
     routes (os st') \<subseteq> routes (os st) \<union> via_gateway w (os st) (host_pfx ` set (lastServerIPv4s st')) \<and>
     (\<forall>l p h. (l, p, h) \<in> routes (os st) \<and> snd p \<noteq> 32 \<longrightarrow> (l, p, h) \<in> routes (os st')) \<and>
     (\<forall>ip. via_gateway w (os st) {host_pfx ip} \<subseteq> routes (os st) \<longrightarrow> via_gateway w (os st) {host_pfx ip} \<subseteq> routes (os st'))"

lemma pinned_refl: "pinned w routes st st"
  by (simp add: pinned_def)

lemma via_gateway_mono: "P \<subseteq> Q \<Longrightarrow> via_gateway w s P \<subseteq> via_gateway w s Q"
  by (auto simp: via_gateway_def split: option.split)

lemma pinned_trans:
  assumes a: "pinned w routes st st1" and b: "pinned w routes st1 st2"
  shows "pinned w routes st st2"
proof -
  have h: "same_host w (os st) (os st1)" and h1: "same_host w (os st1) (os st2)"
    and l: "set (lastServerIPv4s st) \<subseteq> set (lastServerIPv4s st1)" "set (lastServerIPv4s st1) \<subseteq> set (lastServerIPv4s st2)"
    using a b by (simp_all add: pinned_def)
  have v: "via_gateway w (os st1) P = via_gateway w (os st) P" for P using h by (rule same_host_via)
  have "routes (os st1) \<subseteq> routes (os st) \<union> via_gateway w (os st) (host_pfx ` set (lastServerIPv4s st1))"
    "routes (os st2) \<subseteq> routes (os st1) \<union> via_gateway w (os st) (host_pfx ` set (lastServerIPv4s st2))"
    using a b by (simp_all add: pinned_def v)
  moreover have "via_gateway w (os st) (host_pfx ` set (lastServerIPv4s st1)) \<subseteq> via_gateway w (os st) (host_pfx ` set (lastServerIPv4s st2))"
    using l(2) by (intro via_gateway_mono image_mono)
  ultimately have "routes (os st2) \<subseteq> routes (os st) \<union> via_gateway w (os st) (host_pfx ` set (lastServerIPv4s st2))" by blast
  moreover have "same_host w (os st) (os st2)" using h h1 by (rule same_host_trans)
  ultimately show ?thesis using a b l unfolding pinned_def v by auto
qed

lemma pinned_pin_server:
  assumes "winipcfg_laws w routes" "defaultGateway w (os st) = Some g"
  shows "pinned w routes st (pin_server w tun g ip st)"
    "via_gateway w (os st) {host_pfx ip} \<subseteq> routes (os (pin_server w tun g ip st))"
proof -
  note law = pin_server_law [OF assms, where tun = tun and ip = ip]
  have "via_gateway w (os st) {host_pfx ip} \<subseteq> via_gateway w (os st) (host_pfx ` set (lastServerIPv4s (pin_server w tun g ip st)))"
    using law(4) by (cases "physical w (os st)") (auto simp: via_gateway_def)
  then have "routes (os (pin_server w tun g ip st)) \<subseteq>
      routes (os st) \<union> via_gateway w (os st) (host_pfx ` set (lastServerIPv4s (pin_server w tun g ip st)))"
    unfolding law(2) by blast
  moreover have "via_gateway w (os st) {host_pfx ip'} \<subseteq> routes (os (pin_server w tun g ip st))"
    if "via_gateway w (os st) {host_pfx ip'} \<subseteq> routes (os st)" for ip'
    using that unfolding law(2) by (auto simp: via_gateway_def host_pfx_def split: option.splits)
  moreover have "(l, p, h) \<in> routes (os (pin_server w tun g ip st))" if "(l, p, h) \<in> routes (os st)" "snd p \<noteq> 32" for l p h
    using that by (auto simp: law(2) host_pfx_def)
  ultimately show "pinned w routes st (pin_server w tun g ip st)"
    using law(1,3,5,6) unfolding pinned_def by blast
  show "via_gateway w (os st) {host_pfx ip} \<subseteq> routes (os (pin_server w tun g ip st))"
    by (simp add: law(2))
qed

lemma pinned_pin_servers:
  assumes "winipcfg_laws w routes"
    and "pin_servers w tun g hosts st = (ok, st')" "g = None \<or> g = defaultGateway w (os st)"
  shows "pinned w routes st st' \<and>
    (ok \<longrightarrow> (\<forall>host \<in> set hosts. \<forall>ip. server_ipv4 w host = Some ip \<longrightarrow> via_gateway w (os st) {host_pfx ip} \<subseteq> routes (os st')))"
  using assms(2,3)
proof (induction hosts arbitrary: g st)
  case Nil
  then show ?case by (simp add: pinned_refl)
next
  case (Cons host hosts)
  show ?case
  proof (cases "server_ipv4 w host")
    case None
    then have "pin_servers w tun g hosts st = (ok, st')" using Cons.prems(1) by simp
    from Cons.IH [OF this Cons.prems(2)] None show ?thesis by simp
  next
    case (Some ip)
    note ip = this
    have gw: "(case g of Some g \<Rightarrow> Some g | None \<Rightarrow> defaultGateway w (os st)) = defaultGateway w (os st)"
      using Cons.prems(2) by (auto split: option.split)
    show ?thesis
    proof (cases "defaultGateway w (os st)")
      case None
      then have "ok = False" "st' = st" using Cons.prems(1) ip gw by auto
      then show ?thesis by (simp add: pinned_refl)
    next
      case (Some g')
      let ?st = "pin_server w tun g' ip st"
      note p = pinned_pin_server [OF assms(1) Some, where tun = tun and ip = ip]
      have h: "same_host w (os st) (os ?st)" using p(1) by (simp add: pinned_def)
      have pin: "pin_servers w tun (Some g') hosts ?st = (ok, st')" using Cons.prems(1) ip gw Some by simp
      have gok: "Some g' = None \<or> Some g' = defaultGateway w (os ?st)" using Some same_hostD(3) [OF h] by simp
      have ih: "pinned w routes ?st st' \<and>
          (ok \<longrightarrow> (\<forall>host \<in> set hosts. \<forall>ip. server_ipv4 w host = Some ip \<longrightarrow> via_gateway w (os st) {host_pfx ip} \<subseteq> routes (os st')))"
        using Cons.IH [OF pin gok] unfolding same_host_via [OF h] .
      have "via_gateway w (os st) {host_pfx ip} \<subseteq> routes (os st')"
        using ih p(2) by (simp add: pinned_def same_host_via [OF h])
      with ih ip pinned_trans [OF p(1)] show ?thesis by auto
    qed
  qed
qed

lemma set_tun_dns_law:
  assumes "winipcfg_laws w routes" "set_tun_dns w tun dns st = (True, st')"
  shows "routes (os st') = routes (os st)" "same_host w (os st) (os st')" "st' = st\<lparr>os := os st'\<rparr>"
  using assms(2) winipcfg_other_laws(5,6) [OF assms(1)]
  by (auto simp: set_tun_dns_def setDNS_def split: option.splits if_splits)

text \<open>Cleaning up while the adapter is still there.\<close>

lemma unpin_servers_law:
  assumes "winipcfg_laws w routes"
  shows "routes (os (unpin_servers w st)) = routes (os st) - via_gateway w (os st) (host_pfx ` set (lastServerIPv4s st))"
    "same_host w (os st) (os (unpin_servers w st))" "lastServerIPv4s (unpin_servers w st) = []"
    "lastExclusionsSet (unpin_servers w st) = lastExclusionsSet st" "lastPhyLUID (unpin_servers w st) = lastPhyLUID st"
proof -
  have "\<forall>p \<in> set (map (\<lambda>ip. (ip, 32 :: nat)) ips). snd p \<noteq> 0" for ips :: "ip list" by simp
  note law = delete_routes_law [OF assms this]
  show "routes (os (unpin_servers w st)) = routes (os st) - via_gateway w (os st) (host_pfx ` set (lastServerIPv4s st))"
    using law by (auto simp: unpin_servers_def via_gateway_def physical_def host_pfx_def image_image split: option.split)
  show "same_host w (os st) (os (unpin_servers w st))"
    using law by (simp add: unpin_servers_def split: option.split)
  show "lastServerIPv4s (unpin_servers w st) = []"
    "lastExclusionsSet (unpin_servers w st) = lastExclusionsSet st" "lastPhyLUID (unpin_servers w st) = lastPhyLUID st"
    by (simp_all add: unpin_servers_def split: option.split)
qed

lemma include_local_law:
  assumes "winipcfg_laws w routes"
    and "\<And>l h. physical w (os st) = Some (l, h) \<Longrightarrow> lastExclusionsSet st \<and> lastPhyLUID st = l"
  shows "routes (os (include_local w st)) \<subseteq> routes (os st) - via_gateway w (os st) (set local_excludes)"
    "lastServerIPv4s (include_local w st) = lastServerIPv4s st"
proof -
  have "\<forall>p \<in> set local_excludes. snd p \<noteq> 0" by (simp add: local_excludes_def)
  note law = delete_routes_law [OF assms(1) this]
  show "routes (os (include_local w st)) \<subseteq> routes (os st) - via_gateway w (os st) (set local_excludes)"
  proof (cases "physical w (os st)")
    case None
    then show ?thesis using law by (auto simp: include_local_def via_gateway_def split: option.split)
  next
    case (Some q)
    obtain l h where q: "q = (l, h)" by (cases q)
    obtain i where gw: "defaultGateway w (os st) = Some (h, i)" "LUIDFromIndex w (os st) i = Some l"
      using Some q by (auto simp: physical_def split: option.splits prod.splits)
    have "lastExclusionsSet st \<and> lastPhyLUID st = l" using assms(2) Some q by simp
    then show ?thesis
      using law Some q gw(1) LUIDFromIndex_nonzero [OF assms(1) gw(2)] by (simp add: include_local_def via_gateway_def)
  qed
  show "lastServerIPv4s (include_local w st) = lastServerIPv4s st"
    by (simp add: include_local_def split: option.split)
qed

lemma wait_found:
  assumes "map_option ad_luid (best_adapter name (GetAdaptersAddresses w s)) = Some tun"
  shows "waitForInterfaceLike w name s = (Some tun, s)"
proof -
  have "wait_rounds w name (Suc n) s = (Some tun, s)" for n using assms by auto
  from this [of 49] show ?thesis by (simp add: waitForInterfaceLike_def)
qed

lemma cleanupTun_law:
  assumes "winipcfg_laws w routes" "map_option ad_luid (best_adapter name (GetAdaptersAddresses w (os st))) = Some tun"
    and "\<And>l h. physical w (os st) = Some (l, h) \<Longrightarrow> lastExclusionsSet st \<and> lastPhyLUID st = l"
  shows "routes (os (cleanupTun w name st)) \<subseteq>
      routes (os st) - {(tun, p, h) | p h. p \<in> set split_defaults \<and> (h = any4 \<or> h = old_hop)}
        - via_gateway w (os st) (host_pfx ` set (lastServerIPv4s st)) - via_gateway w (os st) (set local_excludes)"
    "lastServerIPv4s (cleanupTun w name st) = []"
proof -
  let ?d = "drop_split_defaults w tun (os st)"
  let ?s = "SetDNS w tun [] (FlushIPAddresses w tun ?d)"
  let ?u = "unpin_servers w (st\<lparr>os := ?s\<rparr>)"
  have wait: "waitForInterfaceLike w name (os st) = (Some tun, os st)"
    using assms(2) by (rule wait_found)
  then have c: "cleanupTun w name st = include_local w ?u" by (simp add: cleanupTun_def)
  note other = winipcfg_other_laws [OF assms(1)]
  have d: "same_host w (os st) ?d" using drop_split_defaults_law [OF assms(1)] by (rule conjunct2)
  have s: "routes ?s = routes ?d" "same_host w (os st) ?s"
    by (simp only: other(3,5)) (rule same_host_trans [OF same_host_trans [OF d other(4)] other(6)])
  have "same_host w ?s (os ?u)" using unpin_servers_law(2) [OF assms(1), of "st\<lparr>os := ?s\<rparr>"] by simp
  with s(2) have u: "same_host w (os st) (os ?u)" by (rule same_host_trans)
  have "lastExclusionsSet ?u \<and> lastPhyLUID ?u = l" if "physical w (os ?u) = Some (l, h)" for l h
    using that assms(3) by (simp add: same_host_physical [OF u] unpin_servers_law [OF assms(1)])
  note i = include_local_law [OF assms(1) this]
  have "routes (os ?u) = routes ?d - via_gateway w (os st) (host_pfx ` set (lastServerIPv4s st))"
    by (simp add: unpin_servers_law(1) [OF assms(1)] s(1) same_host_via [OF s(2)])
  with i(1) show "routes (os (cleanupTun w name st)) \<subseteq>
      routes (os st) - {(tun, p, h) | p h. p \<in> set split_defaults \<and> (h = any4 \<or> h = old_hop)}
        - via_gateway w (os st) (host_pfx ` set (lastServerIPv4s st)) - via_gateway w (os st) (set local_excludes)"
    using drop_split_defaults_law [OF assms(1), of tun "os st"] by (simp add: c same_host_via [OF u])
  show "lastServerIPv4s (cleanupTun w name st) = []"
    by (simp add: c i(2) unpin_servers_law(3) [OF assms(1)])
qed

lemma configureTunV3_law:
  assumes "winipcfg_laws w routes" "steady w" "configureTunV3 w name cidr servers dns st = (True, st')"
    and "ParsePrefix (TrimSpace (if cidr = [] then defaultTunCIDR else cidr)) = Some p"
  obtains tun where
    "map_option ad_luid (best_adapter name (GetAdaptersAddresses w (os st'))) = Some tun"
    "\<And>l h. physical w (os st') = Some (l, h) \<Longrightarrow> lastExclusionsSet st' \<and> lastPhyLUID st' = l"
    "(\<lambda>q. (tun, q, next_hop p)) ` set split_defaults \<union> via_gateway w (os st') (set local_excludes) \<subseteq> routes (os st')"
    "\<And>host ip. host \<in> set servers \<Longrightarrow> server_ipv4 w host = Some ip \<Longrightarrow> via_gateway w (os st') {host_pfx ip} \<subseteq> routes (os st')"
    "routes (os st') \<subseteq> routes (os st) \<union> (\<lambda>q. (tun, q, next_hop p)) ` set split_defaults \<union>
       via_gateway w (os st') (set local_excludes) \<union> via_gateway w (os st') (host_pfx ` set (lastServerIPv4s st'))"
    "same_host w (os st) (os st')"
proof -
  obtain r s where rs: "setup_rounds w name p 50 (os st) = (r, s)" by (cases "setup_rounds w name p 50 (os st)")
  obtain tun where r: "r = Some tun" using assms(3,4) rs by (cases r) (auto simp: configureTunV3_def)
  have s: "routes s = routes (os st)" "same_host w (os st) s"
    "map_option ad_luid (best_adapter name (GetAdaptersAddresses w s)) = Some tun"
    using setup_rounds_law [OF assms(1,2) rs] r by simp_all
  define a where "a = st\<lparr>os := add_routes w tun (next_hop p) split_defaults s\<rparr>"
  define b where "b = (exclude_local w a)\<lparr>lastServerIPv4s := []\<rparr>"
  obtain ok c where oc: "pin_servers w tun None servers b = (ok, c)" by (cases "pin_servers w tun None servers b")
  have ok: "ok" and d: "set_tun_dns w tun dns c = (True, st')"
    using assms(3,4) rs r oc by (auto simp: configureTunV3_def Let_def a_def [symmetric] b_def [symmetric] split: bool.splits)
  have "\<forall>p \<in> set split_defaults. snd p \<noteq> 0" by (simp add: split_defaults_def)
  then have a: "routes (os a) = routes (os st) \<union> (\<lambda>q. (tun, q, next_hop p)) ` set split_defaults" "same_host w s (os a)"
    using add_routes_law [OF assms(1), of split_defaults tun "next_hop p" s] s(1) by (simp_all add: a_def)
  have b: "routes (os b) = routes (os a) \<union> via_gateway w (os a) (set local_excludes)" "same_host w (os a) (os b)"
    "\<And>l h. physical w (os a) = Some (l, h) \<Longrightarrow> lastExclusionsSet b \<and> lastPhyLUID b = l"
    using exclude_local_law [OF assms(1), of a] by (simp_all add: b_def)
  have c: "pinned w routes b c"
    "\<And>host ip. host \<in> set servers \<Longrightarrow> server_ipv4 w host = Some ip \<Longrightarrow> via_gateway w (os b) {host_pfx ip} \<subseteq> routes (os c)"
    using pinned_pin_servers [OF assms(1) oc] ok by auto
  note d = set_tun_dns_law [OF assms(1) d]
  have hc: "same_host w (os b) (os c)" using c(1) by (simp add: pinned_def)
  have hb: "same_host w (os b) (os st')" using hc d(2) by (rule same_host_trans)
  have ha: "same_host w (os a) (os st')" using b(2) hb by (rule same_host_trans)
  have hs: "same_host w s (os st')" using a(2) ha by (rule same_host_trans)
  let ?R = "(\<lambda>q. (tun, q, next_hop p)) ` set split_defaults \<union> via_gateway w (os st') (set local_excludes)"
  have R: "r \<in> routes (os b) \<and> snd (fst (snd r)) \<noteq> 32" if "r \<in> ?R" for r
  proof
    show "r \<in> routes (os b)" using that unfolding b(1) a(1) same_host_via [OF ha] by blast
    show "snd (fst (snd r)) \<noteq> 32"
      using that by (auto simp: via_gateway_def split_defaults_def local_excludes_def split: option.splits)
  qed
  have keep: "r \<in> routes (os st')" if "r \<in> routes (os b) \<and> snd (fst (snd r)) \<noteq> 32" for r
    using c(1) that unfolding pinned_def d(1) by (cases r) auto
  show ?thesis
  proof
    show "map_option ad_luid (best_adapter name (GetAdaptersAddresses w (os st'))) = Some tun"
      using s(3) by (simp add: same_hostD(1) [OF hs])
    show "lastExclusionsSet st' \<and> lastPhyLUID st' = l" if "physical w (os st') = Some (l, h)" for l h
    proof -
      have "lastExclusionsSet b \<and> lastPhyLUID b = l" using that b(3) by (simp add: same_host_physical [OF ha])
      moreover have "lastExclusionsSet c = lastExclusionsSet b" "lastPhyLUID c = lastPhyLUID b" using c(1) by (simp_all add: pinned_def)
      moreover have "lastExclusionsSet st' = lastExclusionsSet c" "lastPhyLUID st' = lastPhyLUID c" by (subst d(3), simp)+
      ultimately show ?thesis by simp
    qed
    show "?R \<subseteq> routes (os st')" using R keep by blast
    show "via_gateway w (os st') {host_pfx ip} \<subseteq> routes (os st')" if "host \<in> set servers" "server_ipv4 w host = Some ip" for host ip
      using c(2) [OF that] by (simp add: d(1) same_host_via [OF hb])
    have "lastServerIPv4s st' = lastServerIPv4s c" by (subst d(3), simp)
    then show "routes (os st') \<subseteq> routes (os st) \<union> (\<lambda>q. (tun, q, next_hop p)) ` set split_defaults \<union>
       via_gateway w (os st') (set local_excludes) \<union> via_gateway w (os st') (host_pfx ` set (lastServerIPv4s st'))"
      using c(1) by (simp add: pinned_def d(1) b(1) a(1) same_host_via [OF hb] same_host_via [OF b(2)])
    show "same_host w (os st) (os st')" using s(2) hs by (rule same_host_trans)
  qed
qed

lemma wait_rounds_none: "fst (wait_rounds w name n s) = None \<Longrightarrow> \<exists>k. snd (wait_rounds w name n s) = (Sleep w ^^ k) s"
proof (induction n arbitrary: s)
  case 0
  then show ?case by (auto intro: exI [of _ 0])
next
  case (Suc n)
  then have "best_adapter name (GetAdaptersAddresses w s) = None" by (auto split: option.splits)
  with Suc.IH [of "Sleep w s"] Suc.prems obtain k where "snd (wait_rounds w name (Suc n) s) = (Sleep w ^^ k) (Sleep w s)" by auto
  then show ?case by (auto simp: funpow_swap1 intro: exI [of _ "Suc k"])
qed

text \<open>
  Without the adapter the cleanup removes nothing, neither the servers nor the local networks it pinned to the physical interface.
\<close>

lemma cleanup_without_adapter:
  assumes "winipcfg_laws w routes" "fst (waitForInterfaceLike w name (os st)) = None"
  shows "routes (os (cleanupTun w name st)) = routes (os st)" "lastServerIPv4s (cleanupTun w name st) = lastServerIPv4s st"
proof -
  obtain k where k: "waitForInterfaceLike w name (os st) = (None, (Sleep w ^^ k) (os st))"
    using wait_rounds_none [OF assms(2) [unfolded waitForInterfaceLike_def]] assms(2)
    by (metis prod.collapse waitForInterfaceLike_def)
  have "routes ((Sleep w ^^ k) s) = routes s" for s
    by (induction k) (simp_all add: winipcfg_other_laws(7) [OF assms(1)])
  with k show "routes (os (cleanupTun w name st)) = routes (os st)" "lastServerIPv4s (cleanupTun w name st) = lastServerIPv4s st"
    by (simp_all add: cleanupTun_def)
qed

definition sample_win :: "route list winipcfg" where
  "sample_win = \<lparr>GetAdaptersAddresses = (\<lambda>_. [\<lparr>ad_name = ''Ethernet'', ad_luid = 5, ad_ifIndex = 9\<rparr>, \<lparr>ad_name = ''GlitchVPN 2'', ad_luid = 7, ad_ifIndex = 3\<rparr>]),
     GetIPForwardTable2 = (\<lambda>_. Some [\<lparr>fr_length = 0, fr_hop = Some (IP4 [192, 168, 1, 1]), fr_metric = 25, fr_ifIndex = 9\<rparr>]),
     LUIDFromIndex = (\<lambda>_ i. if i = 9 then Some 5 else if i = 3 then Some 7 else None), InterfaceByIndex = (\<lambda>_ _. None),
     SetIPAddressesForFamily = (\<lambda>_ _ s. (Assigned, s)), FlushIPAddresses = (\<lambda>_ s. s), AddRoute = (\<lambda>l p h s. (l, p, h) # s),
     DeleteRoute = (\<lambda>l p h s. removeAll (l, p, h) s), SetDNS = (\<lambda>_ _ s. s), providerLookupIPv4 = (\<lambda>_. None), Sleep = (\<lambda>s. s)\<rparr>"

definition sample_tun_state :: "route list tun_state" where
  "sample_tun_state = \<lparr>os = [], lastPhyLUID = 0, lastServerIPv4s = [], lastExclusionsSet = False, lastPhyIfIndex = 0\<rparr>"

definition sample_configured :: "bool \<times> route list tun_state" where
  "sample_configured = configureTunV3 sample_win ''GlitchVPN'' [] [''203.0.113.5''] ''1.1.1.1'' sample_tun_state"

lemma sample_win_laws: "winipcfg_laws sample_win set" "steady sample_win"
  by (auto simp: sample_win_def winipcfg_laws_def steady_def same_host_def default_rows_def)

lemma taken_back: "R' \<subseteq> R \<union> A \<union> B \<union> C \<Longrightarrow> A \<subseteq> A' \<Longrightarrow> X \<subseteq> R' - A' - C - B \<Longrightarrow> X \<subseteq> R"
  by blast



end
