(* ===== verification/Pinger.thy ===== *)
theory Pinger
  imports Xray_Outbounds Mihomo_Config
begin

text \<open>
  Measuring links without a running engine (\<^verbatim>\<open>src/internal/pinger/\<close>): which engine measures a link, when the fallback engine takes
  over, the batch of concurrent measurements and the samples of a probe.

  Running the built engine and the HTTP request are parameters. Which goroutine finishes when is the argument \<open>order\<close> of \<open>Measure\<close>.
\<close>

section \<open>Measurers\<close>

datatype ping_error =
  Not_Pinned | Unsupported_Scheme | Xray_Build xray_error | Mihomo_Parse link_error | Engine_Run string

datatype measured = Took int | Falls_Back ping_error | Dead ping_error

record engineMeasurer =
  em_engine :: string
  em_match :: "string \<Rightarrow> string \<Rightarrow> bool"  \<comment> \<open>on the trimmed link and its lower case\<close>
  em_measure :: "string \<Rightarrow> string \<Rightarrow> measured"  \<comment> \<open>link and probe URL\<close>

record registry =
  measurers :: "engineMeasurer list"
  fallback :: "engineMeasurer option"

definition matchAwgLink :: "string \<Rightarrow> string \<Rightarrow> bool" where
  "matchAwgLink link lower \<longleftrightarrow> HasPrefix lower ''awg://'' \<or> Contains link ''[Interface]''"

definition matches :: "engineMeasurer \<Rightarrow> string \<Rightarrow> bool" where
  "matches em link = em_match em (TrimSpace link) (ToLower (TrimSpace link))"

definition classify :: "registry \<Rightarrow> string \<Rightarrow> string \<times> (string \<Rightarrow> string \<Rightarrow> measured) option" where
  "classify reg link =
     (case find (\<lambda>em. matches em link) (measurers reg) of
        Some em \<Rightarrow> (em_engine em, Some (em_measure em))
      | None \<Rightarrow>
          case fallback reg of
            Some f \<Rightarrow> (if matches f link then (em_engine f, Some (em_measure f)) else ([], None))
          | None \<Rightarrow> ([], None))"

definition classifyOn :: "registry \<Rightarrow> string \<Rightarrow> string \<Rightarrow> string \<times> (string \<Rightarrow> string \<Rightarrow> measured) option" where
  "classifyOn reg pinned link =
     (case find (\<lambda>em. em_engine em = pinned) (measurers reg) of
        Some em \<Rightarrow> (if matches em link then (em_engine em, Some (em_measure em)) else (pinned, None))
      | None \<Rightarrow>
          case fallback reg of
            Some f \<Rightarrow>
              if em_engine f = pinned \<and> \<not> matchAwgLink (TrimSpace link) (ToLower (TrimSpace link)) \<and> matches f link
              then (em_engine f, Some (em_measure f)) else (pinned, None)
          | None \<Rightarrow> (pinned, None))"

section \<open>Measure\<close>

record Request =
  rq_Engine :: string
  rq_Links :: "string list"
  rq_ProbeURL :: string

record ping_result =
  pr_Index :: nat
  pr_Engine :: string
  pr_Alive :: bool
  pr_DelayMs :: int
  pr_Error :: "ping_error option"

definition ping_defaultProbeURL :: string where
  "ping_defaultProbeURL = ''https://www.gstatic.com/generate_204''"

definition probe_url :: "Request \<Rightarrow> string" where
  "probe_url req = (if TrimSpace (rq_ProbeURL req) = [] then ping_defaultProbeURL else TrimSpace (rq_ProbeURL req))"

definition pinnedRun :: "Request \<Rightarrow> bool" where
  "pinnedRun req \<longleftrightarrow> TrimSpace (rq_Engine req) \<noteq> []"

definition chosen :: "registry \<Rightarrow> Request \<Rightarrow> nat \<Rightarrow> string \<times> (string \<Rightarrow> string \<Rightarrow> measured) option" where
  "chosen reg req i =
     (if pinnedRun req then classifyOn reg (TrimSpace (rq_Engine req)) (rq_Links req ! i) else classify reg (rq_Links req ! i))"

definition first_result :: "registry \<Rightarrow> Request \<Rightarrow> nat \<Rightarrow> ping_result" where
  "first_result reg req i =
     \<lparr>pr_Index = i, pr_Engine = fst (chosen reg req i), pr_Alive = False, pr_DelayMs = 0,
      pr_Error = (if snd (chosen reg req i) = None then Some (if pinnedRun req then Not_Pinned else Unsupported_Scheme) else None)\<rparr>"

definition finished :: "measured \<Rightarrow> ping_result \<Rightarrow> ping_result" where
  "finished m r =
     (case m of Took t \<Rightarrow> r\<lparr>pr_Alive := True, pr_DelayMs := t\<rparr> | Falls_Back e \<Rightarrow> r\<lparr>pr_Error := Some e\<rparr> | Dead e \<Rightarrow> r\<lparr>pr_Error := Some e\<rparr>)"

text \<open>What the goroutine of a link does to its entry.\<close>

definition measure_link :: "registry \<Rightarrow> Request \<Rightarrow> nat \<Rightarrow> ping_result \<Rightarrow> ping_result" where
  "measure_link reg req i r =
     (let link = rq_Links req ! i; url = probe_url req
      in case snd (chosen reg req i) of
           None \<Rightarrow> r
         | Some m \<Rightarrow>
             case m link url of
               Falls_Back e \<Rightarrow>
                 (case fallback reg of
                    Some f \<Rightarrow>
                      if \<not> pinnedRun req \<and> matches f link then finished (em_measure f link url) (r\<lparr>pr_Engine := em_engine f\<rparr>)
                      else finished (Falls_Back e) r
                  | None \<Rightarrow> finished (Falls_Back e) r)
             | out \<Rightarrow> finished out r)"

definition launched :: "registry \<Rightarrow> Request \<Rightarrow> nat set" where
  "launched reg req = {i. i < length (rq_Links req) \<and> snd (chosen reg req i) \<noteq> None}"

definition Measure :: "registry \<Rightarrow> Request \<Rightarrow> nat list \<Rightarrow> ping_result list" where
  "Measure reg req order =
     foldl (\<lambda>rs i. rs[i := measure_link reg req i (rs ! i)]) (map (first_result reg req) [0..<length (rq_Links req)]) order"

section \<open>The engines\<close>

definition match_xray :: "string \<Rightarrow> bool" where
  "match_xray lower \<longleftrightarrow> HasPrefix lower ''vless://'' \<or> HasPrefix lower ''vmess://'' \<or> HasPrefix lower ''ss://'' \<or> HasPrefix lower ''trojan://''"

definition match_mihomo :: "string \<Rightarrow> string \<Rightarrow> bool" where
  "match_mihomo link lower \<longleftrightarrow>
     HasPrefix lower ''vless://'' \<or> HasPrefix lower ''vmess://'' \<or> HasPrefix lower ''ss://'' \<or> HasPrefix lower ''trojan://'' \<or>
     HasPrefix lower ''hysteria2://'' \<or> HasPrefix lower ''hy2://'' \<or> HasPrefix lower ''tuic://'' \<or> HasPrefix lower ''anytls://'' \<or>
     HasPrefix lower ''awg://'' \<or> Contains link ''[Interface]''"

record engine_runs =
  run_xray :: "BuildResult \<Rightarrow> string \<Rightarrow> string + int"
  run_mihomo :: "obj \<Rightarrow> string \<Rightarrow> string + int"

definition ran :: "string + int \<Rightarrow> measured" where
  "ran r = (case r of Inl e \<Rightarrow> Dead (Engine_Run e) | Inr t \<Rightarrow> Took t)"

definition no_routing :: Profile where
  "no_routing = \<lparr>Mode = [], Tiers = [], DomainStrategy = [], LocalNetworks = False, DirectSendThrough = [], DirectInterface = [],
     DisableIPv6 = False, DisableUDP = False\<rparr>"

definition measureXray :: "xray_deps \<Rightarrow> engine_runs \<Rightarrow> string \<Rightarrow> string \<Rightarrow> measured" where
  "measureXray d run link url =
     (case xray_BuildConfig d [link] \<lparr>bo_Strategy = [], bo_ProbeURL = [], bo_ProbeIntervalSec = 0\<rparr> no_routing ''none'' of
        Inl (NotCarried k what) \<Rightarrow> Falls_Back (Xray_Build (NotCarried k what))
      | Inl e \<Rightarrow> Dead (Xray_Build e)
      | Inr res \<Rightarrow> ran (run_xray run res url))"

definition measureMihomo :: "link_env \<Rightarrow> engine_runs \<Rightarrow> string \<Rightarrow> string \<Rightarrow> measured" where
  "measureMihomo env run link url =
     (case ProxyMapFromLink env link of
        Inl e \<Rightarrow> Dead (Mihomo_Parse e)
      | Inr p \<Rightarrow> ran (run_mihomo run p url))"

text \<open>The registrations of a build with all engines, in the order of the files' initialisers.\<close>

definition all_engines :: "xray_deps \<Rightarrow> link_env \<Rightarrow> engine_runs \<Rightarrow> registry" where
  "all_engines d env run =
     \<lparr>measurers =
        [\<lparr>em_engine = ''awg'', em_match = matchAwgLink, em_measure = measureMihomo env run\<rparr>,
         \<lparr>em_engine = ''xray'', em_match = (\<lambda>_ lower. match_xray lower), em_measure = measureXray d run\<rparr>],
      fallback = Some \<lparr>em_engine = ''mihomo'', em_match = match_mihomo, em_measure = measureMihomo env run\<rparr>\<rparr>"

section \<open>Samples\<close>

definition probeSamples :: nat where
  "probeSamples = 3"

text \<open>\<^verbatim>\<open>probe\<close>: the samples in turn, the least time of those that succeeded or the last error.\<close>

definition probe_step :: "(string + int) option \<Rightarrow> string + int \<Rightarrow> (string + int) option" where
  "probe_step acc d =
     (case (acc, d) of
        (Some (Inr best), Inl e) \<Rightarrow> Some (Inr best)
      | (Some (Inr best), Inr t) \<Rightarrow> Some (Inr (if t < best then t else best))
      | _ \<Rightarrow> Some d)"

definition probe :: "(nat \<Rightarrow> string + int) \<Rightarrow> string + int" where
  "probe sample = the (foldl probe_step None (map sample [0..<probeSamples]))"

lemma probe_fold:
  "foldl probe_step (Some acc) ds =
     Some (case acc of
       Inr b \<Rightarrow> Inr (foldl (\<lambda>b t. min t b) b (map projr (filter (\<lambda>d. \<not> isl d) ds)))
     | Inl e \<Rightarrow> (case filter (\<lambda>d. \<not> isl d) ds of
         [] \<Rightarrow> Inl (if ds = [] then e else projl (last ds))
       | d # r \<Rightarrow> Inr (foldl (\<lambda>b t. min t b) (projr d) (map projr r))))"
  by (induction ds arbitrary: acc) (auto simp: probe_step_def min_def split: sum.split list.split)

section \<open>One entry per link\<close>

lemma foldl_update_independent:
  assumes "distinct order" "\<forall>i \<in> set order. i < length rs"
  shows "foldl (\<lambda>rs i. rs[i := f i (rs ! i)]) rs order = map (\<lambda>i. if i \<in> set order then f i (rs ! i) else rs ! i) [0..<length rs]"
  using assms
proof (induction order arbitrary: rs)
  case Nil
  then show ?case by (simp add: map_nth)
next
  case (Cons i order)
  have "foldl (\<lambda>rs i. rs[i := f i (rs ! i)]) (rs[i := f i (rs ! i)]) order =
      map (\<lambda>j. if j \<in> set order then f j (rs[i := f i (rs ! i)] ! j) else rs[i := f i (rs ! i)] ! j) [0..<length rs]"
    using Cons.IH [of "rs[i := f i (rs ! i)]"] Cons.prems by simp
  also have "\<dots> = map (\<lambda>j. if j \<in> set (i # order) then f j (rs ! j) else rs ! j) [0..<length rs]"
    using Cons.prems by (intro map_cong refl) (auto simp: nth_list_update)
  finally show ?case by simp
qed

lemma Measure_entries:
  assumes "distinct order" "set order = launched reg req"
  shows "Measure reg req order = map (\<lambda>i. measure_link reg req i (first_result reg req i)) [0..<length (rq_Links req)]"
proof -
  have "\<forall>i \<in> set order. i < length (map (first_result reg req) [0..<length (rq_Links req)])"
    using assms(2) by (simp add: launched_def)
  from foldl_update_independent [OF assms(1) this, of "measure_link reg req"] show ?thesis
    unfolding Measure_def by (auto simp: assms(2) launched_def measure_link_def Let_def)
qed

lemma measureXray_safe:
  assumes "case measureXray d run link url of Took t \<Rightarrow> True | Falls_Back e \<Rightarrow> True | Dead e \<Rightarrow> (\<exists>m. e = Engine_Run m)"
  shows "\<not> unsafe_link d (TrimSpace link)"
proof -
  have "TrimSpace link \<noteq> []"
    using assms by (auto simp: measureXray_def xray_BuildConfig_def clean_links_def)
  then have "settled (outboundFromLink d (TrimSpace link) OutboundTag)"
    using assms
    by (cases "outboundFromLink d (TrimSpace link) OutboundTag")
      (auto simp: measureXray_def xray_BuildConfig_def clean_links_def settled_def split: xray_error.splits)
  then show ?thesis by (rule outboundFromLink_settled)
qed

lemma measureMihomo_never_falls_back: "measureMihomo env run link url \<noteq> Falls_Back e"
  by (auto simp: measureMihomo_def ran_def split: sum.split)

lemma measureMihomo_took: "measureMihomo env run link url = Took t \<Longrightarrow> \<exists>p. ProxyMapFromLink env link = Inr p"
  by (auto simp: measureMihomo_def split: sum.splits)

lemma finished_fields: "pr_Engine (finished m r) = pr_Engine r" "pr_Index (finished m r) = pr_Index r"
  "\<not> pr_Alive r \<Longrightarrow> pr_Alive (finished m r) \<longleftrightarrow> (\<exists>t. m = Took t)"
  by (auto simp: finished_def split: measured.split)

lemma classify_all:
  "classify (all_engines d env run) link =
     (let t = TrimSpace link; l = ToLower t
      in if matchAwgLink t l then (''awg'', Some (measureMihomo env run))
         else if match_xray l then (''xray'', Some (measureXray d run))
         else if match_mihomo t l then (''mihomo'', Some (measureMihomo env run)) else ([], None))"
  by (simp add: classify_def all_engines_def matches_def Let_def)

lemma classifyOn_all:
  "fst (classifyOn (all_engines d env run) pinned link) = pinned"
  "snd (classifyOn (all_engines d env run) pinned link) = Some m \<Longrightarrow>
     pinned = ''xray'' \<and> m = measureXray d run \<or> pinned \<in> {''awg'', ''mihomo''} \<and> m = measureMihomo env run"
  by (auto simp: classifyOn_def all_engines_def split: if_splits)

text \<open>What the entry of a link says, for a link measured by mihomo's code and for one measured by xray first.\<close>

lemma mihomo_entry:
  assumes "snd (chosen (all_engines d env run) req i) = Some (measureMihomo env run)"
  defines "r \<equiv> measure_link (all_engines d env run) req i (first_result (all_engines d env run) req i)"
  shows "pr_Engine r = fst (chosen (all_engines d env run) req i)" "pr_Index r = i"
    "pr_Alive r \<Longrightarrow> \<exists>p. ProxyMapFromLink env (rq_Links req ! i) = Inr p"
proof -
  have "r = finished (measureMihomo env run (rq_Links req ! i) (probe_url req)) (first_result (all_engines d env run) req i)"
    using assms(1) measureMihomo_never_falls_back
    by (auto simp: r_def measure_link_def Let_def split: measured.split)
  then show "pr_Engine r = fst (chosen (all_engines d env run) req i)" "pr_Index r = i"
    "pr_Alive r \<Longrightarrow> \<exists>p. ProxyMapFromLink env (rq_Links req ! i) = Inr p"
    by (auto simp: finished_fields first_result_def dest: measureMihomo_took)
qed

lemma xray_entry:
  assumes "snd (chosen (all_engines d env run) req i) = Some (measureXray d run)" "fst (chosen (all_engines d env run) req i) = ''xray''"
  defines "r \<equiv> measure_link (all_engines d env run) req i (first_result (all_engines d env run) req i)"
  shows "pr_Engine r = ''xray'' \<or> \<not> pinnedRun req \<and> pr_Engine r = ''mihomo''" "pr_Index r = i"
    "pr_Alive r \<or> pr_Engine r = ''mihomo'' \<Longrightarrow> \<not> unsafe_link d (TrimSpace (rq_Links req ! i))"
    "pr_Alive r \<Longrightarrow> pr_Engine r = ''mihomo'' \<Longrightarrow> \<exists>p. ProxyMapFromLink env (rq_Links req ! i) = Inr p"
proof -
  let ?link = "rq_Links req ! i" and ?url = "probe_url req" and ?r = "first_result (all_engines d env run) req i"
  have r0: "pr_Engine ?r = ''xray''" "pr_Index ?r = i" "\<not> pr_Alive ?r"
    using assms(2) by (simp_all add: first_result_def)
  have "r = finished (measureXray d run ?link ?url) ?r \<or>
      (\<exists>e. measureXray d run ?link ?url = Falls_Back e) \<and> \<not> pinnedRun req \<and>
      r = finished (measureMihomo env run ?link ?url) (?r\<lparr>pr_Engine := ''mihomo''\<rparr>)"
    using assms(1) by (auto simp: r_def measure_link_def all_engines_def Let_def split: measured.split)
  then show "pr_Engine r = ''xray'' \<or> \<not> pinnedRun req \<and> pr_Engine r = ''mihomo''" "pr_Index r = i"
    "pr_Alive r \<or> pr_Engine r = ''mihomo'' \<Longrightarrow> \<not> unsafe_link d (TrimSpace (rq_Links req ! i))"
    "pr_Alive r \<Longrightarrow> pr_Engine r = ''mihomo'' \<Longrightarrow> \<exists>p. ProxyMapFromLink env (rq_Links req ! i) = Inr p"
    using r0 measureXray_safe [of d run ?link ?url]
    by (auto simp: finished_fields dest: measureMihomo_took)
qed

text \<open>
  C23. In whatever order the measurements finish, the results stand at the positions of the links. A pinned request never leaves its
  engine. A link counted alive on xray passed xray's safety checks, and one that xray is asked for first is measured on mihomo
  instead only after those checks passed too: falling back never revives a link that was refused as unsafe. A link alive on
  mihomo's code is one mihomo's own parser takes.
\<close>

theorem ping_never_revives_unsafe:
  assumes "distinct order" "set order = launched (all_engines d env run) req" "i < length (rq_Links req)"
  shows "let r = Measure (all_engines d env run) req order ! i; link = TrimSpace (rq_Links req ! i)
    in length (Measure (all_engines d env run) req order) = length (rq_Links req) \<and> pr_Index r = i \<and>
       (pinnedRun req \<longrightarrow> pr_Engine r = TrimSpace (rq_Engine req)) \<and>
       (pr_Engine r = ''xray'' \<and> pr_Alive r \<longrightarrow> \<not> unsafe_link d link) \<and>
       (\<not> pinnedRun req \<and> match_xray (ToLower link) \<and> pr_Engine r = ''mihomo'' \<longrightarrow> \<not> unsafe_link d link) \<and>
       (pr_Alive r \<and> pr_Engine r \<noteq> ''xray'' \<longrightarrow> (\<exists>p. ProxyMapFromLink env (rq_Links req ! i) = Inr p))"
proof -
  let ?reg = "all_engines d env run"
  let ?r = "measure_link ?reg req i (first_result ?reg req i)"
  have r: "Measure ?reg req order ! i = ?r" "length (Measure ?reg req order) = length (rq_Links req)"
    using Measure_entries [OF assms(1,2)] assms(3) by simp_all
  have pin: "pinnedRun req \<Longrightarrow> fst (chosen ?reg req i) = TrimSpace (rq_Engine req)"
    by (simp add: chosen_def classifyOn_all)
  consider "snd (chosen ?reg req i) = None" | "snd (chosen ?reg req i) = Some (measureMihomo env run)"
      "\<not> pinnedRun req \<longrightarrow> fst (chosen ?reg req i) = ''mihomo'' \<longrightarrow> \<not> match_xray (ToLower (TrimSpace (rq_Links req ! i)))"
      "fst (chosen ?reg req i) \<noteq> ''xray''"
    | "snd (chosen ?reg req i) = Some (measureXray d run)" "fst (chosen ?reg req i) = ''xray''"
    using classifyOn_all [of d env run "TrimSpace (rq_Engine req)" "rq_Links req ! i"]
    by (cases "snd (chosen ?reg req i)") (auto simp: chosen_def classify_all Let_def split: if_splits)
  then show ?thesis
  proof cases
    case 1
    then have "?r = first_result ?reg req i" by (simp add: measure_link_def)
    moreover have "fst (chosen ?reg req i) \<noteq> ''mihomo''" if "\<not> pinnedRun req"
      using 1 that by (auto simp: chosen_def classify_all Let_def split: if_splits)
    ultimately show ?thesis using r pin by (auto simp: first_result_def Let_def)
  next
    case 2
    from mihomo_entry [OF 2(1)] 2(2,3) r pin show ?thesis by (auto simp: Let_def)
  next
    case 3
    from xray_entry [OF 3] 3(2) r pin show ?thesis by (auto simp: Let_def)
  qed
qed

definition sample_runs :: engine_runs where
  "sample_runs = \<lparr>run_xray = (\<lambda>_ _. Inr 120), run_mihomo = (\<lambda>_ _. Inr 80)\<rparr>"

definition sample_pings :: Request where
  "sample_pings = \<lparr>rq_Engine = [], rq_Links = [''nothing'', '' vless://a ''], rq_ProbeURL = []\<rparr>"

theorem ping_never_revives_unsafe_witness:
  "Measure (all_engines sample_deps sample_env sample_runs) sample_pings [1] ! 1 =
     \<lparr>pr_Index = 1, pr_Engine = ''xray'', pr_Alive = True, pr_DelayMs = 120, pr_Error = None\<rparr> \<and>
   \<not> unsafe_link sample_deps ''vless://a''"
proof -
  let ?reg = "all_engines sample_deps sample_env sample_runs"
  have m: "Measure ?reg sample_pings [1] ! 1 = \<lparr>pr_Index = 1, pr_Engine = ''xray'', pr_Alive = True, pr_DelayMs = 120, pr_Error = None\<rparr>"
    by code_simp
  have "length (rq_Links sample_pings) = 2" "snd (chosen ?reg sample_pings 0) = None" "snd (chosen ?reg sample_pings 1) \<noteq> None"
    by code_simp+
  then have "set [1] = launched ?reg sample_pings" by (auto simp: launched_def less_2_cases_iff)
  moreover have "1 < length (rq_Links sample_pings)" by code_simp
  moreover have "TrimSpace (rq_Links sample_pings ! 1) = ''vless://a''" by code_simp
  ultimately show ?thesis
    using ping_never_revives_unsafe [of "[1]" sample_deps sample_env sample_runs sample_pings 1] m by (simp add: Let_def)
qed

end
