(* ===== verification/Process_Names.thy ===== *)
theory Process_Names
  imports Go_Encoding Go_Netip
begin

text \<open>
  Which process owns a socket: the owner tables of Windows and the socket lists of Linux
  (\<^verbatim>\<open>src/internal/procname/tables.go\<close>, \<^verbatim>\<open>procfs.go\<close> and the lookups of \<^verbatim>\<open>procname_linux.go\<close>).

  Bytes are numbers below 256; the files under \<^verbatim>\<open>/proc\<close> are parameters.
\<close>

section \<open>Owner tables\<close>

record tableLayout =
  rowLen :: nat
  addrOff :: nat
  addrLen :: nat
  portOff :: nat
  pidOff :: nat

definition tcp4Layout :: tableLayout where
  "tcp4Layout = \<lparr>rowLen = 24, addrOff = 4, addrLen = 4, portOff = 8, pidOff = 20\<rparr>"

definition tcp6Layout :: tableLayout where
  "tcp6Layout = \<lparr>rowLen = 56, addrOff = 0, addrLen = 16, portOff = 20, pidOff = 52\<rparr>"

definition udp4Layout :: tableLayout where
  "udp4Layout = \<lparr>rowLen = 12, addrOff = 0, addrLen = 4, portOff = 4, pidOff = 8\<rparr>"

definition udp6Layout :: tableLayout where
  "udp6Layout = \<lparr>rowLen = 28, addrOff = 0, addrLen = 16, portOff = 20, pidOff = 24\<rparr>"

definition layoutFor :: "bool \<Rightarrow> bool \<Rightarrow> tableLayout" where
  "layoutFor tcp v6 = (if tcp \<and> v6 then tcp6Layout else if tcp then tcp4Layout else if v6 then udp6Layout else udp4Layout)"

definition Uint32_LE :: "nat list \<Rightarrow> nat" where
  "Uint32_LE b = b ! 0 + 256 * b ! 1 + 65536 * b ! 2 + 16777216 * b ! 3"

definition Uint16_BE :: "nat list \<Rightarrow> nat" where
  "Uint16_BE b = 256 * b ! 0 + b ! 1"

definition Unmap16 :: "nat list \<Rightarrow> ip" where
  "Unmap16 b = (if take 12 b = v4_mapped_prefix then IP4 (drop 12 b) else IP6 b [])"

definition IsUnspecified :: "ip \<Rightarrow> bool" where
  "IsUnspecified a \<longleftrightarrow> a = IP4 (replicate 4 0) \<or> a = IP6 (replicate 16 0) []"

definition slice :: "nat \<Rightarrow> nat \<Rightarrow> 'a list \<Rightarrow> 'a list" where
  "slice off n b = take n (drop off b)"

definition row_addr :: "tableLayout \<Rightarrow> nat list \<Rightarrow> ip" where
  "row_addr l row = (if addrLen l = 4 then IP4 (slice (addrOff l) 4 row) else Unmap16 (slice (addrOff l) 16 row))"

fun scan_rows :: "tableLayout \<Rightarrow> ip \<Rightarrow> nat \<Rightarrow> nat list \<Rightarrow> nat \<Rightarrow> nat \<Rightarrow> nat option" where
  "scan_rows l src port rows r 0 = None"
| "scan_rows l src port rows r (Suc left) =
     (if (r + 1) * rowLen l \<le> length rows then
        (let row = slice (r * rowLen l) (rowLen l) rows
         in if Uint16_BE (slice (portOff l) 2 row) \<noteq> port then scan_rows l src port rows (r + 1) left
            else if row_addr l row = src \<or> IsUnspecified (row_addr l row) then Some (Uint32_LE (slice (pidOff l) 4 row))
            else scan_rows l src port rows (r + 1) left)
      else None)"

definition matchPid :: "nat list \<Rightarrow> tableLayout \<Rightarrow> ip \<Rightarrow> nat \<Rightarrow> nat option" where
  "matchPid table l src port =
     (if length table < 4 then None else scan_rows l src port (drop 4 table) 0 (Uint32_LE table))"

section \<open>Socket lists\<close>

definition byte_list :: "string \<Rightarrow> nat list" where
  "byte_list s = map byte s"

text \<open>The bytes of each group of four in reverse.\<close>

definition swap_groups :: "'a list \<Rightarrow> 'a list" where
  "swap_groups b = map (\<lambda>i. b ! (4 * (i div 4) + 3 - i mod 4)) [0..<length b]"

definition parseProcAddr :: "string \<Rightarrow> ip option" where
  "parseProcAddr s =
     (case hex_DecodeString s of
        None \<Rightarrow> None
      | Some b \<Rightarrow>
          if length b = 4 then Some (IP4 (swap_groups (byte_list b)))
          else if length b = 16 then Some (Unmap16 (swap_groups (byte_list b)))
          else None)"

text \<open>\<^verbatim>\<open>strconv.ParseUint\<close> in base 16.\<close>

definition ParseUint_hex :: "string \<Rightarrow> nat \<Rightarrow> nat option" where
  "ParseUint_hex s bits =
     (let n = foldl (\<lambda>n c. 16 * n + hex_val c) 0 s
      in if s = [] \<or> \<not> list_all is_hex s \<or> 2 ^ bits \<le> n then None else Some n)"

definition line_inode :: "ip \<Rightarrow> nat \<Rightarrow> string \<Rightarrow> nat option" where
  "line_inode src port line =
     (let f = Fields line
      in if length f < 10 then None
         else case LastIndexByte (f ! 1) CHR '':'' of
           None \<Rightarrow> None
         | Some i \<Rightarrow>
             if ParseUint_hex (drop (i + 1) (f ! 1)) 16 \<noteq> Some port then None
             else case parseProcAddr (take i (f ! 1)) of
               None \<Rightarrow> None
             | Some addr \<Rightarrow>
                 if addr \<noteq> src \<and> \<not> IsUnspecified addr then None
                 else case ParseUint (f ! 9) 64 of None \<Rightarrow> None | Some inode \<Rightarrow> if inode \<noteq> 0 then Some inode else None)"

fun first_inode :: "ip \<Rightarrow> nat \<Rightarrow> string list \<Rightarrow> nat" where
  "first_inode src port [] = 0"
| "first_inode src port (line # lines) =
     (case line_inode src port line of Some inode \<Rightarrow> inode | None \<Rightarrow> first_inode src port lines)"

definition findSocketInode :: "string \<Rightarrow> ip \<Rightarrow> nat \<Rightarrow> nat" where
  "findSocketInode procNet src port = first_inode src port (Split procNet CHR 0x0A)"

definition procNetFiles :: "bool \<Rightarrow> bool \<Rightarrow> string list" where
  "procNetFiles tcp v6 =
     (let base = (if tcp then ''/proc/net/tcp'' else ''/proc/net/udp'')
      in if v6 then [base @ ''6''] else [base, base @ ''6''])"

record proc_fs =
  pf_file :: "string \<Rightarrow> string option"
  pf_entries :: "(string \<times> string list) list"  \<comment> \<open>the entries of \<^verbatim>\<open>/proc\<close> with the targets of their fds\<close>
  pf_exe :: "int \<Rightarrow> string option"

fun first_file_inode :: "proc_fs \<Rightarrow> ip \<Rightarrow> nat \<Rightarrow> string list \<Rightarrow> nat" where
  "first_file_inode fs src port [] = 0"
| "first_file_inode fs src port (name # names) =
     (case pf_file fs name of
        None \<Rightarrow> first_file_inode fs src port names
      | Some data \<Rightarrow>
          if findSocketInode data src port \<noteq> 0 then findSocketInode data src port else first_file_inode fs src port names)"

definition pidForInode :: "proc_fs \<Rightarrow> nat \<Rightarrow> int option" where
  "pidForInode fs inode =
     map_option (\<lambda>e. the (Atoi (fst e)))
       (find (\<lambda>(name, fds). Atoi name \<noteq> None \<and> (''socket:['' @ nat_digits inode @ '']'') \<in> set fds) (pf_entries fs))"

text \<open>\<^verbatim>\<open>FindProcessName\<close> on Linux; the address comes unmapped.\<close>

definition findProcessName :: "proc_fs \<Rightarrow> bool \<Rightarrow> ip \<Rightarrow> nat \<Rightarrow> string option" where
  "findProcessName fs tcp src port =
     (let inode = first_file_inode fs src port (procNetFiles tcp (case src of IP4 _ \<Rightarrow> False | IP6 _ _ \<Rightarrow> True))
      in if inode = 0 then None
         else case pidForInode fs inode of None \<Rightarrow> None | Some pid \<Rightarrow> pf_exe fs pid)"

section \<open>A table's rows are read as written\<close>

text \<open>
  The rows as Windows documents them (\<^verbatim>\<open>MIB_TCPROW_OWNER_PID\<close>, \<^verbatim>\<open>MIB_TCP6ROW_OWNER_PID\<close>, \<^verbatim>\<open>MIB_UDPROW_OWNER_PID\<close>,
  \<^verbatim>\<open>MIB_UDP6ROW_OWNER_PID\<close>): the local address, the local port in network order in the low half of its field, and the owner.
\<close>

record mib =
  mib_addr :: "nat list"
  mib_port :: nat
  mib_pid :: nat
  mib_state :: "nat list"
  mib_scope :: "nat list"
  mib_high :: "nat list"  \<comment> \<open>the high half of the port field\<close>
  mib_remote :: "nat list"
  mib_remoteScope :: "nat list"
  mib_remotePort :: "nat list"

definition dword :: "nat \<Rightarrow> nat list" where
  "dword n = [n mod 256, n div 256 mod 256, n div 65536 mod 256, n div 16777216 mod 256]"

definition port_field :: "mib \<Rightarrow> nat list" where
  "port_field e = [mib_port e div 256, mib_port e mod 256] @ mib_high e"

definition mib_row :: "bool \<Rightarrow> bool \<Rightarrow> mib \<Rightarrow> nat list" where
  "mib_row tcp v6 e =
     (if tcp \<and> v6 then mib_addr e @ mib_scope e @ port_field e @ mib_remote e @ mib_remoteScope e @ mib_remotePort e @ mib_state e @ dword (mib_pid e)
      else if tcp then mib_state e @ mib_addr e @ port_field e @ mib_remote e @ mib_remotePort e @ dword (mib_pid e)
      else if v6 then mib_addr e @ mib_scope e @ port_field e @ dword (mib_pid e)
      else mib_addr e @ port_field e @ dword (mib_pid e))"

definition mib_ok :: "bool \<Rightarrow> mib \<Rightarrow> bool" where
  "mib_ok v6 e \<longleftrightarrow>
     length (mib_addr e) = (if v6 then 16 else 4) \<and> length (mib_remote e) = (if v6 then 16 else 4) \<and>
     length (mib_scope e) = 4 \<and> length (mib_remoteScope e) = 4 \<and> length (mib_remotePort e) = 4 \<and> length (mib_state e) = 4 \<and>
     length (mib_high e) = 2 \<and> mib_port e < 2 ^ 16 \<and> mib_pid e < 2 ^ 32"

definition mib_ip :: "bool \<Rightarrow> mib \<Rightarrow> ip" where
  "mib_ip v6 e = (if v6 then Unmap16 (mib_addr e) else IP4 (mib_addr e))"

definition row_owns :: "tableLayout \<Rightarrow> ip \<Rightarrow> nat \<Rightarrow> nat list \<Rightarrow> bool" where
  "row_owns l src port row \<longleftrightarrow>
     Uint16_BE (slice (portOff l) 2 row) = port \<and> (row_addr l row = src \<or> IsUnspecified (row_addr l row))"

lemma Uint32_LE_dword: "n < 2 ^ 32 \<Longrightarrow> Uint32_LE (dword n @ rest) = n"
proof -
  assume n: "n < 2 ^ 32"
  define a b c where "a = n div 256" and "b = n div 65536" and "c = n div 16777216"
  have "b = a div 256" "c = b div 256"
    using div_mult2_eq [of n 256 256] div_mult2_eq [of n 65536 256] by (simp_all add: a_def b_def c_def)
  moreover have "c < 256" using n by (simp add: c_def less_mult_imp_div_less)
  ultimately have "n = n mod 256 + 256 * a" "a = a mod 256 + 256 * b" "b = b mod 256 + 256 * c" "c = c mod 256"
    by (simp_all add: a_def)
  then have "n = n mod 256 + 256 * (a mod 256) + 65536 * (b mod 256) + 16777216 * (c mod 256)" by linarith
  then have "n mod 256 + 256 * (n div 256 mod 256) + 65536 * (n div 65536 mod 256) + 16777216 * (n div 16777216 mod 256) = n"
    unfolding a_def b_def c_def by (rule sym)
  then show ?thesis unfolding Uint32_LE_def dword_def append.simps nth_Cons_0 One_nat_def nth_Cons_Suc numeral_2_eq_2 numeral_3_eq_3 .
qed

lemma slice_mid: "length a = off \<Longrightarrow> length b = n \<Longrightarrow> slice off n (a @ b @ c) = b"
  by (simp add: slice_def)

lemma mib_row_length: "mib_ok v6 e \<Longrightarrow> length (mib_row tcp v6 e) = rowLen (layoutFor tcp v6)"
  by (auto simp: mib_row_def mib_ok_def layoutFor_def port_field_def dword_def tcp4Layout_def tcp6Layout_def udp4Layout_def udp6Layout_def)

text \<open>Each field of a row stands where the layout says.\<close>

lemma mib_row_fields:
  assumes "mib_ok v6 e"
  shows "\<exists>a c. mib_row tcp v6 e = a @ mib_addr e @ c \<and> length a = addrOff (layoutFor tcp v6)"
    "\<exists>a c. mib_row tcp v6 e = a @ [mib_port e div 256, mib_port e mod 256] @ c \<and> length a = portOff (layoutFor tcp v6)"
    "\<exists>a. mib_row tcp v6 e = a @ dword (mib_pid e) \<and> length a = pidOff (layoutFor tcp v6)"
proof -
  note d = mib_row_def layoutFor_def port_field_def tcp4Layout_def tcp6Layout_def udp4Layout_def udp6Layout_def
  show "\<exists>a c. mib_row tcp v6 e = a @ mib_addr e @ c \<and> length a = addrOff (layoutFor tcp v6)"
    using assms by (cases tcp; cases v6) (auto simp: d mib_ok_def intro: exI [of _ "[]"] exI [of _ "mib_state e"])
  show "\<exists>a c. mib_row tcp v6 e = a @ [mib_port e div 256, mib_port e mod 256] @ c \<and> length a = portOff (layoutFor tcp v6)"
    using assms
    by (cases tcp; cases v6)
      (auto simp: d mib_ok_def intro: exI [of _ "mib_addr e @ mib_scope e"] exI [of _ "mib_state e @ mib_addr e"] exI [of _ "mib_addr e"])
  let ?p = "port_field e"
  show "\<exists>a. mib_row tcp v6 e = a @ dword (mib_pid e) \<and> length a = pidOff (layoutFor tcp v6)"
    using assms
    by (cases tcp; cases v6)
      (auto simp: d mib_ok_def
        intro: exI [of _ "mib_addr e @ mib_scope e @ ?p @ mib_remote e @ mib_remoteScope e @ mib_remotePort e @ mib_state e"]
          exI [of _ "mib_state e @ mib_addr e @ ?p @ mib_remote e @ mib_remotePort e"] exI [of _ "mib_addr e @ mib_scope e @ ?p"]
          exI [of _ "mib_addr e @ ?p"])
qed

lemma mib_row_owns:
  fixes tcp
  assumes "mib_ok v6 e"
  defines "l \<equiv> layoutFor tcp v6"
  shows "row_owns l src port (mib_row tcp v6 e) \<longleftrightarrow> mib_port e = port \<and> (mib_ip v6 e = src \<or> IsUnspecified (mib_ip v6 e))"
    "Uint32_LE (slice (pidOff l) 4 (mib_row tcp v6 e)) = mib_pid e"
proof -
  obtain a c where ac: "mib_row tcp v6 e = a @ mib_addr e @ c" "length a = addrOff l"
    using mib_row_fields(1) [OF assms(1)] unfolding l_def by blast
  obtain b d where bd: "mib_row tcp v6 e = b @ [mib_port e div 256, mib_port e mod 256] @ d" "length b = portOff l"
    using mib_row_fields(2) [OF assms(1)] unfolding l_def by blast
  obtain f where f: "mib_row tcp v6 e = f @ dword (mib_pid e)" "length f = pidOff l"
    using mib_row_fields(3) [OF assms(1)] unfolding l_def by blast
  have len: "length (mib_addr e) = addrLen l" "addrLen l = (if v6 then 16 else 4)"
    using assms(1) by (simp_all add: mib_ok_def l_def layoutFor_def tcp4Layout_def tcp6Layout_def udp4Layout_def udp6Layout_def)
  have "slice (addrOff l) (addrLen l) (mib_row tcp v6 e) = mib_addr e" unfolding ac(1) by (rule slice_mid [OF ac(2) len(1)])
  then have "row_addr l (mib_row tcp v6 e) = mib_ip v6 e" using len(2) by (auto simp: row_addr_def mib_ip_def)
  moreover have "slice (portOff l) 2 (mib_row tcp v6 e) = [mib_port e div 256, mib_port e mod 256]"
    unfolding bd(1) by (rule slice_mid [OF bd(2)]) simp
  then have "Uint16_BE (slice (portOff l) 2 (mib_row tcp v6 e)) = mib_port e" by (simp add: Uint16_BE_def)
  ultimately show "row_owns l src port (mib_row tcp v6 e) \<longleftrightarrow> mib_port e = port \<and> (mib_ip v6 e = src \<or> IsUnspecified (mib_ip v6 e))"
    by (simp add: row_owns_def)
  have "slice (pidOff l) 4 (f @ dword (mib_pid e) @ []) = dword (mib_pid e)" by (rule slice_mid [OF f(2)]) (simp add: dword_def)
  then have "slice (pidOff l) 4 (mib_row tcp v6 e) = dword (mib_pid e) @ []" by (simp add: f(1))
  moreover have "mib_pid e < 2 ^ 32" using assms(1) by (simp add: mib_ok_def)
  ultimately show "Uint32_LE (slice (pidOff l) 4 (mib_row tcp v6 e)) = mib_pid e" using Uint32_LE_dword by metis
qed

lemma slice_concat:
  assumes "\<forall>row \<in> set rows. length row = n" "r < length rows"
  shows "slice (r * n) n (concat rows @ slack) = rows ! r"
  using assms
proof (induction rows arbitrary: r)
  case (Cons row rows)
  then show ?case
    by (cases r) (auto simp: slice_def)
qed simp

lemma length_concat_rows: "\<forall>row \<in> set rows. length row = n \<Longrightarrow> length (concat rows) = length rows * n"
  by (induction rows) auto

lemma scan_rows_find:
  assumes "\<forall>row \<in> set rows. length row = rowLen l" "r + left \<le> length rows \<or> length slack < rowLen l" "r \<le> length rows"
  shows "scan_rows l src port (concat rows @ slack) r left =
    map_option (\<lambda>row. Uint32_LE (slice (pidOff l) 4 row)) (find (row_owns l src port) (take left (drop r rows)))"
  using assms(2,3)
proof (induction left arbitrary: r)
  case (Suc left)
  have len: "length (concat rows @ slack) = length rows * rowLen l + length slack"
    using length_concat_rows [OF assms(1)] by simp
  show ?case
  proof (cases "r < length rows")
    case True
    then have "(r + 1) * rowLen l \<le> length rows * rowLen l" by (intro mult_le_mono1) simp
    then have fits: "(r + 1) * rowLen l \<le> length (concat rows @ slack)" using len by simp
    have "drop r rows = rows ! r # drop (r + 1) rows" using True by (simp add: Cons_nth_drop_Suc)
    then show ?thesis
      using fits Suc.IH [of "r + 1"] Suc.prems True slice_concat [OF assms(1) True, of slack]
      by (simp add: Let_def row_owns_def)
  next
    case False
    then have r: "r = length rows" using Suc.prems by simp
    have "\<not> (r + 1) * rowLen l \<le> length (concat rows @ slack)" using len Suc.prems r by simp
    then show ?thesis using r by simp
  qed
qed simp

text \<open>
  C24. Looking up the owner of a socket in a table laid out as Windows documents it, of any protocol and family, gives the process
  of the first counted row with the port whose address is the source or the wildcard, and none when no counted row has it. Whatever
  follows the counted rows, whole rows included, is never read as one; and when the count exceeds the rows that are there, the rows
  there are read and the rest of a row is not.
\<close>

theorem owner_table_exact:
  assumes "\<forall>e \<in> set es. mib_ok v6 e" "n < 2 ^ 32" "n \<le> length es \<or> length slack < rowLen (layoutFor tcp v6)"
  shows "matchPid (dword n @ concat (map (mib_row tcp v6) es) @ slack) (layoutFor tcp v6) src port =
    map_option mib_pid (find (\<lambda>e. mib_port e = port \<and> (mib_ip v6 e = src \<or> IsUnspecified (mib_ip v6 e))) (take n es))"
proof -
  let ?l = "layoutFor tcp v6" and ?rows = "map (mib_row tcp v6) es"
  have rows: "\<forall>row \<in> set ?rows. length row = rowLen ?l" using assms(1) by (auto simp: mib_row_length)
  have "length (dword n) = 4" by (simp add: dword_def)
  then have "matchPid (dword n @ concat ?rows @ slack) ?l src port = scan_rows ?l src port (concat ?rows @ slack) 0 n"
    using Uint32_LE_dword [OF assms(2)] by (simp add: matchPid_def)
  also have "\<dots> = map_option (\<lambda>row. Uint32_LE (slice (pidOff ?l) 4 row)) (find (row_owns ?l src port) (map (mib_row tcp v6) (take n es)))"
    using scan_rows_find [OF rows, of 0 n slack src port] assms(3) by (simp add: take_map)
  also have "\<dots> = map_option mib_pid
      (find (\<lambda>e. mib_port e = port \<and> (mib_ip v6 e = src \<or> IsUnspecified (mib_ip v6 e))) (take n es))"
  proof -
    have "map_option (\<lambda>row. Uint32_LE (slice (pidOff ?l) 4 row)) (find (row_owns ?l src port) (map (mib_row tcp v6) xs)) =
        map_option mib_pid (find (\<lambda>e. mib_port e = port \<and> (mib_ip v6 e = src \<or> IsUnspecified (mib_ip v6 e))) xs)"
      if "\<forall>e \<in> set xs. mib_ok v6 e" for xs
      using that by (induction xs) (auto simp: mib_row_owns)
    then show ?thesis using assms(1) by (auto dest: in_set_takeD)
  qed
  finally show ?thesis .
qed

definition sample_mib :: mib where
  "sample_mib = \<lparr>mib_addr = [0, 0, 0, 0], mib_port = 5353, mib_pid = 70000, mib_state = [2, 0, 0, 0], mib_scope = [0, 0, 0, 0],
     mib_high = [0, 0], mib_remote = [0, 0, 0, 0], mib_remoteScope = [0, 0, 0, 0], mib_remotePort = [0, 0, 0, 0]\<rparr>"

text \<open>A table of two rows whose count is one: the second row, which would match, is not read.\<close>

theorem owner_table_exact_witness:
  "matchPid (dword 1 @ concat (map (mib_row False False) [sample_mib\<lparr>mib_port := 80\<rparr>, sample_mib]) @ [7, 7]) (layoutFor False False)
     (IP4 [10, 0, 0, 2]) 5353 = None"
proof -
  have "\<forall>e \<in> set [sample_mib\<lparr>mib_port := 80\<rparr>, sample_mib]. mib_ok False e" by (simp add: mib_ok_def sample_mib_def)
  moreover have "(1 :: nat) < 2 ^ 32" "1 \<le> length [sample_mib\<lparr>mib_port := 80\<rparr>, sample_mib]" by simp_all
  moreover have "find (\<lambda>e. mib_port e = 5353 \<and> (mib_ip False e = IP4 [10, 0, 0, 2] \<or> IsUnspecified (mib_ip False e)))
      (take 1 [sample_mib\<lparr>mib_port := 80\<rparr>, sample_mib]) = None"
    by code_simp
  ultimately show ?thesis
    using owner_table_exact [of "[sample_mib\<lparr>mib_port := 80\<rparr>, sample_mib]" False 1 "[7, 7]" False "IP4 [10, 0, 0, 2]" 5353]
    by (simp only: option.map) blast
qed

section \<open>Linux addresses\<close>

lemma hex_lower_val: "n < 16 \<Longrightarrow> is_hex (hex_lower n) \<and> hex_val (hex_lower n) = n"
  by (auto simp: hex_lower_def is_hex_def hex_val_def is_digit_def)

lemma hex_roundtrip: "hex_DecodeString (hex_EncodeToString s) = Some s"
proof (induction s)
  case (Cons c s)
  have "byte c div 16 < 16" "byte c mod 16 < 16" using byte_less [of c] by (simp_all add: less_mult_imp_div_less)
  moreover have "byte c div 16 * 16 + byte c mod 16 = byte c" by (rule div_mult_mod_eq)
  ultimately show ?case using Cons by (simp add: hex_lower_val)
qed simp

end
