(* ===== verification/Service_Process.thy ===== *)
theory Service_Process
  imports Start_Config
begin

text \<open>
  The two processes of a Windows installation: the library in the client and the service that holds the tunnel, with the commands
  between them (\<^verbatim>\<open>src/internal/core/engine.go\<close>, \<^verbatim>\<open>ipc_windows_client.go\<close>, \<^verbatim>\<open>service_windows.go\<close> and the settings of
  \<^verbatim>\<open>controller.go\<close>).

  The engines' own handlers are a record over the state \<open>'l\<close> of a process's engines. JSON is a record of encoders and decoders; the theorems
  ask that a decoder reads back what its encoder wrote. The pipe works or it does not.
\<close>

section \<open>Engines and JSON\<close>

definition ResultSuccess :: int where "ResultSuccess = 0"
definition ResultError :: int where "ResultError = 1"

record 'l engine_ops =
  op_start :: "string \<Rightarrow> EngineStartRequest \<Rightarrow> 'l \<Rightarrow> int \<times> 'l"
  op_stop :: "string \<Rightarrow> 'l \<Rightarrow> int \<times> 'l"
  op_running :: "string \<Rightarrow> 'l \<Rightarrow> bool"
  op_ids :: "string list"  \<comment> \<open>\<^verbatim>\<open>engineRegistry\<close>\<close>

record json_codec =
  enc_request :: "EngineStartRequest \<Rightarrow> string"
  dec_request :: "string \<Rightarrow> EngineStartRequest option"
  enc_start :: "string \<times> string \<times> int \<times> int \<Rightarrow> string"
  dec_start :: "string \<Rightarrow> (string \<times> string \<times> int \<times> int) option"
  enc_engine :: "string \<Rightarrow> string"
  dec_engine :: "string \<Rightarrow> string option"
  enc_number :: "int \<Rightarrow> string"
  dec_number :: "string \<Rightarrow> int option"
  enc_flag :: "bool \<Rightarrow> string"
  dec_flag :: "string \<Rightarrow> bool option"

section \<open>Settings\<close>

definition defaultTunUDPTimeoutSec :: int where "defaultTunUDPTimeoutSec = 30"

record tun2socks_env =
  env_MTU :: string
  env_UDPTimeout :: string

definition applyTun2SocksConfig :: "int \<Rightarrow> int \<Rightarrow> tun2socks_env \<Rightarrow> tun2socks_env" where
  "applyTun2SocksConfig mtu udp e =
     (let e = (if 1200 \<le> mtu \<and> mtu \<le> 1500 then e\<lparr>env_MTU := itoa mtu\<rparr> else e)
      in if 5 \<le> udp \<and> udp \<le> 300 then e\<lparr>env_UDPTimeout := itoa udp\<rparr> else e)"

definition env_int :: "string \<Rightarrow> int \<Rightarrow> int \<Rightarrow> int \<Rightarrow> int" where
  "env_int s lo hi dflt =
     (if s = [] then dflt else case Atoi s of Some v \<Rightarrow> (if lo \<le> v \<and> v \<le> hi then v else dflt) | None \<Rightarrow> dflt)"

definition tun2socksMTU :: "tun2socks_env \<Rightarrow> int" where
  "tun2socksMTU e = env_int (env_MTU e) 1200 1500 defaultTunMTU"

definition tun2socksUDPTimeout :: "tun2socks_env \<Rightarrow> int" where
  "tun2socksUDPTimeout e = env_int (env_UDPTimeout e) 5 300 30"

definition currentTun2SocksConfig :: "tun2socks_env \<Rightarrow> int \<times> int" where
  "currentTun2SocksConfig e =
     (env_int (env_MTU e) 1200 1500 defaultTunMTU, env_int (env_UDPTimeout e) 5 300 defaultTunUDPTimeoutSec)"

definition clamp_verbosity :: "int \<Rightarrow> int" where
  "clamp_verbosity level = (if level < - 1 then - 1 else if level > 2 then 2 else level)"

definition memory_limit :: "int \<Rightarrow> int" where
  "memory_limit bytes = (if 0 < bytes then bytes else 2 ^ 63 - 1)"

section \<open>The service\<close>

record 'l service =
  sv_engines :: 'l
  sv_env :: tun2socks_env
  sv_verbosity :: int
  sv_inspector :: bool
  sv_memoryLimit :: int
  sv_stats :: "int option"  \<comment> \<open>the interval of the running stats loop, in milliseconds\<close>
  sv_replays :: nat

record pipeCommand =
  cmd_Action :: string
  cmd_Payload :: string

datatype service_error = Invalid_Payload | Invalid_Request | Start_Failed | Stop_Failed | Bad_Interval | Unknown_Action | No_Pipe

datatype pipeResponse = OK | OK_Running bool | Fails service_error

text \<open>In the service \<^verbatim>\<open>useServiceIPC\<close> is off: an engine command goes to the engine's handler.\<close>

definition service_start :: "'l engine_ops \<Rightarrow> string \<Rightarrow> EngineStartRequest \<Rightarrow> 'l \<Rightarrow> int \<times> 'l" where
  "service_start ops eid req l = (if eid \<notin> set (op_ids ops) then (ResultError, l) else op_start ops eid req l)"

definition service_stop :: "'l engine_ops \<Rightarrow> string \<Rightarrow> 'l \<Rightarrow> int \<times> 'l" where
  "service_stop ops eid l = (if eid \<notin> set (op_ids ops) then (ResultError, l) else op_stop ops eid l)"

definition dispatchCommand :: "'l engine_ops \<Rightarrow> json_codec \<Rightarrow> pipeCommand \<Rightarrow> 'l service \<Rightarrow> pipeResponse \<times> 'l service" where
  "dispatchCommand ops j cmd sv =
     (let action = ToLower (TrimSpace (cmd_Action cmd)); payload = cmd_Payload cmd
      in if action = ''ping'' then (OK, sv)
         else if action = ''engine_start'' then
           (case dec_start j payload of
              None \<Rightarrow> (Fails Invalid_Payload, sv)
            | Some (eid, text, mtu, udp) \<Rightarrow>
                case dec_request j text of
                  None \<Rightarrow> (Fails Invalid_Request, sv)
                | Some req \<Rightarrow>
                    (case service_start ops eid req (sv_engines sv) of (result, l) \<Rightarrow>
                       (if result \<noteq> ResultSuccess then Fails Start_Failed else OK,
                        sv\<lparr>sv_env := applyTun2SocksConfig mtu udp (sv_env sv), sv_engines := l\<rparr>)))
         else if action = ''engine_stop'' then
           (case dec_engine j payload of
              None \<Rightarrow> (Fails Invalid_Payload, sv)
            | Some eid \<Rightarrow>
                (case service_stop ops eid (sv_engines sv) of (result, l) \<Rightarrow>
                   (if result \<noteq> ResultSuccess then Fails Stop_Failed else OK, sv\<lparr>sv_engines := l\<rparr>)))
         else if action = ''engine_status'' then
           (case dec_engine j payload of
              None \<Rightarrow> (Fails Invalid_Payload, sv)
            | Some eid \<Rightarrow> (OK_Running (eid \<in> set (op_ids ops) \<and> op_running ops eid (sv_engines sv)), sv))
         else if action = ''set_status_verbosity'' then
           (case dec_number j payload of
              None \<Rightarrow> (Fails Invalid_Payload, sv)
            | Some level \<Rightarrow> (OK, sv\<lparr>sv_verbosity := clamp_verbosity level\<rparr>))
         else if action = ''set_conn_inspector'' then
           (case dec_flag j payload of
              None \<Rightarrow> (Fails Invalid_Payload, sv)
            | Some on \<Rightarrow> (OK, sv\<lparr>sv_inspector := on\<rparr>))
         else if action = ''set_memory_limit'' then
           (case dec_number j payload of
              None \<Rightarrow> (Fails Invalid_Payload, sv)
            | Some bytes \<Rightarrow> (OK, sv\<lparr>sv_memoryLimit := memory_limit bytes\<rparr>))
         else if action = ''listen_stats'' then
           (case dec_number j payload of
              None \<Rightarrow> (Fails Invalid_Payload, sv)
            | Some ms \<Rightarrow> if ms \<le> 0 then (Fails Bad_Interval, sv) else (OK, sv\<lparr>sv_stats := Some ms\<rparr>))
         else if action = ''stop_stats'' then (OK, sv\<lparr>sv_stats := None\<rparr>)
         else if action = ''replay_session'' then (OK, sv\<lparr>sv_replays := sv_replays sv + 1\<rparr>)
         else (Fails Unknown_Action, sv))"

section \<open>The client\<close>

record 'l client =
  cl_engines :: 'l
  cl_env :: tun2socks_env
  cl_ipc :: bool  \<comment> \<open>\<^verbatim>\<open>useServiceIPC\<close>\<close>
  cl_pipe :: bool  \<comment> \<open>the command pipe works\<close>

definition callService ::
    "'l engine_ops \<Rightarrow> json_codec \<Rightarrow> bool \<Rightarrow> string \<Rightarrow> string \<Rightarrow> 'l service \<Rightarrow> pipeResponse \<times> 'l service" where
  "callService ops j works action payload sv =
     (if works then dispatchCommand ops j \<lparr>cmd_Action = action, cmd_Payload = payload\<rparr> sv else (Fails No_Pipe, sv))"

definition failed :: "pipeResponse \<Rightarrow> bool" where
  "failed r \<longleftrightarrow> (\<exists>e. r = Fails e)"

definition serviceEngineStart ::
    "'l engine_ops \<Rightarrow> json_codec \<Rightarrow> 'l client \<Rightarrow> string \<Rightarrow> EngineStartRequest \<Rightarrow> 'l service \<Rightarrow> pipeResponse \<times> 'l service" where
  "serviceEngineStart ops j c eid req sv =
     (case currentTun2SocksConfig (cl_env c) of (mtu, udp) \<Rightarrow>
        callService ops j (cl_pipe c) ''engine_start'' (enc_start j (eid, enc_request j req, mtu, udp)) sv)"

definition localEngineRunning :: "'l engine_ops \<Rightarrow> 'l client \<Rightarrow> string \<Rightarrow> bool" where
  "localEngineRunning ops c eid = op_running ops eid (cl_engines c)"

definition engineStart ::
    "'l engine_ops \<Rightarrow> json_codec \<Rightarrow> string \<Rightarrow> EngineStartRequest \<Rightarrow> 'l client \<times> 'l service \<Rightarrow> int \<times> 'l client \<times> 'l service" where
  "engineStart ops j eid req w =
     (case w of (c, sv) \<Rightarrow>
        if eid \<notin> set (op_ids ops) then (ResultError, c, sv)
        else if cl_ipc c \<and> proxyPortFromOpts (req_Opts req) \<le> 0 then
          (case serviceEngineStart ops j c eid req sv of (resp, sv') \<Rightarrow> (if failed resp then ResultError else ResultSuccess, c, sv'))
        else (case op_start ops eid req (cl_engines c) of (r, l) \<Rightarrow> (r, c\<lparr>cl_engines := l\<rparr>, sv)))"

definition engineStop ::
    "'l engine_ops \<Rightarrow> json_codec \<Rightarrow> string \<Rightarrow> 'l client \<times> 'l service \<Rightarrow> int \<times> 'l client \<times> 'l service" where
  "engineStop ops j eid w =
     (case w of (c, sv) \<Rightarrow>
        if eid \<notin> set (op_ids ops) then (ResultError, c, sv)
        else if cl_ipc c \<and> \<not> localEngineRunning ops c eid then
          (case callService ops j (cl_pipe c) ''engine_stop'' (enc_engine j eid) sv of (resp, sv') \<Rightarrow>
             (if failed resp then ResultError else ResultSuccess, c, sv'))
        else (case op_stop ops eid (cl_engines c) of (r, l) \<Rightarrow> (r, c\<lparr>cl_engines := l\<rparr>, sv)))"

definition engineIsRunning :: "'l engine_ops \<Rightarrow> json_codec \<Rightarrow> string \<Rightarrow> 'l client \<times> 'l service \<Rightarrow> int" where
  "engineIsRunning ops j eid w =
     (case w of (c, sv) \<Rightarrow>
        if eid \<notin> set (op_ids ops) then ResultError
        else if localEngineRunning ops c eid then ResultSuccess
        else if cl_ipc c then
          (case callService ops j (cl_pipe c) ''engine_status'' (enc_engine j eid) sv of
             (OK_Running True, _) \<Rightarrow> ResultSuccess
           | _ \<Rightarrow> ResultError)
        else ResultError)"

definition activeEngineID :: "'l engine_ops \<Rightarrow> json_codec \<Rightarrow> 'l client \<times> 'l service \<Rightarrow> string" where
  "activeEngineID ops j w = (case find (\<lambda>eid. engineIsRunning ops j eid w = ResultSuccess) (op_ids ops) of Some eid \<Rightarrow> eid | None \<Rightarrow> [])"

definition engineDisplayName :: "string \<Rightarrow> string" where
  "engineDisplayName eid = (if eid = ''xray'' then ''Xray'' else if eid = ''awg'' then ''AWG'' else eid)"

section \<open>A command reaches the process that runs the engine\<close>

text \<open>The values a client sends are read back as they were written.\<close>

definition codec_ok :: "json_codec \<Rightarrow> string \<Rightarrow> EngineStartRequest \<Rightarrow> int \<times> int \<Rightarrow> bool" where
  "codec_ok j eid req settings \<longleftrightarrow>
     dec_request j (enc_request j req) = Some req \<and>
     dec_start j (enc_start j (eid, enc_request j req, settings)) = Some (eid, enc_request j req, settings) \<and>
     dec_engine j (enc_engine j eid) = Some eid"

lemma action_names:
  "ToLower (TrimSpace ''engine_start'') = ''engine_start''" "ToLower (TrimSpace ''engine_stop'') = ''engine_stop''"
  "ToLower (TrimSpace ''engine_status'') = ''engine_status''"
  by code_simp+

lemma dispatch_start:
  assumes "codec_ok j eid req (mtu, udp)"
  shows "dispatchCommand ops j \<lparr>cmd_Action = ''engine_start'', cmd_Payload = enc_start j (eid, enc_request j req, mtu, udp)\<rparr> sv =
    (case service_start ops eid req (sv_engines sv) of (result, l) \<Rightarrow>
       (if result \<noteq> ResultSuccess then Fails Start_Failed else OK,
        sv\<lparr>sv_env := applyTun2SocksConfig mtu udp (sv_env sv), sv_engines := l\<rparr>))"
  using assms by (simp add: dispatchCommand_def action_names codec_ok_def)

lemma dispatch_stop:
  assumes "codec_ok j eid req settings"
  shows "dispatchCommand ops j \<lparr>cmd_Action = ''engine_stop'', cmd_Payload = enc_engine j eid\<rparr> sv =
    (case service_stop ops eid (sv_engines sv) of (result, l) \<Rightarrow>
       (if result \<noteq> ResultSuccess then Fails Stop_Failed else OK, sv\<lparr>sv_engines := l\<rparr>))"
  using assms by (simp add: dispatchCommand_def action_names codec_ok_def)

lemma dispatch_status:
  assumes "codec_ok j eid req settings"
  shows "dispatchCommand ops j \<lparr>cmd_Action = ''engine_status'', cmd_Payload = enc_engine j eid\<rparr> sv =
    (OK_Running (eid \<in> set (op_ids ops) \<and> op_running ops eid (sv_engines sv)), sv)"
  using assms by (simp add: dispatchCommand_def action_names codec_ok_def)

lemma env_int_itoa: "0 \<le> lo \<Longrightarrow> lo \<le> v \<Longrightarrow> v \<le> hi \<Longrightarrow> hi < 2 ^ 63 \<Longrightarrow> env_int (itoa v) lo hi d = v"
  using Atoi_nat_digits [of "nat v"] by (simp add: env_int_def itoa_def nat_less_iff)

lemma env_int_range: "lo \<le> d \<Longrightarrow> d \<le> hi \<Longrightarrow> lo \<le> env_int s lo hi d \<and> env_int s lo hi d \<le> hi"
  by (simp add: env_int_def split: option.split)

text \<open>The settings of the client's tunnel are those the service's tunnel gets.\<close>

lemma tun2socks_settings_travel:
  assumes "currentTun2SocksConfig e = (mtu, udp)"
  shows "currentTun2SocksConfig (applyTun2SocksConfig mtu udp e') = (mtu, udp)"
    "tun2socksMTU (applyTun2SocksConfig mtu udp e') = mtu" "tun2socksUDPTimeout (applyTun2SocksConfig mtu udp e') = udp"
proof -
  have "1200 \<le> mtu \<and> mtu \<le> 1500" "5 \<le> udp \<and> udp \<le> 300"
    using assms env_int_range [of 1200 defaultTunMTU 1500 "env_MTU e"] env_int_range [of 5 defaultTunUDPTimeoutSec 300 "env_UDPTimeout e"]
    by (auto simp: currentTun2SocksConfig_def defaultTunMTU_def defaultTunUDPTimeoutSec_def)
  then show "currentTun2SocksConfig (applyTun2SocksConfig mtu udp e') = (mtu, udp)"
    "tun2socksMTU (applyTun2SocksConfig mtu udp e') = mtu" "tun2socksUDPTimeout (applyTun2SocksConfig mtu udp e') = udp"
    by (simp_all add: currentTun2SocksConfig_def tun2socksMTU_def tun2socksUDPTimeout_def applyTun2SocksConfig_def env_int_itoa)
qed

text \<open>
  C25. With the client forwarding to a service it can reach, a tunnel start gives the service's engine the client's very request and
  tunnel settings and leaves the client's own engines alone; a proxy start stays in the client. A stop ends the engine in the process
  that runs it: an engine of the client is never stopped by touching the service's, nor the other way round. An engine counts as
  running exactly when one of the two processes runs it.
\<close>

theorem command_reaches_its_process:
  assumes "codec_ok j eid req (currentTun2SocksConfig (cl_env c))" "cl_ipc c" "cl_pipe c" "eid \<in> set (op_ids ops)"
  shows "(case engineStart ops j eid req (c, sv) of (r, c', sv') \<Rightarrow>
      if proxyPortFromOpts (req_Opts req) \<le> 0
      then c' = c \<and> sv_engines sv' = snd (op_start ops eid req (sv_engines sv)) \<and>
        (r = ResultSuccess \<longleftrightarrow> fst (op_start ops eid req (sv_engines sv)) = ResultSuccess) \<and>
        currentTun2SocksConfig (sv_env sv') = currentTun2SocksConfig (cl_env c)
      else sv' = sv \<and> cl_engines c' = snd (op_start ops eid req (cl_engines c)) \<and> r = fst (op_start ops eid req (cl_engines c))) \<and>
    (case engineStop ops j eid (c, sv) of (r, c', sv') \<Rightarrow>
      if op_running ops eid (cl_engines c) then sv' = sv \<and> cl_engines c' = snd (op_stop ops eid (cl_engines c))
      else c' = c \<and> sv_engines sv' = snd (op_stop ops eid (sv_engines sv))) \<and>
    (engineIsRunning ops j eid (c, sv) = ResultSuccess \<longleftrightarrow>
      op_running ops eid (cl_engines c) \<or> op_running ops eid (sv_engines sv))"
proof -
  obtain mtu udp where mu: "currentTun2SocksConfig (cl_env c) = (mtu, udp)" by force
  note travel = tun2socks_settings_travel(1) [OF mu]
  have start: "serviceEngineStart ops j c eid req sv = (case op_start ops eid req (sv_engines sv) of (result, l) \<Rightarrow>
      (if result \<noteq> ResultSuccess then Fails Start_Failed else OK,
       sv\<lparr>sv_env := applyTun2SocksConfig mtu udp (sv_env sv), sv_engines := l\<rparr>))"
    using assms dispatch_start [OF assms(1) [unfolded mu], where ops = ops and sv = sv] by (simp add: serviceEngineStart_def mu callService_def service_start_def)
  have "case engineStart ops j eid req (c, sv) of (r, c', sv') \<Rightarrow>
      if proxyPortFromOpts (req_Opts req) \<le> 0
      then c' = c \<and> sv_engines sv' = snd (op_start ops eid req (sv_engines sv)) \<and>
        (r = ResultSuccess \<longleftrightarrow> fst (op_start ops eid req (sv_engines sv)) = ResultSuccess) \<and>
        currentTun2SocksConfig (sv_env sv') = currentTun2SocksConfig (cl_env c)
      else sv' = sv \<and> cl_engines c' = snd (op_start ops eid req (cl_engines c)) \<and> r = fst (op_start ops eid req (cl_engines c))"
    using assms travel
    by (auto simp: engineStart_def start mu failed_def ResultSuccess_def ResultError_def split: prod.split)
  moreover have "case engineStop ops j eid (c, sv) of (r, c', sv') \<Rightarrow>
      if op_running ops eid (cl_engines c) then sv' = sv \<and> cl_engines c' = snd (op_stop ops eid (cl_engines c))
      else c' = c \<and> sv_engines sv' = snd (op_stop ops eid (sv_engines sv))"
    using assms dispatch_stop [OF assms(1), where ops = ops and sv = sv] by (auto simp: engineStop_def localEngineRunning_def callService_def service_stop_def split: prod.split)
  moreover have "engineIsRunning ops j eid (c, sv) = ResultSuccess \<longleftrightarrow>
      op_running ops eid (cl_engines c) \<or> op_running ops eid (sv_engines sv)"
    using assms dispatch_status [OF assms(1), where ops = ops and sv = sv]
    by (simp add: engineIsRunning_def localEngineRunning_def callService_def ResultSuccess_def ResultError_def split: bool.split)
  ultimately show ?thesis by simp
qed

definition sample_ops :: "(string list) engine_ops" where
  "sample_ops = \<lparr>op_start = (\<lambda>e _ l. (ResultSuccess, e # l)), op_stop = (\<lambda>e l. (ResultSuccess, removeAll e l)),
     op_running = (\<lambda>e l. e \<in> set l), op_ids = [''awg'', ''mihomo'', ''xray'']\<rparr>"

definition sample_codec :: json_codec where
  "sample_codec = \<lparr>enc_request = (\<lambda>_. ''r''), dec_request = (\<lambda>_. Some sample_request),
     enc_start = (\<lambda>(e, r, m, u). e), dec_start = (\<lambda>e. Some (e, ''r'', 1420, 30)), enc_engine = (\<lambda>e. e), dec_engine = Some,
     enc_number = itoa, dec_number = Atoi, enc_flag = (\<lambda>b. if b then ''1'' else []), dec_flag = (\<lambda>s. Some (s \<noteq> []))\<rparr>"

definition sample_client :: "(string list) client" where
  "sample_client = \<lparr>cl_engines = [], cl_env = \<lparr>env_MTU = [], env_UDPTimeout = []\<rparr>, cl_ipc = True, cl_pipe = True\<rparr>"

definition sample_service :: "(string list) service" where
  "sample_service = \<lparr>sv_engines = [''xray''], sv_env = \<lparr>env_MTU = ''1300'', env_UDPTimeout = []\<rparr>, sv_verbosity = 0, sv_inspector = False,
     sv_memoryLimit = 0, sv_stats = None, sv_replays = 0\<rparr>"

theorem command_reaches_its_process_witness:
  "engineIsRunning sample_ops sample_codec ''xray'' (sample_client, sample_service) = ResultSuccess \<and>
   snd (snd (engineStop sample_ops sample_codec ''xray'' (sample_client\<lparr>cl_engines := [''xray'']\<rparr>, sample_service))) = sample_service"
proof -
  have s: "currentTun2SocksConfig (cl_env sample_client) = (1420, 30)" by code_simp
  have "codec_ok sample_codec ''xray'' sample_request (1420, 30)" by (simp add: codec_ok_def sample_codec_def)
  note a = command_reaches_its_process [of sample_codec "''xray''" sample_request _ sample_ops sample_service]
  have "''xray'' \<in> set (op_ids sample_ops)" by code_simp
  with a [of sample_client] a [of "sample_client\<lparr>cl_engines := [''xray'']\<rparr>"] s \<open>codec_ok _ _ _ _\<close> show ?thesis
    by (simp add: sample_client_def sample_ops_def sample_service_def split: prod.splits)
qed

end
